(* ===== verification/Prelude.thy ===== *)
theory Prelude
  imports Main "HOL-Library.Word"
begin

unbundle bit_operations_syntax

text \<open>
  Shared vocabulary of the development: bytes and strings, the outcome of code that may
  abort the process, checked reads and writes of memory buffers, slices of strings,
  association lists for \<open>std::map\<close>, and the locale of invariants of transition systems
  that the stateful components interpret.
\<close>

named_theorems outcome_simps
named_theorems buffer_simps

type_synonym byte = "8 word"
type_synonym bytes = "byte list"
type_synonym u32 = "32 word"
type_synonym u64 = "64 word"

section \<open>Outcomes\<close>

text \<open>
  A C++ operation either returns or takes the process down: a failed \<open>CHECK\<close>
  (src/src/util.h), a call through a null pointer, \<open>UNREACHABLE\<close>, an access outside
  a buffer. The model makes the abort a value.
\<close>

datatype abort = Check_failed | Null_deref | Unreachable_reached | Out_of_bounds | Bad_cast

type_synonym 'a outcome = "abort + 'a"

definition obind :: "'a outcome \<Rightarrow> ('a \<Rightarrow> 'b outcome) \<Rightarrow> 'b outcome" where
  "obind r f = (case r of Inl e \<Rightarrow> Inl e | Inr x \<Rightarrow> f x)"

lemma obind_Inl [simp, outcome_simps]: "obind (Inl e) f = Inl e"
  by (simp add: obind_def)

lemma obind_Inr [simp, outcome_simps]: "obind (Inr x) f = f x"
  by (simp add: obind_def)

lemma obind_eq_Inr [outcome_simps]:
  "obind r f = Inr y \<longleftrightarrow> (\<exists>x. r = Inr x \<and> f x = Inr y)"
  by (cases r) auto

lemma obind_eq_Inl [outcome_simps]:
  "obind r f = Inl e \<longleftrightarrow> r = Inl e \<or> (\<exists>x. r = Inr x \<and> f x = Inl e)"
  by (cases r) auto

lemma obind_fundef_cong [fundef_cong]:
  "r = r' \<Longrightarrow> (\<And>x. r' = Inr x \<Longrightarrow> f x = f' x) \<Longrightarrow> obind r f = obind r' f'"
  by (cases r') auto

definition CHECK :: "bool \<Rightarrow> unit outcome" where
  "CHECK b = (if b then Inr () else Inl Check_failed)"

lemma CHECK_True [simp, outcome_simps]: "CHECK True = Inr ()"
  by (simp add: CHECK_def)

lemma CHECK_eq_Inr [simp, outcome_simps]: "CHECK b = Inr u \<longleftrightarrow> b"
  by (simp add: CHECK_def)

lemma CHECK_eq_Inl [simp, outcome_simps]: "CHECK b = Inl e \<longleftrightarrow> \<not> b \<and> e = Check_failed"
  by (auto simp: CHECK_def)

definition returns :: "'a outcome \<Rightarrow> bool" where
  "returns r = (case r of Inl _ \<Rightarrow> False | Inr _ \<Rightarrow> True)"

lemma returns_simps [simp]: "returns (Inr x)" "\<not> returns (Inl e)"
  by (simp_all add: returns_def)

lemma returns_iff: "returns r \<longleftrightarrow> (\<exists>x. r = Inr x)"
  by (cases r) auto

section \<open>Memory buffers\<close>

definition mem_write :: "'a list \<Rightarrow> nat \<Rightarrow> 'a list \<Rightarrow> 'a list outcome" where
  "mem_write buf j xs =
     (if j + length xs \<le> length buf
      then Inr (take j buf @ xs @ drop (j + length xs) buf)
      else Inl Out_of_bounds)"

definition mem_read :: "'a list \<Rightarrow> nat \<Rightarrow> 'a outcome" where
  "mem_read buf j = (if j < length buf then Inr (buf ! j) else Inl Out_of_bounds)"

lemma mem_write_length [buffer_simps]: "mem_write buf j xs = Inr buf' \<Longrightarrow> length buf' = length buf"
  by (auto simp: mem_write_def split: if_splits)

lemma mem_write_ok [buffer_simps]:
  "j + length xs \<le> length buf \<Longrightarrow>
   mem_write buf j xs = Inr (take j buf @ xs @ drop (j + length xs) buf)"
  by (simp add: mem_write_def)

lemma mem_write_take:
  "j + length xs \<le> length buf \<Longrightarrow> k \<le> length xs \<Longrightarrow>
   \<exists>buf'. mem_write buf j xs = Inr buf' \<and> length buf' = length buf \<and>
     take (j + k) buf' = take j buf @ take k xs"
  by (simp add: mem_write_def)

lemma mem_write_nth:
  "j < length buf \<Longrightarrow>
   \<exists>buf'. mem_write buf j [x] = Inr buf' \<and> length buf' = length buf \<and>
     take j buf' = take j buf \<and> buf' ! j = x"
  by (simp add: mem_write_def nth_append)

definition slice :: "nat \<Rightarrow> nat \<Rightarrow> 'a list \<Rightarrow> 'a list" where
  "slice off len xs = take len (drop off xs)"

lemma slice_0 [simp]: "slice off 0 xs = []"
  by (simp add: slice_def)

lemma slice_append_left: "off + len \<le> length xs \<Longrightarrow> slice off len (xs @ ys) = slice off len xs"
  by (simp add: slice_def)

lemma slice_length: "off + len \<le> length xs \<Longrightarrow> length (slice off len xs) = len"
  by (simp add: slice_def)

lemma slice_Suc:
  "off + len < length xs \<Longrightarrow> slice off (Suc len) xs = slice off len xs @ [xs ! (off + len)]"
  by (simp add: slice_def take_Suc_conv_app_nth)

lemma append_prefix_cut:
  "b @ rest = x @ y \<Longrightarrow> length x \<le> length b \<Longrightarrow> b = x @ drop (length x) b \<and> drop (length x) b @ rest = y"
  by (auto simp: append_eq_append_conv2)

lemma of_nat_u32_inj:
  assumes "i < 2 ^ 32" "j < 2 ^ 32" "(of_nat i :: u32) = of_nat j"
  shows "i = j"
proof -
  have "take_bit 32 i = take_bit 32 j" using assms(3) by (simp add: word_of_nat_eq_iff)
  then show ?thesis using assms(1,2) by (simp only: take_bit_nat_eq_self)
qed

lemma of_nat_u32_0: "n < 2 ^ 32 \<Longrightarrow> (of_nat n :: u32) = 0 \<longleftrightarrow> n = 0"
  using of_nat_u32_inj [of n 0] by auto

section \<open>Invariants of transition systems\<close>

text \<open>
  A component is a set of initial states and a step relation; an invariant that holds
  initially and survives every step holds in every reachable state.
\<close>

locale invariant_system =
  fixes initial :: "'s \<Rightarrow> bool"
    and step :: "'s \<Rightarrow> 's \<Rightarrow> bool"
    and inv :: "'s \<Rightarrow> bool"
  assumes inv_initial: "initial s \<Longrightarrow> inv s"
    and inv_step: "inv s \<Longrightarrow> step s t \<Longrightarrow> inv t"
begin

lemma inv_steps: "step\<^sup>*\<^sup>* s t \<Longrightarrow> inv s \<Longrightarrow> inv t"
  by (induction rule: rtranclp_induct) (auto intro: inv_step)

lemma inv_reachable: "initial s \<Longrightarrow> step\<^sup>*\<^sup>* s t \<Longrightarrow> inv t"
  by (blast intro: inv_steps inv_initial)

end

end
