(* ===== verification/UriEncode.thy ===== *)
theory UriEncode
  imports Prelude
begin

text \<open>
  Percent-encoding of octets, src/src/url/uri_encode.cc with the tables of
  src/src/url/uri_encode-macros.data. Both loops write into a caller-supplied buffer;
  the model keeps the buffer and its size, so that an overrun is an outcome.
\<close>

unbundle bit_operations_syntax

section \<open>The tables\<close>

text \<open>
  \<open>uri_encode_tbl\<close> has a four-byte entry per octet: percent sign, two upper-case
  hexadecimal digits and NUL, or four NULs for an octet that is copied. Row \<open>r\<close> of
  the table holds the octets \<open>16 * r\<close> to \<open>16 * r + 15\<close>.
\<close>

definition uri_encode_escaped :: "byte \<Rightarrow> bool" where
  "uri_encode_escaped b =
     (let r = unat b div 16; c = unat b mod 16
      in if r = 2 then c \<noteq> 10 \<and> c \<noteq> 13 \<and> c \<noteq> 14
         else if r = 3 then 10 \<le> c
         else if r = 4 \<or> r = 6 then c = 0
         else if r = 5 then c = 11 \<or> c = 12 \<or> c = 13 \<or> c = 14
         else if r = 7 then c = 11 \<or> c = 12 \<or> c = 13 \<or> c = 15
         else True)"

definition hex_upper :: "byte \<Rightarrow> byte" where
  "hex_upper d = (if d < 10 then 48 + d else 55 + d)"

definition uri_encode_tbl :: "byte \<Rightarrow> bytes" where
  "uri_encode_tbl b =
     (if uri_encode_escaped b
      then [37, hex_upper (drop_bit 4 b), hex_upper (take_bit 4 b), 0]
      else [0, 0, 0, 0])"

definition hexval :: "byte \<Rightarrow> byte" where
  "hexval b =
     (if 48 \<le> b \<and> b \<le> 57 then b - 48
      else if 65 \<le> b \<and> b \<le> 70 then b - 55
      else if 97 \<le> b \<and> b \<le> 102 then b - 87
      else 0xFF)"

section \<open>Encode and Decode\<close>

text \<open>
  The loop of \<open>Encode\<close>: \<open>src\<close> is what is left of the input, \<open>j\<close> the output index.
  The table entry is stored as one \<open>int32_t\<close>, four bytes, and \<open>j\<close> advances by three.
\<close>

fun Encode_loop :: "bool \<Rightarrow> bytes \<Rightarrow> bytes \<Rightarrow> nat \<Rightarrow> (bytes \<times> nat) outcome" where
  "Encode_loop space_to_plus [] dst j =
     obind (mem_write dst j [0]) (\<lambda>dst. Inr (dst, j))"
| "Encode_loop space_to_plus (octet # src) dst j =
     (if octet = 32 \<and> space_to_plus
      then obind (mem_write dst j [43]) (\<lambda>dst. Encode_loop space_to_plus src dst (j + 1))
      else (let code = uri_encode_tbl octet
            in if code \<noteq> [0, 0, 0, 0]
               then obind (mem_write dst j code)
                      (\<lambda>dst. Encode_loop space_to_plus src dst (j + 3))
               else obind (mem_write dst j [octet])
                      (\<lambda>dst. Encode_loop space_to_plus src dst (j + 1))))"

definition Encode :: "bytes \<Rightarrow> bytes \<Rightarrow> bool \<Rightarrow> (bytes \<times> nat) outcome" where
  "Encode src dst space_to_plus = Encode_loop space_to_plus src dst 0"

text \<open>
  The loop of \<open>Decode\<close>. With \<open>c # cs\<close> left of the input, the source's guard
  \<open>i + 2 < len\<close> says that two more octets follow \<open>c\<close>.
\<close>

function Decode_loop :: "bytes \<Rightarrow> bytes \<Rightarrow> nat \<Rightarrow> (bytes \<times> nat) outcome" where
  "Decode_loop [] dst j = obind (mem_write dst j [0]) (\<lambda>dst. Inr (dst, j))"
| "Decode_loop (c # cs) dst j =
     (if c = 43
      then obind (mem_write dst j [32]) (\<lambda>dst. Decode_loop cs dst (j + 1))
      else if c = 37 \<and> 2 \<le> length cs \<and> hexval (cs ! 0) OR hexval (cs ! 1) \<noteq> 0xFF
      then obind (mem_write dst j [push_bit 4 (hexval (cs ! 0)) OR hexval (cs ! 1)])
             (\<lambda>dst. Decode_loop (drop 2 cs) dst (j + 1))
      else obind (mem_write dst j [c]) (\<lambda>dst. Decode_loop cs dst (j + 1)))"
  by pat_completeness auto
termination
  by (relation "measure (\<lambda>(src, _, _). length src)") auto

definition Decode :: "bytes \<Rightarrow> bytes \<Rightarrow> (bytes \<times> nat) outcome" where
  "Decode src dst = Decode_loop src dst 0"

section \<open>The strings they compute\<close>

text \<open>What the loops compute, without the buffer: one output string per input string.\<close>

definition enc_octet :: "bool \<Rightarrow> byte \<Rightarrow> bytes" where
  "enc_octet space_to_plus b =
     (if b = 32 \<and> space_to_plus then [43]
      else if uri_encode_escaped b then [37, hex_upper (drop_bit 4 b), hex_upper (take_bit 4 b)]
      else [b])"

definition encoded :: "bool \<Rightarrow> bytes \<Rightarrow> bytes" where
  "encoded space_to_plus s = concat (map (enc_octet space_to_plus) s)"

function decoded :: "bytes \<Rightarrow> bytes" where
  "decoded [] = []"
| "decoded (c # cs) =
     (if c = 43 then 32 # decoded cs
      else if c = 37 \<and> 2 \<le> length cs \<and> hexval (cs ! 0) OR hexval (cs ! 1) \<noteq> 0xFF
      then (push_bit 4 (hexval (cs ! 0)) OR hexval (cs ! 1)) # decoded (drop 2 cs)
      else c # decoded cs)"
  by pat_completeness auto
termination
  by (relation "measure length") auto

lemma encoded_simps [simp]:
  "encoded sp [] = []"
  "encoded sp (b # s) = enc_octet sp b @ encoded sp s"
  "encoded sp (s @ t) = encoded sp s @ encoded sp t"
  by (simp_all add: encoded_def)

lemma enc_octet_length: "length (enc_octet sp b) \<le> 3"
  by (simp add: enc_octet_def)

lemma encoded_length: "length (encoded sp s) \<le> 3 * length s"
proof (induction s)
  case (Cons b s)
  with enc_octet_length [of sp b] show ?case by simp
qed simp

lemma decoded_length: "length (decoded s) \<le> length s"
  by (induction s rule: decoded.induct) auto

section \<open>Correctness of the loops\<close>

lemma nibble_hexval: "\<forall>n\<in>set [0..<16]. hexval (hex_upper (word_of_nat n)) = word_of_nat n"
  by code_simp

lemma hexval_hex_upper: 
  assumes "unat d < 16" shows "hexval (hex_upper d) = d"
  using nibble_hexval [THEN bspec, of "unat d"] assms by simp

lemma unat_drop_4: "unat (drop_bit 4 (b::byte)) < 16"
proof -
  have "unat b < 256" using unsigned_less [of b] by simp
  then show ?thesis by (simp add: drop_bit_eq_div unat_div)
qed

lemma unat_take_4: "unat (take_bit 4 (b::byte)) < 16"
  by (simp add: take_bit_eq_mod unat_mod)

lemma nibbles_join: "push_bit 4 (drop_bit 4 b) OR take_bit 4 b = (b::byte)"
  by (rule bit_eqI) (auto simp: bit_simps possible_bit_def)

lemma drop_4_nibble: "unat (d::byte) < 16 \<Longrightarrow> drop_bit 4 d = 0"
  by (simp add: drop_bit_eq_div word_arith_nat_div)

lemma nibbles_or_neq: 
  assumes "unat (d::byte) < 16" "unat e < 16" shows "d OR e \<noteq> 0xFF"
proof
  assume *: "d OR e = 0xFF"
  have "drop_bit 4 (d OR e) = 0"
    using assms by (simp only: drop_bit_or drop_4_nibble or.left_neutral)
  with * show False by simp
qed

lemma unescaped: 
  assumes "\<not> uri_encode_escaped b"
  shows "b \<noteq> 32" "b \<noteq> 37" "b \<noteq> 38" "b \<noteq> 43" "b \<noteq> 61" "b \<noteq> 63" "b \<noteq> 0"
  using assms by (auto simp: uri_encode_escaped_def)

lemma uri_encode_tbl_zero: "uri_encode_tbl b = [0,0,0,0] \<longleftrightarrow> \<not> uri_encode_escaped b"
  by (simp add: uri_encode_tbl_def)

lemma decoded_enc_octet: "decoded (enc_octet sp b @ t) = b # decoded t"
proof (cases "uri_encode_escaped b \<and> \<not> (b = 32 \<and> sp)")
  case True
  then have "enc_octet sp b = [37, hex_upper (drop_bit 4 b), hex_upper (take_bit 4 b)]"
    by (auto simp: enc_octet_def)
  then show ?thesis
    using nibbles_or_neq [OF unat_drop_4 unat_take_4, of b b]
    by (simp add: hexval_hex_upper unat_drop_4 unat_take_4 nibbles_join del: push_bit_numeral_minus_1)
next
  case False
  then show ?thesis by (auto simp: enc_octet_def dest: unescaped)
qed

lemma decoded_encoded: "decoded (encoded sp s) = s"
  by (induction s) (simp_all add: decoded_enc_octet)

lemma Encode_loop_ok:
  "j + 3 * length src < length dst \<Longrightarrow>
   \<exists>dst'. Encode_loop sp src dst j = Inr (dst', j + length (encoded sp src)) \<and>
     length dst' = length dst \<and>
     take (j + length (encoded sp src)) dst' = take j dst @ encoded sp src \<and>
     dst' ! (j + length (encoded sp src)) = 0"
proof (induction src arbitrary: dst j)
  case Nil
  then obtain dst' where "mem_write dst j [0] = Inr dst'" "length dst' = length dst"
    "take j dst' = take j dst" "dst' ! j = 0"
    using mem_write_nth [of j dst 0] by auto
  then show ?case by simp
next
  case (Cons b src)
  define code where "code = (if b = 32 \<and> sp then [43] else if uri_encode_escaped b then uri_encode_tbl b else [b])"
  define k where "k = length (enc_octet sp b)"
  have k: "k \<le> length code" "take k code = enc_octet sp b" "k \<le> 3" "length code \<le> 4"
    by (auto simp: code_def k_def enc_octet_def uri_encode_tbl_def)
  have "j + length code \<le> length dst"
    using Cons.prems k by simp
  then obtain dst1 where d1: "mem_write dst j code = Inr dst1" "length dst1 = length dst"
    "take (j + k) dst1 = take j dst @ enc_octet sp b"
    using mem_write_take [of j code dst k] k by auto
  have loop: "Encode_loop sp (b # src) dst j = Encode_loop sp src dst1 (j + k)"
    using d1(1) by (auto simp: code_def k_def enc_octet_def uri_encode_tbl_zero numeral_3_eq_3)
  have "j + k + 3 * length src < length dst1"
    using Cons.prems k d1 by simp
  from Cons.IH [OF this] show ?case
    using loop d1 by (auto simp: k_def add.assoc)
qed

definition decode_step :: "byte \<Rightarrow> bytes \<Rightarrow> byte \<times> bytes" where
  "decode_step c cs =
     (if c = 43 then (32, cs)
      else if c = 37 \<and> 2 \<le> length cs \<and> hexval (cs ! 0) OR hexval (cs ! 1) \<noteq> 0xFF
      then (push_bit 4 (hexval (cs ! 0)) OR hexval (cs ! 1), drop 2 cs)
      else (c, cs))"

lemma decoded_step: "decode_step c cs = (x, rest) \<Longrightarrow> decoded (c # cs) = x # decoded rest"
  by (auto simp: decode_step_def split: if_splits)

lemma Decode_loop_step:
  "decode_step c cs = (x, rest) \<Longrightarrow>
   Decode_loop (c # cs) dst j = obind (mem_write dst j [x]) (\<lambda>dst. Decode_loop rest dst (j + 1))"
  by (auto simp: decode_step_def split: if_splits)

lemma decode_step_length: "decode_step c cs = (x, rest) \<Longrightarrow> length rest \<le> length cs"
  by (auto simp: decode_step_def split: if_splits)

lemma Decode_loop_ok:
  "j + length src < length dst \<Longrightarrow>
   \<exists>dst'. Decode_loop src dst j = Inr (dst', j + length (decoded src)) \<and>
     length dst' = length dst \<and>
     take (j + length (decoded src)) dst' = take j dst @ decoded src \<and>
     dst' ! (j + length (decoded src)) = 0"
proof (induction src arbitrary: dst j rule: length_induct)
  case (1 src)
  show ?case
  proof (cases src)
    case Nil
    with 1 obtain dst' where "mem_write dst j [0] = Inr dst'" "length dst' = length dst"
      "take j dst' = take j dst" "dst' ! j = 0"
      using mem_write_nth [of j dst 0] by auto
    with Nil show ?thesis by simp
  next
    case (Cons c cs)
    obtain x rest where st: "decode_step c cs = (x, rest)" by fastforce
    note st_len = decode_step_length [OF st]
    obtain dst1 where d1: "mem_write dst j [x] = Inr dst1" "length dst1 = length dst"
      "take (j + 1) dst1 = take j dst @ [x]"
      using mem_write_take [of j "[x]" dst 1] "1.prems" Cons by auto
    have "j + 1 + length rest < length dst1" "length rest < length src"
      using "1.prems" Cons st_len d1 by simp_all
    from "1.IH" [rule_format, OF this(2) this(1)] obtain dst' where
      "Decode_loop rest dst1 (j + 1) = Inr (dst', j + 1 + length (decoded rest))"
      "length dst' = length dst1"
      "take (j + 1 + length (decoded rest)) dst' = take (j + 1) dst1 @ decoded rest"
      "dst' ! (j + 1 + length (decoded rest)) = 0" by (elim exE conjE)
    then show ?thesis
      using d1
      by (simp add: Cons Decode_loop_step [OF st] decoded_step [OF st]
          del: decoded.simps Decode_loop.simps)
  qed
qed
text \<open>
  C14: a destination of \<open>3 * len + 1\<close> bytes, which is what every caller allocates, is
  enough for \<open>Encode\<close> although it stores four bytes at a time; \<open>Decode\<close> of the result into
  a buffer one byte longer than it gives back the source bytes. Both terminate their output with
  NUL.
\<close>

theorem uri_codec_roundtrip:
  assumes "3 * length src < length dst" "length (encoded sp src) < length dst2"
  shows "\<exists>e n d. Encode src dst sp = Inr (e, n) \<and> n \<le> 3 * length src \<and> length e = length dst \<and> e ! n = 0 \<and>
    Decode (take n e) dst2 = Inr (d, length src) \<and> take (length src) d = src \<and>
    length d = length dst2 \<and> d ! length src = 0"
  using Encode_loop_ok [of 0 src dst sp] Decode_loop_ok [of 0 "encoded sp src" dst2] assms encoded_length [of sp src]
  by (auto simp: Encode_def Decode_def decoded_encoded)

theorem uri_codec_roundtrip_witness:
  "\<exists>e n d. Encode [37, 32, 255] (replicate 10 0) False = Inr (e, n) \<and> n \<le> 3 * length [37, 32, 255 :: byte] \<and>
    length e = length (replicate 10 (0 :: byte)) \<and> e ! n = 0 \<and>
    Decode (take n e) (replicate 10 0) = Inr (d, length [37, 32, 255 :: byte]) \<and>
    take (length [37, 32, 255 :: byte]) d = [37, 32, 255] \<and>
    length d = length (replicate 10 (0 :: byte)) \<and> d ! length [37, 32, 255 :: byte] = 0"
  by (rule uri_codec_roundtrip) (simp_all add: enc_octet_def uri_encode_escaped_def)

end
