(* ===== verification/ResizableBuffer.thy ===== *)
theory ResizableBuffer
  imports Prelude
begin

text \<open>
  The heap buffer of src/src/utils/resizable_buffer.h. A buffer is a pointer, null or to
  \<open>_byte_length\<close> bytes. What \<open>realloc\<close> does (whether it succeeds, which bytes fresh
  memory holds) is the \<open>allocator\<close> argument. Sizes are unbounded: two live buffers never add up to \<open>2 ^ 64\<close>
  bytes.
\<close>

record allocator =
  alloc_ok :: "nat \<Rightarrow> bool"
  junk :: "nat \<Rightarrow> byte"

record resizable_buffer =
  rb_buf :: "bytes option"
  rb_byte_length :: nat

definition rb_empty :: resizable_buffer where
  "rb_empty = \<lparr>rb_buf = None, rb_byte_length = 0\<rparr>"

definition rb_Realloc :: "allocator \<Rightarrow> nat \<Rightarrow> resizable_buffer \<Rightarrow> resizable_buffer outcome" where
  "rb_Realloc A byte_length b =
     (if byte_length = rb_byte_length b then Inr b
      else if byte_length = 0 then Inr \<lparr>rb_buf = None, rb_byte_length = 0\<rparr>
      else if alloc_ok A byte_length
      then (let old = (case rb_buf b of None \<Rightarrow> [] | Some xs \<Rightarrow> xs)
            in Inr \<lparr>rb_buf = Some (take byte_length old @ map (junk A) [length old..<byte_length]),
                    rb_byte_length = byte_length\<rparr>)
      else Inl Check_failed)"

definition rb_new :: "allocator \<Rightarrow> nat \<Rightarrow> resizable_buffer outcome" where
  "rb_new A byte_length = rb_Realloc A byte_length rb_empty"

text \<open>The move constructor and the move assignment return the new object and the moved-from one.\<close>

definition rb_move :: "resizable_buffer \<Rightarrow> resizable_buffer \<times> resizable_buffer" where
  "rb_move other = (other, rb_empty)"

definition rb_move_assign ::
  "resizable_buffer \<Rightarrow> resizable_buffer \<Rightarrow> resizable_buffer \<times> resizable_buffer" where
  "rb_move_assign this other =
     (\<lparr>rb_buf = rb_buf other, rb_byte_length = rb_byte_length other\<rparr>, rb_empty)"

definition rb_Release :: "resizable_buffer \<Rightarrow> (bytes option \<times> nat) \<times> resizable_buffer" where
  "rb_Release b = ((rb_buf b, rb_byte_length b), rb_empty)"

text \<open>\<open>memcpy\<close> of \<open>n\<close> bytes out of a buffer.\<close>

definition rb_read :: "resizable_buffer \<Rightarrow> nat \<Rightarrow> bytes outcome" where
  "rb_read b n =
     (case rb_buf b of
        None \<Rightarrow> Inl Null_deref
      | Some xs \<Rightarrow> if n \<le> length xs then Inr (take n xs) else Inl Out_of_bounds)"

definition rb_write :: "resizable_buffer \<Rightarrow> nat \<Rightarrow> bytes \<Rightarrow> resizable_buffer outcome" where
  "rb_write b off data =
     (case rb_buf b of
        None \<Rightarrow> Inl Null_deref
      | Some xs \<Rightarrow> obind (mem_write xs off data) (\<lambda>xs. Inr (b\<lparr>rb_buf := Some xs\<rparr>)))"

definition rb_Concat ::
  "allocator \<Rightarrow> resizable_buffer \<Rightarrow> resizable_buffer \<Rightarrow> nat \<Rightarrow> resizable_buffer outcome" where
  "rb_Concat A this resizable byte_length =
     (if byte_length = 0 then Inr this
      else if rb_buf this = None
      then obind (rb_Realloc A byte_length this) (\<lambda>this.
           obind (rb_read resizable byte_length) (\<lambda>data. rb_write this 0 data))
      else let self_byte_length = rb_byte_length this
           in obind (rb_Realloc A (self_byte_length + byte_length) this) (\<lambda>this.
              obind (rb_read resizable byte_length) (\<lambda>data. rb_write this self_byte_length data)))"

definition rb_Prepend ::
  "allocator \<Rightarrow> resizable_buffer \<Rightarrow> resizable_buffer \<Rightarrow> nat \<Rightarrow> resizable_buffer outcome" where
  "rb_Prepend A this resizable byte_length =
     (if byte_length = 0 then Inr this
      else if rb_buf this = None
      then obind (rb_Realloc A byte_length this) (\<lambda>this.
           obind (rb_read resizable byte_length) (\<lambda>data. rb_write this 0 data))
      else let self_byte_length = rb_byte_length this
           in obind (rb_Realloc A (self_byte_length + byte_length) this) (\<lambda>this.
              obind (rb_read this self_byte_length) (\<lambda>moved.
              obind (rb_write this byte_length moved) (\<lambda>this.
              obind (rb_read resizable byte_length) (\<lambda>data. rb_write this 0 data)))))"

definition rb_Concat_all ::
  "allocator \<Rightarrow> resizable_buffer \<Rightarrow> resizable_buffer \<Rightarrow> resizable_buffer outcome" where
  "rb_Concat_all A this resizable = rb_Concat A this resizable (rb_byte_length resizable)"

definition rb_Prepend_all ::
  "allocator \<Rightarrow> resizable_buffer \<Rightarrow> resizable_buffer \<Rightarrow> resizable_buffer outcome" where
  "rb_Prepend_all A this resizable = rb_Prepend A this resizable (rb_byte_length resizable)"

section \<open>The byte sequence a buffer stands for\<close>

definition rb_contents :: "resizable_buffer \<Rightarrow> bytes" where
  "rb_contents b = (case rb_buf b of None \<Rightarrow> [] | Some xs \<Rightarrow> xs)"

definition rb_wf :: "resizable_buffer \<Rightarrow> bool" where
  "rb_wf b = (rb_byte_length b = length (rb_contents b) \<and> (rb_buf b = None \<longleftrightarrow> rb_byte_length b = 0))"

text \<open>
  What a client of the buffer relies on: operations that return keep the buffer well
  formed and act on the contents as on a sequence, and they return whenever memory is
  available and the source holds the bytes asked for.
\<close>

locale byte_sequence =
  fixes wf :: "'b \<Rightarrow> bool"
    and contents :: "'b \<Rightarrow> 'c list"
    and empty_seq :: 'b
    and append_seq :: "'b \<Rightarrow> 'b \<Rightarrow> nat \<Rightarrow> 'b outcome"
    and prepend_seq :: "'b \<Rightarrow> 'b \<Rightarrow> nat \<Rightarrow> 'b outcome"
    and available :: "nat \<Rightarrow> bool"
  assumes wf_empty: "wf empty_seq"
    and contents_empty: "contents empty_seq = []"
    and append_returns:
      "wf b \<Longrightarrow> wf s \<Longrightarrow> n \<le> length (contents s) \<Longrightarrow> available (length (contents b) + n) \<Longrightarrow>
       \<exists>b'. append_seq b s n = Inr b' \<and> wf b' \<and> contents b' = contents b @ take n (contents s)"
    and prepend_returns:
      "wf b \<Longrightarrow> wf s \<Longrightarrow> n \<le> length (contents s) \<Longrightarrow> available (length (contents b) + n) \<Longrightarrow>
       \<exists>b'. prepend_seq b s n = Inr b' \<and> wf b' \<and> contents b' = take n (contents s) @ contents b"
begin

fun append_chunks :: "'b \<Rightarrow> ('b \<times> nat) list \<Rightarrow> 'b outcome" where
  "append_chunks b [] = Inr b"
| "append_chunks b ((s, n) # cs) = obind (append_seq b s n) (\<lambda>b. append_chunks b cs)"

lemma append_chunks_contents:
  "wf b \<Longrightarrow> (\<And>s n. (s, n) \<in> set cs \<Longrightarrow> wf s \<and> n \<le> length (contents s)) \<Longrightarrow> (\<And>n. available n) \<Longrightarrow>
   \<exists>b'. append_chunks b cs = Inr b' \<and> wf b' \<and>
     contents b' = contents b @ concat (map (\<lambda>(s, n). take n (contents s)) cs)"
proof (induction cs arbitrary: b)
  case Nil
  then show ?case by simp
next
  case (Cons c cs)
  obtain s n where c: "c = (s, n)" by (cases c)
  from Cons.prems c obtain b1 where b1: "append_seq b s n = Inr b1" "wf b1"
    "contents b1 = contents b @ take n (contents s)"
    using append_returns [of b s n] by auto
  have "\<exists>b'. append_chunks b1 cs = Inr b' \<and> wf b' \<and>
      contents b' = contents b1 @ concat (map (\<lambda>(s, n). take n (contents s)) cs)"
    using Cons.prems b1(2) by (intro Cons.IH) auto
  with b1 c show ?case by auto
qed

end

lemma rb_wf_empty [simp]: "rb_wf rb_empty" "rb_contents rb_empty = []"
  by (simp_all add: rb_wf_def rb_contents_def rb_empty_def)

lemma rb_wf_cases:
  assumes "rb_wf b"
  obtains "rb_buf b = None" "rb_byte_length b = 0" "rb_contents b = []"
  | xs where "rb_buf b = Some xs" "rb_byte_length b = length xs" "rb_contents b = xs" "xs \<noteq> []"
  using assms by (cases "rb_buf b") (auto simp: rb_wf_def rb_contents_def)

lemma rb_Realloc_ok:
  "rb_wf b \<Longrightarrow> alloc_ok A n \<Longrightarrow>
   \<exists>b'. rb_Realloc A n b = Inr b' \<and> rb_wf b' \<and> rb_byte_length b' = n \<and>
     take (min n (rb_byte_length b)) (rb_contents b') = take n (rb_contents b)"
  by (elim rb_wf_cases) (simp_all add: rb_Realloc_def rb_wf_def rb_contents_def min_def)

lemma rb_read_ok:
  "rb_wf b \<Longrightarrow> 0 < n \<Longrightarrow> n \<le> length (rb_contents b) \<Longrightarrow> rb_read b n = Inr (take n (rb_contents b))"
  by (elim rb_wf_cases) (auto simp: rb_read_def)

lemma rb_read_nonempty:
  "rb_wf b \<Longrightarrow> 0 < rb_byte_length b \<Longrightarrow> n \<le> rb_byte_length b \<Longrightarrow>
   rb_read b n = Inr (take n (rb_contents b))"
  by (elim rb_wf_cases) (auto simp: rb_read_def)

lemma rb_write_ok:
  "rb_wf b \<Longrightarrow> data \<noteq> [] \<Longrightarrow> off + length data \<le> length (rb_contents b) \<Longrightarrow>
   \<exists>b'. rb_write b off data = Inr b' \<and> rb_wf b' \<and> rb_byte_length b' = rb_byte_length b \<and>
     rb_contents b' = take off (rb_contents b) @ data @ drop (off + length data) (rb_contents b)"
  by (elim rb_wf_cases) (auto simp: rb_write_def rb_wf_def rb_contents_def mem_write_def)

lemma rb_wf_length: "rb_wf b \<Longrightarrow> length (rb_contents b) = rb_byte_length b"
  by (simp add: rb_wf_def)

lemma rb_Concat_ok:
  assumes "rb_wf b" "rb_wf s" "n \<le> length (rb_contents s)" "alloc_ok A (length (rb_contents b) + n)"
  shows "\<exists>b'. rb_Concat A b s n = Inr b' \<and> rb_wf b' \<and>
    rb_contents b' = rb_contents b @ take n (rb_contents s)"
proof (cases "n = 0")
  case True
  with assms show ?thesis by (simp add: rb_Concat_def)
next
  case False
  let ?L = "rb_byte_length b"
  let ?data = "take n (rb_contents s)"
  have data: "rb_read s n = Inr ?data" "?data \<noteq> []" "length ?data = n"
    using assms False rb_read_ok by auto
  obtain b1 where b1: "rb_Realloc A (?L + n) b = Inr b1" "rb_wf b1" "rb_byte_length b1 = ?L + n"
      "take ?L (rb_contents b1) = rb_contents b"
    using rb_Realloc_ok [of b A "?L + n"] assms by (auto simp: rb_wf_length)
  then obtain b2 where b2: "rb_write b1 ?L ?data = Inr b2" "rb_wf b2"
      "rb_contents b2 = rb_contents b @ ?data"
    using rb_write_ok [of b1 ?data ?L] data by (auto simp: rb_wf_length)
  have "rb_Concat A b s n = Inr b2"
  proof (cases "rb_buf b")
    case None
    then have "?L = 0" using assms by (auto simp: rb_wf_def)
    then show ?thesis using b1 b2 data False None by (simp add: rb_Concat_def)
  next
    case (Some xs)
    then show ?thesis using b1 b2 data False by (simp add: rb_Concat_def Let_def)
  qed
  with b2 show ?thesis by blast
qed

lemma rb_Prepend_ok:
  assumes "rb_wf b" "rb_wf s" "n \<le> length (rb_contents s)" "alloc_ok A (length (rb_contents b) + n)"
  shows "\<exists>b'. rb_Prepend A b s n = Inr b' \<and> rb_wf b' \<and>
    rb_contents b' = take n (rb_contents s) @ rb_contents b"
proof (cases "n = 0 \<or> rb_buf b = None")
  case True
  then have "rb_contents b = [] \<or> n = 0" "rb_Prepend A b s n = rb_Concat A b s n"
    using assms by (auto simp: rb_Concat_def rb_Prepend_def rb_contents_def)
  with rb_Concat_ok [OF assms] show ?thesis by auto
next
  case False
  let ?L = "rb_byte_length b"
  let ?data = "take n (rb_contents s)"
  have data: "rb_read s n = Inr ?data" "?data \<noteq> []" "length ?data = n" "0 < ?L"
    using assms False rb_read_ok by (auto simp: rb_wf_def)
  obtain b1 where b1: "rb_Realloc A (?L + n) b = Inr b1" "rb_wf b1" "rb_byte_length b1 = ?L + n"
      "take ?L (rb_contents b1) = rb_contents b"
    using rb_Realloc_ok [of b A "?L + n"] assms by (auto simp: rb_wf_length)
  moreover have r: "rb_read b1 ?L = Inr (rb_contents b)"
    using rb_read_ok [of b1 ?L] b1 data by (auto simp: rb_wf_length)
  moreover have ne: "rb_contents b \<noteq> []" "length (rb_contents b) = ?L" "length (rb_contents b1) = ?L + n"
    using rb_wf_length [OF assms(1)] rb_wf_length [OF b1(2)] data(4) b1(3) by auto
  moreover obtain b2 where b2: "rb_write b1 n (rb_contents b) = Inr b2" "rb_wf b2"
      "rb_byte_length b2 = ?L + n" "rb_contents b2 = take n (rb_contents b1) @ rb_contents b"
    using rb_write_ok [OF b1(2) ne(1), of n] ne b1(3) by auto
  moreover obtain b3 where b3: "rb_write b2 0 ?data = Inr b3" "rb_wf b3"
      "rb_contents b3 = ?data @ rb_contents b"
    using rb_write_ok [OF b2(2) data(2), of 0] b2(3,4) data(3) ne by (auto simp: rb_wf_length [OF b2(2)])
  ultimately show ?thesis using data False by (auto simp: rb_Prepend_def Let_def)
qed

interpretation rb_seq: byte_sequence rb_wf rb_contents rb_empty "rb_Concat A" "rb_Prepend A" "alloc_ok A"
  for A
  by unfold_locales (simp_all add: rb_Concat_ok rb_Prepend_ok)
text \<open>
  C15: after any successful growth, whatever fresh memory holds, \<open>Concat\<close> and \<open>Prepend\<close> of a
  prefix of another buffer give exactly the concatenation of the two byte sequences (the
  \<open>memmove\<close> of \<open>Prepend\<close> loses nothing), and the pointer is null exactly for the empty buffer.
\<close>

theorem resizable_buffer_concat_prepend:
  assumes "rb_wf b" "rb_wf s" "n \<le> length (rb_contents s)"
    and "alloc_ok A (length (rb_contents b) + n)"
  shows "\<exists>c p. rb_Concat A b s n = Inr c \<and> rb_Prepend A b s n = Inr p \<and> rb_wf c \<and> rb_wf p \<and>
    rb_contents c = rb_contents b @ take n (rb_contents s) \<and>
    rb_contents p = take n (rb_contents s) @ rb_contents b"
  using rb_seq.append_returns [OF assms] rb_seq.prepend_returns [OF assms] by blast

definition plenty :: allocator where
  "plenty = \<lparr>alloc_ok = \<lambda>_. True, junk = \<lambda>_. 204\<rparr>"

definition rb_of :: "bytes \<Rightarrow> resizable_buffer" where
  "rb_of xs = \<lparr>rb_buf = (if xs = [] then None else Some xs), rb_byte_length = length xs\<rparr>"

lemma rb_of_wf [simp]: "rb_wf (rb_of xs)" "rb_contents (rb_of xs) = xs"
  by (simp_all add: rb_of_def rb_wf_def rb_contents_def)

lemma plenty_ok [simp]: "alloc_ok plenty n"
  by (simp add: plenty_def)

lemma plenty_always: "\<forall>n. alloc_ok plenty n"
  by (rule allI) simp

theorem resizable_buffer_concat_prepend_witness:
  "\<exists>c p. rb_Concat plenty (rb_of [1, 2]) (rb_of [7, 8, 9]) 2 = Inr c \<and>
     rb_Prepend plenty (rb_of [1, 2]) (rb_of [7, 8, 9]) 2 = Inr p \<and> rb_wf c \<and> rb_wf p \<and>
     rb_contents c = [1, 2, 7, 8] \<and> rb_contents p = [7, 8, 1, 2]"
  using resizable_buffer_concat_prepend [of "rb_of [1, 2]" "rb_of [7, 8, 9]" 2 plenty] by simp

end
