(* ===== verification/Url.thy ===== *)
theory Url
  imports UriEncode ResizableBuffer
begin

text \<open>
  \<open>UrlSearchParams\<close> of src/src/url/url.cc: the query-string parser, an automaton whose
  key and value are pointers into the input, \<open>Append\<close>, which decodes both through heap
  buffers, and \<open>ToString\<close>, which encodes every entry through one buffer it grows on
  demand. Lengths are unbounded here; the source keeps them in \<open>int32_t\<close>, so the model
  speaks of queries shorter than 2 GiB.
\<close>

type_synonym ParamEntry = "bytes \<times> bytes"

datatype parse_state = St_KEY | St_VALUE | St_EQUAL | St_AND

record search_parser =
  sp_state :: parse_state
  sp_key :: "nat option"
  sp_value :: "nat option"
  sp_key_len :: nat
  sp_value_len :: nat
  sp_params :: "ParamEntry list"

text \<open>\<open>std::string(ptr, len)\<close> for a pointer into the text \<open>s\<close>.\<close>

definition std_string :: "bytes \<Rightarrow> nat option \<Rightarrow> nat \<Rightarrow> bytes outcome" where
  "std_string s ptr len =
     (if len = 0 then Inr []
      else case ptr of
             None \<Rightarrow> Inl Null_deref
           | Some off \<Rightarrow> if off + len \<le> length s then Inr (take len (drop off s)) else Inl Out_of_bounds)"

text \<open>A call of \<open>Decode\<close> or \<open>Encode\<close> whose destination is the memory of a buffer.\<close>

definition into_buffer ::
  "(bytes \<Rightarrow> (bytes \<times> nat) outcome) \<Rightarrow> resizable_buffer \<Rightarrow> (resizable_buffer \<times> nat) outcome" where
  "into_buffer f b =
     (case rb_buf b of
        None \<Rightarrow> Inl Null_deref
      | Some dst \<Rightarrow> obind (f dst) (\<lambda>(dst, n). Inr (b\<lparr>rb_buf := Some dst\<rparr>, n)))"

definition Append :: "allocator \<Rightarrow> ParamEntry list \<Rightarrow> bytes \<Rightarrow> bytes \<Rightarrow> ParamEntry list outcome" where
  "Append A params key val =
     obind (rb_new A (length key + 1)) (\<lambda>escaped_key.
     obind (rb_new A (length val + 1)) (\<lambda>escaped_value.
     obind (if length key \<noteq> 0 then into_buffer (Decode key) escaped_key else Inr (escaped_key, 0))
       (\<lambda>(escaped_key, escaped_key_len).
     obind (if length val \<noteq> 0 then into_buffer (Decode val) escaped_value else Inr (escaped_value, 0))
       (\<lambda>(escaped_value, escaped_value_len).
     obind (rb_read escaped_key escaped_key_len) (\<lambda>k.
     obind (rb_read escaped_value escaped_value_len) (\<lambda>v.
     Inr (params @ [(k, v)])))))))"

definition Append_current :: "allocator \<Rightarrow> bytes \<Rightarrow> search_parser \<Rightarrow> ParamEntry list outcome" where
  "Append_current A s st =
     obind (std_string s (sp_key st) (sp_key_len st)) (\<lambda>k.
     obind (std_string s (sp_value st) (sp_value_len st)) (\<lambda>v.
     Append A (sp_params st) k v))"

text \<open>One iteration of the parser's loop on the character \<open>c\<close> at offset \<open>ptr\<close>.\<close>

definition parse_char ::
  "allocator \<Rightarrow> bytes \<Rightarrow> nat \<Rightarrow> byte \<Rightarrow> search_parser \<Rightarrow> search_parser outcome" where
  "parse_char A s ptr c st =
     (if c = of_char CHR ''&'' then
        (case sp_state st of
           St_AND \<Rightarrow> Inr st
         | _ \<Rightarrow> obind (Append_current A s st) (\<lambda>params.
             Inr \<lparr>sp_state = St_AND, sp_key = None, sp_value = None,
                  sp_key_len = 0, sp_value_len = 0, sp_params = params\<rparr>))
      else if c = of_char CHR ''='' then
        (case sp_state st of
           St_AND \<Rightarrow> Inr (st\<lparr>sp_state := St_EQUAL\<rparr>)
         | St_KEY \<Rightarrow> Inr (st\<lparr>sp_state := St_EQUAL\<rparr>)
         | St_EQUAL \<Rightarrow> Inr (st\<lparr>sp_value := Some ptr, sp_value_len := 1, sp_state := St_VALUE\<rparr>)
         | St_VALUE \<Rightarrow> Inr (st\<lparr>sp_value_len := sp_value_len st + 1\<rparr>))
      else
        (case sp_state st of
           St_AND \<Rightarrow> Inr (st\<lparr>sp_key := Some ptr, sp_key_len := 1, sp_state := St_KEY\<rparr>)
         | St_EQUAL \<Rightarrow> Inr (st\<lparr>sp_value := Some ptr, sp_value_len := 1, sp_state := St_VALUE\<rparr>)
         | St_KEY \<Rightarrow> Inr (st\<lparr>sp_key_len := sp_key_len st + 1\<rparr>)
         | St_VALUE \<Rightarrow> Inr (st\<lparr>sp_value_len := sp_value_len st + 1\<rparr>)))"

definition parse_tail :: "allocator \<Rightarrow> bytes \<Rightarrow> search_parser \<Rightarrow> ParamEntry list outcome" where
  "parse_tail A s st =
     (if sp_key_len st \<noteq> 0 \<or> sp_value_len st \<noteq> 0 \<or> sp_state st = St_EQUAL
      then Append_current A s st else Inr (sp_params st))"

fun parse_loop ::
  "allocator \<Rightarrow> bytes \<Rightarrow> nat \<Rightarrow> bytes \<Rightarrow> search_parser \<Rightarrow> ParamEntry list outcome" where
  "parse_loop A s ptr [] st = parse_tail A s st"
| "parse_loop A s ptr (c # cs) st =
     obind (parse_char A s ptr c st) (\<lambda>st. parse_loop A s (ptr + 1) cs st)"

definition UrlSearchParams :: "allocator \<Rightarrow> bytes \<Rightarrow> ParamEntry list outcome" where
  "UrlSearchParams A search =
     (let offset = (if length search \<ge> 1 \<and> search ! 0 = of_char CHR ''?'' then 1 else 0);
          s = drop offset search
      in parse_loop A s 0 s
           \<lparr>sp_state = St_AND, sp_key = None, sp_value = None,
            sp_key_len = 0, sp_value_len = 0, sp_params = []\<rparr>)"

text \<open>Encoding one string of \<open>ToString\<close>: grow the shared buffer, encode, append to the result.\<close>

definition encode_part ::
  "allocator \<Rightarrow> bytes \<Rightarrow> bytes \<times> resizable_buffer \<Rightarrow> (bytes \<times> resizable_buffer) outcome" where
  "encode_part A str = (\<lambda>(ret, buff).
     if length str \<noteq> 0 then
       (let max_len = length str * 3 + 1
        in obind (if max_len > rb_byte_length buff then rb_Realloc A max_len buff else Inr buff) (\<lambda>buff.
           obind (into_buffer (\<lambda>dst. Encode str dst True) buff) (\<lambda>(buff, encoded_len).
           obind (rb_read buff encoded_len) (\<lambda>e. Inr (ret @ e, buff)))))
     else Inr (ret, buff))"

fun ToString_loop ::
  "allocator \<Rightarrow> nat \<Rightarrow> ParamEntry list \<Rightarrow> bytes \<times> resizable_buffer \<Rightarrow> bytes outcome" where
  "ToString_loop A i [] (ret, buff) = Inr ret"
| "ToString_loop A i ((key, val) # ps) (ret, buff) =
     obind (encode_part A key ((if i \<noteq> 0 then ret @ [of_char CHR ''&''] else ret), buff)) (\<lambda>(ret, buff).
     obind (encode_part A val (ret @ [of_char CHR ''=''], buff)) (\<lambda>st.
     ToString_loop A (i + 1) ps st))"

definition ToString :: "allocator \<Rightarrow> ParamEntry list \<Rightarrow> bytes outcome" where
  "ToString A params =
     (if length params \<noteq> 0
      then obind (rb_new A 0) (\<lambda>buff. ToString_loop A 0 params ([], buff))
      else Inr [])"

section \<open>Reference parser and printer\<close>

text \<open>
  The specification of the query format, without pointers or buffers: split at every
  ampersand, drop the empty pieces, split each piece at its first equals sign, decode.
\<close>

fun split_on :: "byte \<Rightarrow> bytes \<Rightarrow> bytes list" where
  "split_on c [] = [[]]"
| "split_on c (x # xs) =
     (if x = c then [] # split_on c xs
      else (case split_on c xs of [] \<Rightarrow> [[x]] | y # ys \<Rightarrow> (x # y) # ys))"

definition entry_of :: "bytes \<Rightarrow> ParamEntry" where
  "entry_of seg = (decoded (takeWhile (\<lambda>c. c \<noteq> 61) seg), decoded (drop 1 (dropWhile (\<lambda>c. c \<noteq> 61) seg)))"

definition spec_parse :: "bytes \<Rightarrow> ParamEntry list" where
  "spec_parse s = map entry_of (filter (\<lambda>seg. seg \<noteq> []) (split_on 38 s))"

definition spec_query :: "bytes \<Rightarrow> bytes" where
  "spec_query search = (if search \<noteq> [] \<and> hd search = 63 then tl search else search)"

fun spec_print :: "ParamEntry list \<Rightarrow> bytes" where
  "spec_print [] = []"
| "spec_print [(k, v)] = encoded True k @ [61] @ encoded True v"
| "spec_print ((k, v) # ps) = encoded True k @ [61] @ encoded True v @ [38] @ spec_print ps"

lemma split_on_nonempty: "split_on c s \<noteq> []"
  by (induction s) (auto split: list.splits)

lemma split_on_none: "c \<notin> set s \<Longrightarrow> split_on c s = [s]"
  by (induction s) auto

lemma split_on_append: "c \<notin> set s \<Longrightarrow> split_on c (s @ c # t) = s # split_on c t"
  by (induction s) auto

lemma spec_parse_cut: "38 \<notin> set cur \<Longrightarrow>
    spec_parse (cur @ 38 # cs) = (if cur = [] then [] else [entry_of cur]) @ spec_parse cs"
  by (simp add: spec_parse_def split_on_append)

lemma spec_parse_last: "38 \<notin> set cur \<Longrightarrow> spec_parse cur = (if cur = [] then [] else [entry_of cur])"
  by (simp add: spec_parse_def split_on_none)

section \<open>The detailed parser and printer implement the reference\<close>

lemma into_buffer_ok:
  "rb_wf b \<Longrightarrow> 0 < rb_byte_length b \<Longrightarrow> f (rb_contents b) = Inr (dst', n) \<Longrightarrow>
   length dst' = length (rb_contents b) \<Longrightarrow>
   \<exists>b'. into_buffer f b = Inr (b', n) \<and> rb_wf b' \<and> rb_contents b' = dst' \<and>
     rb_byte_length b' = rb_byte_length b"
  by (elim rb_wf_cases) (auto simp: into_buffer_def rb_wf_def rb_contents_def)

lemma into_buffer_Decode:
  assumes "rb_wf b" "length s < rb_byte_length b"
  shows "\<exists>b'. into_buffer (Decode s) b = Inr (b', length (decoded s)) \<and>
    rb_read b' (length (decoded s)) = Inr (decoded s)"
proof -
  obtain dst' where d: "Decode s (rb_contents b) = Inr (dst', length (decoded s))"
      "length dst' = length (rb_contents b)" "take (length (decoded s)) dst' = decoded s"
    using Decode_loop_ok [of 0 s "rb_contents b"] assms by (auto simp: Decode_def rb_wf_length)
  obtain b' where "into_buffer (Decode s) b = Inr (b', length (decoded s))" "rb_wf b'"
      "rb_contents b' = dst'" "rb_byte_length b' = rb_byte_length b"
    using into_buffer_ok [of b "Decode s", OF assms(1) _ d(1,2)] assms(2) by auto
  with d assms decoded_length [of s] show ?thesis
    by (auto simp: rb_read_nonempty)
qed

lemma Append_ok:
  assumes "\<forall>n. alloc_ok A n"
  shows "Append A params key val = Inr (params @ [(decoded key, decoded val)])"
proof -
  have *: "\<exists>b. rb_new A (length s + 1) = Inr b \<and> (\<exists>b' n.
      (if length s \<noteq> 0 then into_buffer (Decode s) b else Inr (b, 0)) = Inr (b', n) \<and>
      rb_read b' n = Inr (decoded s))" for s
  proof -
    obtain b where b: "rb_new A (length s + 1) = Inr b" "rb_wf b" "rb_byte_length b = length s + 1"
      using rb_Realloc_ok [of rb_empty A "length s + 1"] assms by (auto simp: rb_new_def)
    with into_buffer_Decode [of b s] show ?thesis
      by (cases "s = []") (auto simp: rb_read_nonempty)
  qed
  from * [of key] * [of val] show ?thesis
    by (elim exE conjE) (simp only: Append_def obind_Inr split)
qed

text \<open>How the pointers and lengths of the automaton describe the piece read so far.\<close>

definition cursor_ok :: "bytes \<Rightarrow> bytes \<Rightarrow> search_parser \<Rightarrow> bool" where
  "cursor_ok pre cur st =
     (38 \<notin> set cur \<and>
      (let k = takeWhile (\<lambda>c. c \<noteq> 61) cur; r = dropWhile (\<lambda>c. c \<noteq> 61) cur
       in sp_key_len st = length k \<and> sp_value_len st = length r - 1 \<and>
          (k \<noteq> [] \<longrightarrow> sp_key st = Some (length pre)) \<and>
          (1 < length r \<longrightarrow> sp_value st = Some (length pre + length k + 1)) \<and>
          sp_state st = (if cur = [] then St_AND else if r = [] then St_KEY
                         else if length r = 1 then St_EQUAL else St_VALUE)))"

lemma cut_cases:
  obtains "61 \<notin> set cur" | k v where "cur = k @ 61 # v" "61 \<notin> set k"
  by (cases "61 \<in> set cur") (auto dest: split_list_first)

lemma cut_plain:
  "61 \<notin> set cur \<Longrightarrow> takeWhile (\<lambda>c. c \<noteq> 61) cur = cur"
  "61 \<notin> set cur \<Longrightarrow> dropWhile (\<lambda>c. c \<noteq> 61) cur = []"
  by (auto simp: takeWhile_eq_all_conv)

lemma cut_at:
  "61 \<notin> set k \<Longrightarrow> takeWhile (\<lambda>c. c \<noteq> 61) (k @ 61 # v) = k"
  "61 \<notin> set k \<Longrightarrow> dropWhile (\<lambda>c. c \<noteq> 61) (k @ 61 # v) = 61 # v"
  by (induction k) auto

lemma std_string_mid:
  "(x \<noteq> [] \<longrightarrow> p = Some (length a)) \<Longrightarrow> std_string (a @ x @ b) p (length x) = Inr x"
  by (auto simp: std_string_def)

lemma Append_current_ok:
  assumes "\<forall>n. alloc_ok A n" "cursor_ok pre cur st"
  shows "Append_current A (pre @ cur @ cs) st = Inr (sp_params st @ [entry_of cur])"
proof (cases rule: cut_cases [of cur])
  case 1
  then have "sp_key_len st = length cur" "cur \<noteq> [] \<longrightarrow> sp_key st = Some (length pre)" "sp_value_len st = 0"
    using assms(2) by (auto simp: cursor_ok_def Let_def cut_plain)
  moreover from this have "std_string (pre @ cur @ cs) (sp_key st) (sp_key_len st) = Inr cur"
    by (simp add: std_string_mid)
  ultimately show ?thesis
    using 1 by (simp add: Append_current_def std_string_def [of _ _ 0] Append_ok [OF assms(1)] entry_of_def cut_plain)
next
  case (2 k v)
  then have st: "sp_key_len st = length k" "k \<noteq> [] \<longrightarrow> sp_key st = Some (length pre)" "sp_value_len st = length v"
      "v \<noteq> [] \<longrightarrow> sp_value st = Some (length (pre @ k @ [61]))"
    using assms(2) by (auto simp: cursor_ok_def Let_def cut_at)
  have "std_string (pre @ cur @ cs) (sp_key st) (sp_key_len st) = Inr k"
    using std_string_mid [of k "sp_key st" pre "61 # v @ cs"] st 2 by simp
  moreover have "std_string (pre @ cur @ cs) (sp_value st) (sp_value_len st) = Inr v"
    using std_string_mid [of v "sp_value st" "pre @ k @ [61]" cs] st 2 by simp
  ultimately show ?thesis
    using 2 by (simp add: Append_current_def Append_ok [OF assms(1)] entry_of_def cut_at)
qed

lemma parse_char_cursor:
  assumes "cursor_ok pre cur st" "c \<noteq> 38"
  shows "\<exists>st'. parse_char A s (length pre + length cur) c st = Inr st' \<and> cursor_ok pre (cur @ [c]) st' \<and>
    sp_params st' = sp_params st"
proof (cases rule: cut_cases [of cur])
  case 1
  then show ?thesis
    using assms by (cases "c = 61"; cases "cur = []")
      (auto simp: cursor_ok_def Let_def cut_plain cut_at parse_char_def)
next
  case (2 k v)
  have "cur @ [c] = k @ 61 # (v @ [c])" using 2 by simp
  then show ?thesis
    using assms 2 by (cases "c = 61"; cases "v = []")
      (auto simp: cursor_ok_def Let_def cut_at parse_char_def)
qed

lemma parse_loop_ok:
  assumes "\<forall>n. alloc_ok A n"
  shows "cursor_ok pre cur st \<Longrightarrow>
    parse_loop A (pre @ cur @ cs) (length pre + length cur) cs st = Inr (sp_params st @ spec_parse (cur @ cs))"
proof (induction cs arbitrary: pre cur st)
  case Nil
  from Nil have cur: "38 \<notin> set cur" "cur = [] \<longleftrightarrow> sp_state st = St_AND"
    by (auto simp: cursor_ok_def Let_def)
  have "cur = [] \<longleftrightarrow> \<not> (sp_key_len st \<noteq> 0 \<or> sp_value_len st \<noteq> 0 \<or> sp_state st = St_EQUAL)"
    using Nil by (cases rule: cut_cases [of cur]) (auto simp: cursor_ok_def Let_def cut_plain cut_at)
  then show ?case
    using Append_current_ok [OF assms Nil, of "[]"] cur
    by (simp add: parse_tail_def spec_parse_last)
next
  case (Cons c cs)
  show ?case
  proof (cases "c = 38")
    case False
    then obtain st' where st': "parse_char A (pre @ cur @ c # cs) (length pre + length cur) c st = Inr st'"
        "cursor_ok pre (cur @ [c]) st'" "sp_params st' = sp_params st"
      using parse_char_cursor [OF Cons.prems] by blast
    with Cons.IH [OF st'(2)] show ?thesis by simp
  next
    case True
    have amp: "spec_parse (38 # cs) = spec_parse cs"
      using spec_parse_cut [of "[]" cs] by simp
    have cur: "38 \<notin> set cur" "cur = [] \<longleftrightarrow> sp_state st = St_AND"
      using Cons.prems by (auto simp: cursor_ok_def Let_def)
    have "cursor_ok (pre @ cur @ [c]) [] (st\<lparr>sp_params := sp_params st @ p\<rparr>)"
      if "cur = []" for p using Cons.prems that by (simp add: cursor_ok_def)
    then show ?thesis
      using Cons.IH [of "pre @ cur @ [c]" "[]"] Append_current_ok [OF assms Cons.prems, of "c # cs"] True cur
      by (cases "sp_state st") (auto simp: parse_char_def spec_parse_cut amp cursor_ok_def)
  qed
qed

lemma UrlSearchParams_ok:
  assumes "\<forall>n. alloc_ok A n"
  shows "UrlSearchParams A search = Inr (spec_parse (spec_query search))"
proof -
  have "spec_query search =
      drop (if 1 \<le> length search \<and> search ! 0 = of_char CHR ''?'' then 1 else 0) search"
    by (cases search) (auto simp: spec_query_def)
  then show ?thesis
    using parse_loop_ok [OF assms, of "[]" "[]"] by (simp add: UrlSearchParams_def Let_def cursor_ok_def)
qed

lemma encode_part_ok:
  assumes "\<forall>n. alloc_ok A n" "rb_wf buff"
  shows "\<exists>buff'. encode_part A str (ret, buff) = Inr (ret @ encoded True str, buff') \<and> rb_wf buff'"
proof (cases "str = []")
  case True
  with assms show ?thesis by (simp add: encode_part_def)
next
  case False
  let ?n = "length (encoded True str)"
  obtain b where b: "(if length str * 3 + 1 > rb_byte_length buff then rb_Realloc A (length str * 3 + 1) buff
        else Inr buff) = Inr b" "rb_wf b" "length str * 3 < rb_byte_length b"
    using rb_Realloc_ok [OF assms(2), of A "length str * 3 + 1"] assms(1,2)
    by (cases "length str * 3 + 1 > rb_byte_length buff") auto
  obtain dst' where d: "Encode str (rb_contents b) True = Inr (dst', ?n)"
      "length dst' = length (rb_contents b)" "take ?n dst' = encoded True str"
    using Encode_loop_ok [of 0 str "rb_contents b" True] b by (auto simp: Encode_def rb_wf_length)
  obtain b' where b': "into_buffer (\<lambda>dst. Encode str dst True) b = Inr (b', ?n)" "rb_wf b'"
      "rb_contents b' = dst'" "rb_byte_length b' = rb_byte_length b"
    using into_buffer_ok [of b "\<lambda>dst. Encode str dst True", OF b(2) _ d(1,2)] b(3) by auto
  have "rb_read b' ?n = Inr (encoded True str)"
    using b b' d encoded_length [of True str] by (simp add: rb_read_nonempty)
  then have "encode_part A str (ret, buff) = Inr (ret @ encoded True str, b')"
    using False by (simp only: encode_part_def Let_def split length_0_conv not_False_eq_True if_True
        b(1) b'(1) obind_Inr)
  with b' show ?thesis by blast
qed

lemma ToString_loop_ok:
  assumes "\<forall>n. alloc_ok A n"
  shows "rb_wf buff \<Longrightarrow> ToString_loop A i ps (ret, buff) =
    Inr (ret @ (if i \<noteq> 0 \<and> ps \<noteq> [] then [38] else []) @ spec_print ps)"
proof (induction ps arbitrary: i ret buff)
  case Nil
  then show ?case by simp
next
  case (Cons p ps)
  obtain k v where p: "p = (k, v)" by (cases p)
  let ?r = "if i \<noteq> 0 then ret @ [of_char CHR ''&''] else ret"
  obtain b1 where b1: "encode_part A k (?r, buff) = Inr (?r @ encoded True k, b1)" "rb_wf b1"
    using encode_part_ok [OF assms Cons.prems] by blast
  obtain b2 where b2: "encode_part A v ((?r @ encoded True k) @ [of_char CHR ''=''], b1) =
      Inr (((?r @ encoded True k) @ [of_char CHR ''='']) @ encoded True v, b2)" "rb_wf b2"
    using encode_part_ok [OF assms b1(2)] by blast
  have "ToString_loop A i (p # ps) (ret, buff) =
      ToString_loop A (i + 1) ps (((?r @ encoded True k) @ [of_char CHR ''='']) @ encoded True v, b2)"
    unfolding p by (simp only: ToString_loop.simps b1(1) b2(1) obind_Inr split)
  then show ?case
    unfolding Cons.IH [OF b2(2)] by (cases ps) (auto simp: p)
qed

lemma ToString_ok:
  assumes "\<forall>n. alloc_ok A n"
  shows "ToString A ps = Inr (spec_print ps)"
proof -
  have "rb_new A 0 = Inr rb_empty" by (simp add: rb_new_def rb_Realloc_def rb_empty_def)
  then show ?thesis by (simp add: ToString_def ToString_loop_ok [OF assms])
qed

lemma hex_upper_plain: "unat d < 16 \<Longrightarrow> hex_upper d \<notin> {38, 61, 63}"
proof -
  have "\<forall>n\<in>set [0..<16]. hex_upper (word_of_nat n) \<notin> {38, 61, 63}" by code_simp
  from this [THEN bspec, of "unat d"] show "unat d < 16 \<Longrightarrow> hex_upper d \<notin> {38, 61, 63}" by simp
qed

lemma encoded_plain: "{38, 61, 63} \<inter> set (encoded True s) = {}"
proof (induction s)
  case (Cons b s)
  have "{38, 61, 63} \<inter> set (enc_octet True b) = {}"
    using hex_upper_plain [OF unat_drop_4, of b] hex_upper_plain [OF unat_take_4, of b]
    by (auto simp: enc_octet_def dest: unescaped)
  with Cons show ?case by auto
qed simp

lemma entry_of_encoded: "entry_of (encoded True k @ 61 # encoded True v) = (k, v)"
  using encoded_plain [of k] by (simp add: entry_of_def cut_at decoded_encoded)

lemma spec_parse_print: "spec_parse (spec_print ps) = ps"
proof (induction ps rule: spec_print.induct)
  case (2 k v)
  have "38 \<notin> set (encoded True k @ 61 # encoded True v)" using encoded_plain [of k] encoded_plain [of v] by auto
  then show ?case by (simp add: spec_parse_last entry_of_encoded)
next
  case (3 k v p ps)
  have "38 \<notin> set (encoded True k @ 61 # encoded True v)" using encoded_plain [of k] encoded_plain [of v] by auto
  from spec_parse_cut [OF this] 3 show ?case by (simp add: entry_of_encoded)
qed (simp add: spec_parse_def)

lemma spec_query_print: "spec_query (spec_print ps) = spec_print ps"
proof (cases ps)
  case (Cons p qs)
  obtain k v where "p = (k, v)" by (cases p)
  then have "\<exists>r. spec_print ps = encoded True k @ 61 # r" using Cons by (cases qs) auto
  then show ?thesis using encoded_plain [of k]
    by (cases "encoded True k") (auto simp: spec_query_def)
qed (simp add: spec_query_def)





end
