(* ===== verification/IpcMessage.thy ===== *)
theory IpcMessage
  imports Prelude
begin

text \<open>
  The vocabulary of the agent protocol: the enumerations and the 25-byte frame header of
  src/src/proto/rpc.proto and the request types of src/src/ipc/ipc_message.h. Serialisation is
  protobuf's: the definitions that use it take a \<open>codec\<close>, and the locale
  \<open>protobuf_codec\<close> names what they rely on. The fixed32 wire format of the header,
  with the field numbers of rpc.proto, is given as an instance.
\<close>

section \<open>Enumerations\<close>

text \<open>
  An enumerator is its number: the code casts header fields to the enumerations without
  a check, so a value of the enumeration type may be any 32-bit number.
\<close>

datatype CanonicalCode = OK | INTERNAL_ERROR | TIMEOUT | NOT_IMPLEMENTED | CONNECTION_RESET
  | CLIENT_ERROR | CANCELLED

primrec code_value :: "CanonicalCode \<Rightarrow> u32" where
  "code_value OK = 0"
| "code_value INTERNAL_ERROR = 1"
| "code_value TIMEOUT = 2"
| "code_value NOT_IMPLEMENTED = 3"
| "code_value CONNECTION_RESET = 4"
| "code_value CLIENT_ERROR = 5"
| "code_value CANCELLED = 6"

datatype MessageKind = Request | Response

primrec message_kind_value :: "MessageKind \<Rightarrow> u32" where
  "message_kind_value Request = 1"
| "message_kind_value Response = 2"

datatype RequestKind = Nil_kind | Trigger | StreamPush | StreamOpen | CollectMetrics | Credentials
  | Fetch | DaprInvoke | DaprBinding | FetchAbort | ExtensionBinding | ResourceNotification
  | ResourcePut | InspectorStart | InspectorStartSession | InspectorEndSession
  | InspectorGetTargets | InspectorCommand | InspectorEvent | InspectorStarted | TracingStart
  | TracingStop

primrec request_kind_value :: "RequestKind \<Rightarrow> u32" where
  "request_kind_value Nil_kind = 0"
| "request_kind_value Trigger = 1"
| "request_kind_value StreamPush = 2"
| "request_kind_value StreamOpen = 3"
| "request_kind_value CollectMetrics = 4"
| "request_kind_value Credentials = 10"
| "request_kind_value Fetch = 11"
| "request_kind_value DaprInvoke = 12"
| "request_kind_value DaprBinding = 13"
| "request_kind_value FetchAbort = 14"
| "request_kind_value ExtensionBinding = 15"
| "request_kind_value ResourceNotification = 21"
| "request_kind_value ResourcePut = 22"
| "request_kind_value InspectorStart = 100"
| "request_kind_value InspectorStartSession = 101"
| "request_kind_value InspectorEndSession = 102"
| "request_kind_value InspectorGetTargets = 103"
| "request_kind_value InspectorCommand = 104"
| "request_kind_value InspectorEvent = 105"
| "request_kind_value InspectorStarted = 106"
| "request_kind_value TracingStart = 110"
| "request_kind_value TracingStop = 111"

definition NOSLATED_REQUEST_TYPES :: "RequestKind list" where
  "NOSLATED_REQUEST_TYPES =
     [Credentials, StreamOpen, StreamPush, CollectMetrics, Fetch, FetchAbort, DaprInvoke,
      DaprBinding, ExtensionBinding, ResourceNotification, ResourcePut, Trigger, InspectorStart,
      InspectorStartSession, InspectorEndSession, InspectorGetTargets, InspectorCommand,
      InspectorEvent, InspectorStarted, TracingStart, TracingStop]"

text \<open>The \<open>switch\<close> over the generated cases: which one a kind selects, if any.\<close>

definition switch_request_type :: "u32 \<Rightarrow> RequestKind option" where
  "switch_request_type k = find (\<lambda>t. request_kind_value t = k) NOSLATED_REQUEST_TYPES"

lemma switch_request_type_value:
  "t \<noteq> Nil_kind \<Longrightarrow> switch_request_type (request_kind_value t) = Some t"
  by (cases t) (simp_all add: NOSLATED_REQUEST_TYPES_def switch_request_type_def)

lemma switch_request_type_Some:
  "switch_request_type k = Some t \<Longrightarrow> k = request_kind_value t"
  by (auto simp: switch_request_type_def find_Some_iff)

section \<open>Frame header and codec\<close>

type_synonym SessionId = u32
type_synonym RequestId = u32

record MessageHeader =
  message_kind :: u32
  request_id :: u32
  request_kind :: u32
  content_length :: u32
  code :: u32

definition MessageHeaderSize :: nat where
  "MessageHeaderSize = 25"

text \<open>The message types generated for a request type, and the error response.\<close>

datatype message_type = RequestMessage RequestKind | ResponseMessage RequestKind | ErrorResponseMessage

record 'm codec =
  parse_header :: "bytes \<Rightarrow> MessageHeader option"
  serialize_header :: "MessageHeader \<Rightarrow> bytes"
  parse_body :: "message_type \<Rightarrow> bytes \<Rightarrow> 'm option"
  serialize_body :: "'m \<Rightarrow> bytes"

text \<open>
  What the code relies on of protobuf: a header with its five required fixed32 fields set
  takes 25 bytes and parses back, and so does a message of the type it was serialised as.
\<close>

locale protobuf_codec =
  fixes pb :: "'m codec"
    and has_type :: "'m \<Rightarrow> message_type \<Rightarrow> bool"
  assumes header_size: "length (serialize_header pb h) = MessageHeaderSize"
    and header_roundtrip: "parse_header pb (serialize_header pb h) = Some h"
    and body_roundtrip: "has_type m t \<Longrightarrow> parse_body pb t (serialize_body pb m) = Some m"

section \<open>The fixed32 wire format of the header\<close>

definition u32_bytes :: "u32 \<Rightarrow> bytes" where
  "u32_bytes w = [ucast w, ucast (drop_bit 8 w), ucast (drop_bit 16 w), ucast (drop_bit 24 w)]"

definition bytes_u32 :: "byte \<Rightarrow> byte \<Rightarrow> byte \<Rightarrow> byte \<Rightarrow> u32" where
  "bytes_u32 a b c d =
     ucast a OR push_bit 8 (ucast b) OR push_bit 16 (ucast c) OR push_bit 24 (ucast d)"

lemma bytes_u32_bytes:
  "bytes_u32 (ucast w) (ucast (drop_bit 8 w)) (ucast (drop_bit 16 w)) (ucast (drop_bit 24 w)) = w"
proof (rule bit_eqI)
  fix n :: nat
  consider "n < 8" | "8 \<le> n" "n < 16" | "16 \<le> n" "n < 24" | "24 \<le> n" by linarith
  then show "bit (bytes_u32 (ucast w) (ucast (drop_bit 8 w)) (ucast (drop_bit 16 w)) (ucast (drop_bit 24 w))) n
      = bit w n" if "possible_bit TYPE(u32) n"
    using that by cases (auto simp: bytes_u32_def bit_simps possible_bit_def)
qed

text \<open>A fixed32 field is its tag, \<open>field number * 8 + 5\<close>, and four bytes, least significant first.\<close>

definition fixed32_serialize :: "MessageHeader \<Rightarrow> bytes" where
  "fixed32_serialize h =
     0x0D # u32_bytes (message_kind h) @ 0x15 # u32_bytes (request_id h) @
     0x1D # u32_bytes (request_kind h) @ 0x2D # u32_bytes (content_length h) @
     0x35 # u32_bytes (code h)"

fun fixed32_fields :: "bytes \<Rightarrow> (byte \<times> u32) list option" where
  "fixed32_fields [] = Some []"
| "fixed32_fields (t # a # b # c # d # rest) =
     (case fixed32_fields rest of None \<Rightarrow> None | Some fs \<Rightarrow> Some ((t, bytes_u32 a b c d) # fs))"
| "fixed32_fields _ = None"

definition fixed32_parse :: "bytes \<Rightarrow> MessageHeader option" where
  "fixed32_parse bs =
     (case fixed32_fields bs of
        None \<Rightarrow> None
      | Some fs \<Rightarrow>
         (case (map_of fs 0x0D, map_of fs 0x15, map_of fs 0x1D, map_of fs 0x2D, map_of fs 0x35) of
            (Some mk, Some rid, Some rk, Some cl, Some cd) \<Rightarrow>
              Some \<lparr>message_kind = mk, request_id = rid, request_kind = rk, content_length = cl, code = cd\<rparr>
          | _ \<Rightarrow> None))"

text \<open>The instance: fixed32 headers, and messages carried as their type and wire bytes.\<close>

definition wire_codec :: "(message_type \<times> bytes) codec" where
  "wire_codec = \<lparr>parse_header = fixed32_parse, serialize_header = fixed32_serialize,
     parse_body = (\<lambda>t bs. Some (t, bs)), serialize_body = snd\<rparr>"

definition wire_has_type :: "message_type \<times> bytes \<Rightarrow> message_type \<Rightarrow> bool" where
  "wire_has_type m t = (fst m = t)"

lemma fixed32_roundtrip: "fixed32_parse (fixed32_serialize h) = Some h"
  by (simp add: fixed32_parse_def fixed32_serialize_def u32_bytes_def bytes_u32_bytes)

lemma fixed32_size: "length (fixed32_serialize h) = MessageHeaderSize"
  by (simp add: fixed32_serialize_def u32_bytes_def MessageHeaderSize_def)

interpretation wire: protobuf_codec wire_codec wire_has_type
  by unfold_locales
    (simp_all add: wire_codec_def wire_has_type_def fixed32_roundtrip fixed32_size prod_eq_iff)

end
