(* ===== verification/EventLoop.thy ===== *)
theory EventLoop
  imports Prelude
begin

text \<open>
  The event loop of src/src/ipc/uv_helper.h and its libuv implementation in
  src/src/ipc/uv_loop.cc: immediates and timers, their release, and the callbacks libuv
  makes. libuv itself is represented by what its documentation says of a handle: it is
  started, may fire while it is active and not closing, and its close callback runs once
  after \<open>uv_close\<close>. The status codes it returns are the argument \<open>uv_status\<close>.
\<close>

datatype handle_kind = UvIdle | UvTimer u64

record 'cb uv_handle =
  uh_kind :: handle_kind
  uh_callback :: 'cb
  uh_active :: bool
  uh_closing :: bool

record 'cb uv_loop =
  ul_next :: nat
  ul_handles :: "nat \<rightharpoonup> 'cb uv_handle"

record uv_status =
  rc_idle_init :: int
  rc_idle_start :: int
  rc_idle_stop :: int
  rc_timer_init :: int
  rc_timer_start :: int

definition new_handle :: "handle_kind \<Rightarrow> 'cb \<Rightarrow> 'cb uv_loop \<Rightarrow> nat \<times> 'cb uv_loop" where
  "new_handle k cb l =
     (ul_next l,
      l\<lparr>ul_next := ul_next l + 1,
        ul_handles := (ul_handles l)(ul_next l \<mapsto>
          \<lparr>uh_kind = k, uh_callback = cb, uh_active = True, uh_closing = False\<rparr>)\<rparr>)"

definition SetImmediate :: "uv_status \<Rightarrow> 'cb \<Rightarrow> 'cb uv_loop \<Rightarrow> (nat \<times> 'cb uv_loop) outcome" where
  "SetImmediate rc cb l =
     obind (CHECK (rc_idle_init rc = 0)) (\<lambda>_.
     obind (CHECK (rc_idle_start rc = 0)) (\<lambda>_.
     Inr (new_handle UvIdle cb l)))"

definition SetTimeout :: "uv_status \<Rightarrow> 'cb \<Rightarrow> u64 \<Rightarrow> 'cb uv_loop \<Rightarrow> (nat \<times> 'cb uv_loop) outcome" where
  "SetTimeout rc cb timeout l =
     obind (CHECK (rc_timer_init rc = 0)) (\<lambda>_.
     obind (CHECK (rc_timer_start rc = 0)) (\<lambda>_.
     Inr (new_handle (UvTimer timeout) cb l)))"

text \<open>\<open>uv_close\<close> of a released handle reads freed memory; a second one is forbidden.\<close>

definition uv_close :: "nat \<Rightarrow> 'cb uv_loop \<Rightarrow> 'cb uv_loop outcome" where
  "uv_close i l =
     (case ul_handles l i of
        None \<Rightarrow> Inl Null_deref
      | Some h \<Rightarrow>
          if uh_closing h then Inl Check_failed
          else Inr (l\<lparr>ul_handles := (ul_handles l)(i \<mapsto> h\<lparr>uh_active := False, uh_closing := True\<rparr>)\<rparr>))"

definition ClearImmediate :: "nat \<Rightarrow> 'cb uv_loop \<Rightarrow> 'cb uv_loop outcome" where
  "ClearImmediate i l = uv_close i l"

definition ClearTimeout :: "nat \<Rightarrow> 'cb uv_loop \<Rightarrow> 'cb uv_loop outcome" where
  "ClearTimeout i l = uv_close i l"

text \<open>
  The callbacks: \<open>IdleCb\<close> stops the handle and hands out the immediate's callback,
  \<open>TimerCb\<close> that of a timer (which libuv has stopped, its repeat being 0), \<open>CloseCb\<close>
  deletes the object. They are the loop's moves, possible only in the states shown.
\<close>

definition IdleCb :: "uv_status \<Rightarrow> nat \<Rightarrow> 'cb uv_loop \<Rightarrow> ('cb \<times> 'cb uv_loop) outcome" where
  "IdleCb rc i l =
     (case ul_handles l i of
        None \<Rightarrow> Inl Null_deref
      | Some h \<Rightarrow>
          obind (CHECK (rc_idle_stop rc = 0)) (\<lambda>_.
          Inr (uh_callback h, l\<lparr>ul_handles := (ul_handles l)(i \<mapsto> h\<lparr>uh_active := False\<rparr>)\<rparr>)))"

definition TimerCb :: "nat \<Rightarrow> 'cb uv_loop \<Rightarrow> ('cb \<times> 'cb uv_loop) outcome" where
  "TimerCb i l =
     (case ul_handles l i of
        None \<Rightarrow> Inl Null_deref
      | Some h \<Rightarrow> Inr (uh_callback h, l\<lparr>ul_handles := (ul_handles l)(i \<mapsto> h\<lparr>uh_active := False\<rparr>)\<rparr>))"

definition CloseCb :: "nat \<Rightarrow> 'cb uv_loop \<Rightarrow> 'cb uv_loop" where
  "CloseCb i l = l\<lparr>ul_handles := (ul_handles l)(i := None)\<rparr>"

definition may_fire :: "'cb uv_loop \<Rightarrow> nat \<Rightarrow> bool" where
  "may_fire l i = (case ul_handles l i of None \<Rightarrow> False | Some h \<Rightarrow> uh_active h \<and> \<not> uh_closing h)"

definition may_release :: "'cb uv_loop \<Rightarrow> nat \<Rightarrow> bool" where
  "may_release l i = (case ul_handles l i of None \<Rightarrow> False | Some h \<Rightarrow> uh_closing h)"

definition uv_loop_init :: "'cb uv_loop" where
  "uv_loop_init = \<lparr>ul_next = 0, ul_handles = Map.empty\<rparr>"

definition uv_ok :: uv_status where
  "uv_ok = \<lparr>rc_idle_init = 0, rc_idle_start = 0, rc_idle_stop = 0, rc_timer_init = 0, rc_timer_start = 0\<rparr>"

section \<open>The interface the IPC classes use\<close>

text \<open>The handles a client holds and has not yet cleared, with their callbacks.\<close>

definition open_handles :: "'cb uv_loop \<Rightarrow> nat \<rightharpoonup> 'cb" where
  "open_handles l i =
     (case ul_handles l i of None \<Rightarrow> None | Some h \<Rightarrow> if uh_closing h then None else Some (uh_callback h))"

definition uv_loop_wf :: "'cb uv_loop \<Rightarrow> bool" where
  "uv_loop_wf l = (\<forall>i h. ul_handles l i = Some h \<longrightarrow> i < ul_next l)"

locale event_loop =
  fixes wf :: "'l \<Rightarrow> bool"
    and openh :: "'l \<Rightarrow> nat \<rightharpoonup> 'cb"
    and set_handle :: "'cb \<Rightarrow> 'l \<Rightarrow> (nat \<times> 'l) outcome"
    and clear_handle :: "nat \<Rightarrow> 'l \<Rightarrow> 'l outcome"
  assumes set_wf: "wf l \<Longrightarrow> set_handle cb l = Inr (i, l') \<Longrightarrow> wf l'"
    and set_fresh: "wf l \<Longrightarrow> set_handle cb l = Inr (i, l') \<Longrightarrow> openh l i = None"
    and set_open: "wf l \<Longrightarrow> set_handle cb l = Inr (i, l') \<Longrightarrow> openh l' = (openh l)(i \<mapsto> cb)"
    and clear_open: "openh l i \<noteq> None \<Longrightarrow> \<exists>l'. clear_handle i l = Inr l'"
    and clear_wf: "wf l \<Longrightarrow> clear_handle i l = Inr l' \<Longrightarrow> wf l'"
    and clear_closed: "clear_handle i l = Inr l' \<Longrightarrow> openh l' = (openh l)(i := None)"
    and clear_twice: "openh l i = None \<Longrightarrow> \<exists>e. clear_handle i l = Inl e"
begin

lemma set_then_clear:
  assumes "wf l" "set_handle cb l = Inr (i, l')"
  shows "\<exists>l''. clear_handle i l' = Inr l'' \<and> wf l'' \<and> openh l'' = openh l"
proof -
  from set_open [OF assms] obtain l'' where l'': "clear_handle i l' = Inr l''"
    using clear_open [of l' i] by auto
  have "openh l'' = (openh l)(i := None)"
    using clear_closed [OF l''] set_open [OF assms] by simp
  also have "\<dots> = openh l" using set_fresh [OF assms] by auto
  finally show ?thesis using l'' clear_wf [OF set_wf [OF assms] l''] by blast
qed

lemma clear_other:
  "clear_handle i l = Inr l' \<Longrightarrow> j \<noteq> i \<Longrightarrow> openh l' j = openh l j"
  using clear_closed by fastforce

lemma set_other:
  "wf l \<Longrightarrow> set_handle cb l = Inr (i, l') \<Longrightarrow> openh l j = Some c \<Longrightarrow> openh l' j = Some c \<and> j \<noteq> i"
  using set_open set_fresh by fastforce

end

lemma open_handles_upd:
  "open_handles (l\<lparr>ul_handles := (ul_handles l)(i := x)\<rparr>) =
     (open_handles l)(i := (case x of None \<Rightarrow> None | Some h \<Rightarrow> if uh_closing h then None else Some (uh_callback h)))"
  by (rule ext) (simp add: open_handles_def)

lemma new_handle_laws:
  assumes "uv_loop_wf l" "new_handle k cb l = (i, l')"
  shows "uv_loop_wf l'" "open_handles l i = None" "open_handles l' = (open_handles l)(i \<mapsto> cb)"
proof -
  have "ul_handles l (ul_next l) = None"
    using assms(1) by (cases "ul_handles l (ul_next l)") (auto simp: uv_loop_wf_def)
  then show "open_handles l i = None"
    using assms(2) by (auto simp: new_handle_def open_handles_def)
  show "uv_loop_wf l'"
    using assms by (auto simp: new_handle_def uv_loop_wf_def less_Suc_eq split: if_splits)
  show "open_handles l' = (open_handles l)(i \<mapsto> cb)"
    using assms(2) by (auto simp: new_handle_def open_handles_def fun_eq_iff)
qed

lemma uv_close_laws:
  "open_handles l i \<noteq> None \<Longrightarrow> \<exists>l'. uv_close i l = Inr l'"
  "uv_loop_wf l \<Longrightarrow> uv_close i l = Inr l' \<Longrightarrow> uv_loop_wf l'"
  "uv_close i l = Inr l' \<Longrightarrow> open_handles l' = (open_handles l)(i := None)"
  "open_handles l i = None \<Longrightarrow> \<exists>e. uv_close i l = Inl e"
  by (auto simp: uv_close_def open_handles_def uv_loop_wf_def fun_eq_iff split: option.splits if_splits)

lemma SetImmediate_Inr: "SetImmediate rc cb l = Inr (i, l') \<Longrightarrow> new_handle UvIdle cb l = (i, l')"
  by (auto simp: SetImmediate_def obind_eq_Inr)

lemma SetTimeout_Inr: "SetTimeout rc cb t l = Inr (i, l') \<Longrightarrow> new_handle (UvTimer t) cb l = (i, l')"
  by (auto simp: SetTimeout_def obind_eq_Inr)

interpretation immediates: event_loop uv_loop_wf open_handles "SetImmediate rc" ClearImmediate for rc
  unfolding ClearImmediate_def
  by unfold_locales
    ((rule new_handle_laws, assumption, erule SetImmediate_Inr) | (rule uv_close_laws; assumption))+

interpretation timeouts: event_loop uv_loop_wf open_handles "\<lambda>cb. SetTimeout rc cb t" ClearTimeout for rc t
  unfolding ClearTimeout_def
  by unfold_locales
    ((rule new_handle_laws, assumption, erule SetTimeout_Inr) | (rule uv_close_laws; assumption))+

lemma uv_ok_sets [simp]:
  "SetImmediate uv_ok cb l = Inr (new_handle UvIdle cb l)"
  "SetTimeout uv_ok cb t l = Inr (new_handle (UvTimer t) cb l)"
  by (simp_all add: SetImmediate_def SetTimeout_def uv_ok_def)

lemma uv_loop_init_wf [simp]: "uv_loop_wf uv_loop_init" "open_handles uv_loop_init = Map.empty"
  by (auto simp: uv_loop_init_def uv_loop_wf_def open_handles_def)

lemma TimerCb_open:
  assumes "may_fire l t"
  shows "\<exists>cb l1. TimerCb t l = Inr (cb, l1) \<and> open_handles l t = Some cb \<and>
    open_handles l1 = open_handles l \<and> (uv_loop_wf l \<longrightarrow> uv_loop_wf l1)"
proof -
  obtain h where h: "ul_handles l t = Some h" "\<not> uh_closing h"
    using assms by (auto simp: may_fire_def split: option.splits)
  then show ?thesis
    by (auto simp: TimerCb_def open_handles_upd open_handles_def uv_loop_wf_def fun_eq_iff)
qed

lemma CloseCb_open: "may_release l i \<Longrightarrow> open_handles (CloseCb i l) = open_handles l"
  by (auto simp: may_release_def CloseCb_def open_handles_def fun_eq_iff split: option.splits)

lemma CloseCb_wf: "uv_loop_wf l \<Longrightarrow> uv_loop_wf (CloseCb i l)"
  by (auto simp: CloseCb_def uv_loop_wf_def)

end
