(* ===== verification/IpcSocket.thy ===== *)
theory IpcSocket
  imports IpcMessage EventLoop
begin

text \<open>
  The framing layer of the agent protocol, src/src/ipc/ipc_socket.h and
  src/src/ipc/ipc_socket.cc: \<open>NoslatedDecoder\<close>, which cuts the byte stream into messages,
  and \<open>SocketHolder\<close>, which feeds it and dispatches to the delegate. Calls of the delegate
  are the events an operation returns. Builds without \<open>DEBUG\<close> are modelled, where
  \<open>DCHECK\<close> is empty.
\<close>

section \<open>NoslatedDecoder\<close>

datatype DecodingState = DecodingStateError | DecodingStateOk | DecodingStateMore

record 'm NoslatedDecoder =
  d_read_size :: nat
  d_buffer :: bytes
  d_header :: "MessageHeader option"
  d_content :: "'m option"

definition decoder_init :: "'m NoslatedDecoder" where
  "decoder_init = \<lparr>d_read_size = 0, d_buffer = [], d_header = None, d_content = None\<rparr>"

definition InsertBuffer :: "bytes \<Rightarrow> 'm NoslatedDecoder \<Rightarrow> 'm NoslatedDecoder" where
  "InsertBuffer base d = (if length base > 0 then d\<lparr>d_buffer := d_buffer d @ base\<rparr> else d)"

text \<open>One case of the generated switches: parse the bytes behind the header as a message type.\<close>

definition decode_body ::
  "'m codec \<Rightarrow> message_type \<Rightarrow> MessageHeader \<Rightarrow> 'm NoslatedDecoder \<Rightarrow> DecodingState \<times> 'm NoslatedDecoder" where
  "decode_body pb t h d =
     (let n = unat (content_length h)
      in case parse_body pb t (take n (drop MessageHeaderSize (d_buffer d))) of
           None \<Rightarrow> (DecodingStateError, d)
         | Some msg \<Rightarrow> (DecodingStateOk, d\<lparr>d_read_size := d_read_size d + n, d_content := Some msg\<rparr>))"

definition DecodeRequest ::
  "'m codec \<Rightarrow> MessageHeader \<Rightarrow> 'm NoslatedDecoder \<Rightarrow> DecodingState \<times> 'm NoslatedDecoder" where
  "DecodeRequest pb h d =
     (case switch_request_type (request_kind h) of
        None \<Rightarrow> (DecodingStateError, d)
      | Some t \<Rightarrow> decode_body pb (RequestMessage t) h d)"

definition DecodeResponse ::
  "'m codec \<Rightarrow> MessageHeader \<Rightarrow> 'm NoslatedDecoder \<Rightarrow> DecodingState \<times> 'm NoslatedDecoder" where
  "DecodeResponse pb h d =
     (if code h \<noteq> code_value OK then decode_body pb ErrorResponseMessage h d
      else case switch_request_type (request_kind h) of
             None \<Rightarrow> (DecodingStateError, d)
           | Some t \<Rightarrow> decode_body pb (ResponseMessage t) h d)"

definition decode_with_header ::
  "'m codec \<Rightarrow> MessageHeader \<Rightarrow> 'm NoslatedDecoder \<Rightarrow> DecodingState \<times> 'm NoslatedDecoder" where
  "decode_with_header pb h d =
     (if length (d_buffer d) < MessageHeaderSize + unat (content_length h) then (DecodingStateMore, d)
      else if message_kind h = message_kind_value Request then DecodeRequest pb h d
      else if message_kind h = message_kind_value Response then DecodeResponse pb h d
      else (DecodingStateError, d))"

definition NoslatedDecoder_Decode :: "'m codec \<Rightarrow> 'm NoslatedDecoder \<Rightarrow> DecodingState \<times> 'm NoslatedDecoder" where
  "NoslatedDecoder_Decode pb d =
     (if length (d_buffer d) < MessageHeaderSize then (DecodingStateMore, d)
      else case d_header d of
             None \<Rightarrow>
               (case parse_header pb (take MessageHeaderSize (d_buffer d)) of
                  None \<Rightarrow> (DecodingStateError, d)
                | Some h \<Rightarrow>
                    decode_with_header pb h (d\<lparr>d_header := Some h, d_read_size := MessageHeaderSize\<rparr>))
           | Some h \<Rightarrow> decode_with_header pb h d)"

definition TakeHeaderOwnership :: "'m NoslatedDecoder \<Rightarrow> MessageHeader option \<times> 'm NoslatedDecoder" where
  "TakeHeaderOwnership d = (d_header d, d\<lparr>d_header := None\<rparr>)"

definition TakeContentOwnership :: "'m NoslatedDecoder \<Rightarrow> ('m option \<times> 'm NoslatedDecoder) outcome" where
  "TakeContentOwnership d =
     (if d_read_size d \<le> length (d_buffer d)
      then Inr (d_content d,
        \<lparr>d_read_size = 0, d_buffer = drop (d_read_size d) (d_buffer d), d_header = None, d_content = None\<rparr>)
      else Inl Out_of_bounds)"

section \<open>SocketHolder\<close>

datatype 'm delegate_call =
    Call_OnRequest RequestId u32 "'m option"
  | Call_OnResponse RequestId u32 u32 "'m option"
  | Call_OnError
  | Call_OnFinished

datatype loop_callback = Cb_read_immediate | Cb_request_timeout RequestId u32

record 'm SocketHolder =
  sh_decoder :: "'m NoslatedDecoder"
  sh_read_immediate :: "nat option"

definition socket_init :: "'m SocketHolder" where
  "socket_init = \<lparr>sh_decoder = decoder_init, sh_read_immediate = None\<rparr>"

definition Dispatch :: "'m NoslatedDecoder \<Rightarrow> ('m delegate_call list \<times> 'm NoslatedDecoder) outcome" where
  "Dispatch d =
     (case TakeHeaderOwnership d of (hdr, d) \<Rightarrow>
        (case hdr of
           None \<Rightarrow> Inl Null_deref
         | Some h \<Rightarrow>
             if message_kind h = message_kind_value Request then
               obind (TakeContentOwnership d) (\<lambda>(m, d).
               Inr ([Call_OnRequest (request_id h) (request_kind h) m], d))
             else if message_kind h = message_kind_value Response then
               obind (TakeContentOwnership d) (\<lambda>(m, d).
               Inr ([Call_OnResponse (request_id h) (request_kind h) (code h) m], d))
             else Inr ([], d)))"

text \<open>
  The loop of \<open>OnReadable\<close>. It ends: an \<open>Ok\<close> either consumes bytes or clears the header.
\<close>

function OnReadable ::
  "'m codec \<Rightarrow> 'm NoslatedDecoder \<Rightarrow> ('m delegate_call list \<times> 'm NoslatedDecoder) outcome" where
  "OnReadable pb d =
     (case NoslatedDecoder_Decode pb d of (state, d1) \<Rightarrow>
        (case state of
           DecodingStateError \<Rightarrow> Inr ([Call_OnError], d1)
         | DecodingStateMore \<Rightarrow> Inr ([], d1)
         | DecodingStateOk \<Rightarrow>
             obind (Dispatch d1) (\<lambda>(calls, d2).
             obind (OnReadable pb d2) (\<lambda>(calls', d3).
             Inr (calls @ calls', d3)))))"
  by pat_completeness auto

lemma decode_body_Ok:
  "decode_body pb t h d = (DecodingStateOk, d1) \<Longrightarrow>
   d_header d1 = d_header d \<and> d_buffer d1 = d_buffer d \<and>
   d_read_size d1 = d_read_size d + unat (content_length h)"
  by (auto simp: decode_body_def Let_def split: option.splits)

lemma decode_with_header_Ok:
  "decode_with_header pb h d = (DecodingStateOk, d1) \<Longrightarrow>
   d_header d1 = d_header d \<and> d_buffer d1 = d_buffer d \<and>
   d_read_size d1 = d_read_size d + unat (content_length h) \<and>
   MessageHeaderSize + unat (content_length h) \<le> length (d_buffer d) \<and>
   (message_kind h = message_kind_value Request \<or> message_kind h = message_kind_value Response)"
  by (auto simp: decode_with_header_def DecodeRequest_def DecodeResponse_def
      split: if_splits option.splits dest: decode_body_Ok)

lemma Decode_Ok:
  assumes "NoslatedDecoder_Decode pb d = (DecodingStateOk, d1)"
  shows "\<exists>h. d_header d1 = Some h \<and> d_buffer d1 = d_buffer d \<and>
     (d_header d = None \<longrightarrow> d_read_size d1 = MessageHeaderSize + unat (content_length h)) \<and>
     (d_header d \<noteq> None \<longrightarrow> d_header d = Some h \<and> d_read_size d1 = d_read_size d + unat (content_length h)) \<and>
     MessageHeaderSize + unat (content_length h) \<le> length (d_buffer d) \<and>
     (message_kind h = message_kind_value Request \<or> message_kind h = message_kind_value Response)"
  using assms by (auto simp: NoslatedDecoder_Decode_def split: if_splits option.splits dest!: decode_with_header_Ok)

lemma Dispatch_Ok:
  assumes "d_header d = Some h"
    and "message_kind h = message_kind_value Request \<or> message_kind h = message_kind_value Response"
    and "Dispatch d = Inr (calls, d2)"
  shows "d_header d2 = None \<and> d_buffer d2 = drop (d_read_size d) (d_buffer d) \<and>
    d_read_size d \<le> length (d_buffer d) \<and> d_read_size d2 = 0"
  using assms
  by (auto simp: Dispatch_def TakeHeaderOwnership_def TakeContentOwnership_def obind_eq_Inr split: if_splits)

termination OnReadable
proof (relation "measure (\<lambda>(pb, d). 2 * length (d_buffer d) + (if d_header d = None then 0 else 1))")
  fix pb :: "'m codec" and d d1 state calls d2 x
  assume "(state, d1) = NoslatedDecoder_Decode pb d" "state = DecodingStateOk" "Dispatch d1 = Inr x" "(calls, d2) = x"
  then have dec: "NoslatedDecoder_Decode pb d = (DecodingStateOk, d1)" and dis: "Dispatch d1 = Inr (calls, d2)" by auto
  from Decode_Ok [OF dec] obtain h where h: "d_header d1 = Some h" "d_buffer d1 = d_buffer d"
    "d_header d = None \<longrightarrow> MessageHeaderSize \<le> d_read_size d1"
    "message_kind h = message_kind_value Request \<or> message_kind h = message_kind_value Response" by auto
  from Dispatch_Ok [OF h(1,4) dis] h(2,3)
  show "((pb, d2), (pb, d)) \<in> measure (\<lambda>(pb, d). 2 * length (d_buffer d) + (if d_header d = None then 0 else 1))"
    by (cases "d_header d") (auto simp: MessageHeaderSize_def)
qed simp

declare OnReadable.simps [simp del]

definition SetReadable ::
  "uv_status \<Rightarrow> 'm SocketHolder \<times> loop_callback uv_loop \<Rightarrow> ('m SocketHolder \<times> loop_callback uv_loop) outcome" where
  "SetReadable rc = (\<lambda>(sh, l).
     if sh_read_immediate sh \<noteq> None then Inr (sh, l)
     else obind (SetImmediate rc Cb_read_immediate l) (\<lambda>(i, l).
          Inr (sh\<lparr>sh_read_immediate := Some i\<rparr>, l)))"

definition OnFrame ::
  "uv_status \<Rightarrow> bytes \<Rightarrow> 'm SocketHolder \<times> loop_callback uv_loop \<Rightarrow>
   ('m SocketHolder \<times> loop_callback uv_loop) outcome" where
  "OnFrame rc base = (\<lambda>(sh, l).
     SetReadable rc (sh\<lparr>sh_decoder := InsertBuffer base (sh_decoder sh)\<rparr>, l))"

text \<open>The closure \<open>SetReadable\<close> registers, called with the immediate \<open>i\<close>.\<close>

definition read_immediate_callback ::
  "'m codec \<Rightarrow> nat \<Rightarrow> 'm SocketHolder \<times> loop_callback uv_loop \<Rightarrow>
   ('m delegate_call list \<times> 'm SocketHolder \<times> loop_callback uv_loop) outcome" where
  "read_immediate_callback pb i = (\<lambda>(sh, l).
     obind (ClearImmediate i l) (\<lambda>l.
     obind (OnReadable pb (sh_decoder sh)) (\<lambda>(calls, d).
     Inr (calls, sh\<lparr>sh_decoder := d, sh_read_immediate := None\<rparr>, l))))"

definition OnEoF :: "'m codec \<Rightarrow> 'm SocketHolder \<Rightarrow> ('m delegate_call list \<times> 'm SocketHolder) outcome" where
  "OnEoF pb sh =
     (case NoslatedDecoder_Decode pb (sh_decoder sh) of (state, d) \<Rightarrow>
        (case state of
           DecodingStateError \<Rightarrow> Inr ([Call_OnError], sh\<lparr>sh_decoder := d\<rparr>)
         | DecodingStateOk \<Rightarrow>
             obind (Dispatch d) (\<lambda>(calls, d). Inr (calls @ [Call_OnFinished], sh\<lparr>sh_decoder := d\<rparr>))
         | DecodingStateMore \<Rightarrow> Inr ([Call_OnFinished], sh\<lparr>sh_decoder := d\<rparr>)))"

definition DisconnectAndDispose ::
  "'m SocketHolder \<times> loop_callback uv_loop \<Rightarrow> ('m SocketHolder \<times> loop_callback uv_loop) outcome" where
  "DisconnectAndDispose = (\<lambda>(sh, l).
     case sh_read_immediate sh of
       None \<Rightarrow> Inr (sh, l)
     | Some i \<Rightarrow> obind (ClearImmediate i l) (\<lambda>l. Inr (sh\<lparr>sh_read_immediate := None\<rparr>, l)))"

text \<open>The bytes \<open>SocketHolder::Write\<close> hands to the transport.\<close>

definition SocketHolder_Write ::
  "'m codec \<Rightarrow> u32 \<Rightarrow> RequestId \<Rightarrow> u32 \<Rightarrow> 'm \<Rightarrow> u32 \<Rightarrow> bytes" where
  "SocketHolder_Write pb mkind rid rkind msg cde =
     (let body = serialize_body pb msg;
          msg_size = length body;
          hdr = \<lparr>message_kind = mkind, request_id = rid, request_kind = rkind,
                 content_length = of_nat msg_size, code = cde\<rparr>
      in serialize_header pb hdr @ body)"

section \<open>What the transport and the loop do to a socket\<close>

datatype socket_input = Frame bytes | Run_immediate

type_synonym 'm socket_state = "'m SocketHolder \<times> loop_callback uv_loop"

definition socket_step ::
  "'m codec \<Rightarrow> uv_status \<Rightarrow> socket_input \<Rightarrow> 'm socket_state \<Rightarrow> ('m delegate_call list \<times> 'm socket_state) outcome" where
  "socket_step pb rc inp s =
     (case inp of
        Frame bs \<Rightarrow> obind (OnFrame rc bs s) (\<lambda>s. Inr ([], s))
      | Run_immediate \<Rightarrow>
          (case sh_read_immediate (fst s) of
             None \<Rightarrow> Inr ([], s)
           | Some i \<Rightarrow>
               obind (IdleCb rc i (snd s)) (\<lambda>(cb, l). read_immediate_callback pb i (fst s, l))))"

fun socket_run ::
  "'m codec \<Rightarrow> uv_status \<Rightarrow> socket_input list \<Rightarrow> 'm socket_state \<Rightarrow> ('m delegate_call list \<times> 'm socket_state) outcome" where
  "socket_run pb rc [] s = Inr ([], s)"
| "socket_run pb rc (i # is) s =
     obind (socket_step pb rc i s) (\<lambda>(calls, s).
     obind (socket_run pb rc is s) (\<lambda>(calls', s).
     Inr (calls @ calls', s)))"

section \<open>Delivery of a message stream\<close>

text \<open>A message as the peer sends it with \<open>SocketHolder::Write\<close>, its bytes and the call it causes.\<close>

record 'm sent =
  s_mkind :: MessageKind
  s_rid :: RequestId
  s_kind :: RequestKind
  s_msg :: 'm
  s_code :: u32

definition sent_type :: "'m sent \<Rightarrow> message_type" where
  "sent_type s =
     (case s_mkind s of
        Request \<Rightarrow> RequestMessage (s_kind s)
      | Response \<Rightarrow> if s_code s = code_value OK then ResponseMessage (s_kind s) else ErrorResponseMessage)"

definition sent_ok :: "'m codec \<Rightarrow> ('m \<Rightarrow> message_type \<Rightarrow> bool) \<Rightarrow> 'm sent \<Rightarrow> bool" where
  "sent_ok pb has_type s =
     (s_kind s \<noteq> Nil_kind \<and> has_type (s_msg s) (sent_type s) \<and> length (serialize_body pb (s_msg s)) < 2 ^ 32)"

definition sent_bytes :: "'m codec \<Rightarrow> 'm sent \<Rightarrow> bytes" where
  "sent_bytes pb s =
     SocketHolder_Write pb (message_kind_value (s_mkind s)) (s_rid s) (request_kind_value (s_kind s))
       (s_msg s) (s_code s)"

definition sent_call :: "'m sent \<Rightarrow> 'm delegate_call" where
  "sent_call s =
     (case s_mkind s of
        Request \<Rightarrow> Call_OnRequest (s_rid s) (request_kind_value (s_kind s)) (Some (s_msg s))
      | Response \<Rightarrow> Call_OnResponse (s_rid s) (request_kind_value (s_kind s)) (s_code s) (Some (s_msg s)))"

definition sent_header :: "'m codec \<Rightarrow> 'm sent \<Rightarrow> MessageHeader" where
  "sent_header pb s =
     \<lparr>message_kind = message_kind_value (s_mkind s), request_id = s_rid s,
      request_kind = request_kind_value (s_kind s),
      content_length = of_nat (length (serialize_body pb (s_msg s))), code = s_code s\<rparr>"

text \<open>The decoder is between messages or has read the header of the next one.\<close>

definition decoder_at :: "'m codec \<Rightarrow> 'm NoslatedDecoder \<Rightarrow> 'm sent list \<Rightarrow> bool" where
  "decoder_at pb d ms =
     (d_header d = None \<and> d_read_size d = 0 \<or>
      (\<exists>m ms'. ms = m # ms' \<and> d_header d = Some (sent_header pb m) \<and> d_read_size d = MessageHeaderSize \<and>
        MessageHeaderSize \<le> length (d_buffer d)))"

definition drained :: "'m codec \<Rightarrow> 'm NoslatedDecoder \<Rightarrow> 'm sent list \<Rightarrow> bool" where
  "drained pb d ms = (\<forall>m ms'. ms = m # ms' \<longrightarrow> length (d_buffer d) < length (sent_bytes pb m))"

lemma sent_bytes_eq: "sent_bytes pb s = serialize_header pb (sent_header pb s) @ serialize_body pb (s_msg s)"
  by (simp add: sent_bytes_def sent_header_def SocketHolder_Write_def Let_def)

lemma sent_header_sel [simp]:
  "message_kind (sent_header pb s) = message_kind_value (s_mkind s)"
  "request_id (sent_header pb s) = s_rid s"
  "request_kind (sent_header pb s) = request_kind_value (s_kind s)"
  "code (sent_header pb s) = s_code s"
  by (simp_all add: sent_header_def)

lemma sent_content_length:
  "sent_ok pb ty s \<Longrightarrow> unat (content_length (sent_header pb s)) = length (serialize_body pb (s_msg s))"
  by (simp add: sent_ok_def sent_header_def unsigned_of_nat take_bit_nat_eq_self)

fun frame_bytes :: "socket_input \<Rightarrow> bytes" where
  "frame_bytes (Frame bs) = bs"
| "frame_bytes Run_immediate = []"

definition socket_at :: "'m codec \<Rightarrow> 'm socket_state \<Rightarrow> 'm sent list \<Rightarrow> bool" where
  "socket_at pb s ms =
     (decoder_at pb (sh_decoder (fst s)) ms \<and> uv_loop_wf (snd s) \<and>
      (case sh_read_immediate (fst s) of
         None \<Rightarrow> drained pb (sh_decoder (fst s)) ms
       | Some i \<Rightarrow> open_handles (snd s) i = Some Cb_read_immediate))"

context protobuf_codec
begin

lemma sent_bytes_length:
  "length (sent_bytes pb s) = MessageHeaderSize + length (serialize_body pb (s_msg s))"
  by (simp add: sent_bytes_eq header_size)

lemma decode_body_sent:
  assumes "sent_ok pb has_type s" "d_buffer d = sent_bytes pb s @ tail"
  shows "decode_with_header pb (sent_header pb s) d =
    (DecodingStateOk, d\<lparr>d_read_size := d_read_size d + length (serialize_body pb (s_msg s)),
       d_content := Some (s_msg s)\<rparr>)"
proof -
  have b: "take (length (serialize_body pb (s_msg s))) (drop MessageHeaderSize (d_buffer d)) =
      serialize_body pb (s_msg s)"
    using assms by (simp add: sent_bytes_eq header_size)
  have "decode_body pb (sent_type s) (sent_header pb s) d =
    (DecodingStateOk, d\<lparr>d_read_size := d_read_size d + length (serialize_body pb (s_msg s)),
       d_content := Some (s_msg s)\<rparr>)"
    unfolding decode_body_def Let_def sent_content_length [OF assms(1)] b
    using assms(1) body_roundtrip by (simp add: sent_ok_def)
  moreover have "switch_request_type (request_kind_value (s_kind s)) = Some (s_kind s)"
    using assms(1) by (simp add: sent_ok_def switch_request_type_value)
  moreover have "\<not> length (d_buffer d) < MessageHeaderSize + unat (content_length (sent_header pb s))"
    using assms by (simp add: sent_bytes_length sent_content_length)
  ultimately show ?thesis
    by (cases "s_mkind s")
      (auto simp: decode_with_header_def DecodeRequest_def DecodeResponse_def sent_type_def)
qed

lemma Decode_sent_Ok:
  assumes "sent_ok pb has_type s" "decoder_at pb d (s # ms)" "d_buffer d = sent_bytes pb s @ tail"
  shows "NoslatedDecoder_Decode pb d = (DecodingStateOk, d\<lparr>d_header := Some (sent_header pb s),
      d_read_size := length (sent_bytes pb s), d_content := Some (s_msg s)\<rparr>)"
proof (cases "d_header d")
  case None
  then have "parse_header pb (take MessageHeaderSize (d_buffer d)) = Some (sent_header pb s)"
    using assms(3) header_roundtrip by (simp add: sent_bytes_eq header_size)
  then show ?thesis
    using None assms decode_body_sent [OF assms(1), of "d\<lparr>d_header := Some (sent_header pb s), d_read_size := MessageHeaderSize\<rparr>"]
    by (simp add: NoslatedDecoder_Decode_def sent_bytes_length)
next
  case (Some h)
  then have "h = sent_header pb s" "d_read_size d = MessageHeaderSize"
    using assms(2) by (auto simp: decoder_at_def)
  then show ?thesis
    using Some assms decode_body_sent [OF assms(1,3)]
    by (simp add: NoslatedDecoder_Decode_def sent_bytes_length)
qed

lemma Decode_sent_More:
  assumes "sent_ok pb has_type s" "decoder_at pb d (s # ms)" "d_buffer d @ rest = sent_bytes pb s @ tail"
    and "length (d_buffer d) < length (sent_bytes pb s)"
  shows "\<exists>d'. NoslatedDecoder_Decode pb d = (DecodingStateMore, d') \<and> d_buffer d' = d_buffer d \<and> decoder_at pb d' (s # ms)"
proof (cases "length (d_buffer d) < MessageHeaderSize")
  case True
  then show ?thesis using assms(2) by (simp add: NoslatedDecoder_Decode_def)
next
  case False
  have more: "length (d_buffer d) < MessageHeaderSize + unat (content_length (sent_header pb s))"
    using assms(1,4) by (simp add: sent_bytes_length sent_content_length)
  have "take MessageHeaderSize (d_buffer d @ rest) = serialize_header pb (sent_header pb s)"
    unfolding assms(3) by (simp add: sent_bytes_eq header_size)
  then have "take MessageHeaderSize (d_buffer d) = serialize_header pb (sent_header pb s)"
    using False by simp
  then show ?thesis
    using assms(2) False more header_roundtrip
    by (cases "d_header d") (auto simp: NoslatedDecoder_Decode_def decode_with_header_def decoder_at_def)
qed

lemma OnReadable_sent:
  assumes "\<forall>m\<in>set ms. sent_ok pb has_type m" "decoder_at pb d ms"
    and "d_buffer d @ rest = concat (map (sent_bytes pb) ms)"
  shows "\<exists>k d'. OnReadable pb d = Inr (map sent_call (take k ms), d') \<and> k \<le> length ms \<and>
    decoder_at pb d' (drop k ms) \<and> d_buffer d' @ rest = concat (map (sent_bytes pb) (drop k ms)) \<and>
    drained pb d' (drop k ms)"
  using assms
proof (induction ms arbitrary: d)
  case Nil
  then have "OnReadable pb d = Inr ([], d)"
    by (subst OnReadable.simps) (simp add: NoslatedDecoder_Decode_def MessageHeaderSize_def)
  with Nil show ?case by (auto simp: drained_def)
next
  case (Cons m ms)
  show ?case
  proof (cases "length (d_buffer d) < length (sent_bytes pb m)")
    case True
    then obtain d' where d': "NoslatedDecoder_Decode pb d = (DecodingStateMore, d')" "d_buffer d' = d_buffer d"
        "decoder_at pb d' (m # ms)"
      using Decode_sent_More [of m d ms rest] Cons.prems by auto
    then have "OnReadable pb d = Inr ([], d')" by (subst OnReadable.simps) simp
    with d' True Cons.prems show ?thesis by (intro exI [of _ 0] exI [of _ d']) (auto simp: drained_def)
  next
    case False
    define tail where "tail = drop (length (sent_bytes pb m)) (d_buffer d)"
    have buf: "d_buffer d = sent_bytes pb m @ tail" and tail: "tail @ rest = concat (map (sent_bytes pb) ms)"
      using append_prefix_cut [of "d_buffer d" rest "sent_bytes pb m"] Cons.prems(3) False
      unfolding tail_def by simp_all
    let ?d1 = "d\<lparr>d_header := Some (sent_header pb m), d_read_size := length (sent_bytes pb m),
        d_content := Some (s_msg m)\<rparr>"
    let ?d2 = "\<lparr>d_read_size = 0, d_buffer = tail, d_header = None, d_content = None\<rparr>"
    have "NoslatedDecoder_Decode pb d = (DecodingStateOk, ?d1)"
      using Decode_sent_Ok [of m d ms tail] Cons.prems buf by simp
    moreover have "Dispatch ?d1 = Inr ([sent_call m], ?d2)"
      by (cases "s_mkind m")
        (simp_all add: Dispatch_def TakeHeaderOwnership_def TakeContentOwnership_def buf sent_call_def)
    ultimately have step: "OnReadable pb d = obind (OnReadable pb ?d2) (\<lambda>(calls, d3). Inr (sent_call m # calls, d3))"
      by (subst OnReadable.simps) simp
    have "decoder_at pb ?d2 ms" by (simp add: decoder_at_def)
    then obtain k d' where "OnReadable pb ?d2 = Inr (map sent_call (take k ms), d')" "k \<le> length ms"
        "decoder_at pb d' (drop k ms)" "d_buffer d' @ rest = concat (map (sent_bytes pb) (drop k ms))"
        "drained pb d' (drop k ms)"
      using Cons.IH [of ?d2] Cons.prems tail by auto
    then show ?thesis using step by (intro exI [of _ "Suc k"] exI [of _ d']) simp
  qed
qed

lemma sent_bytes_nonempty: "0 < length (sent_bytes pb s)"
  by (simp add: sent_bytes_length MessageHeaderSize_def)

lemma OnFrame_sent:
  assumes "rc_idle_init rc = 0" "rc_idle_start rc = 0" "socket_at pb s ms"
  shows "\<exists>s'. OnFrame rc bs s = Inr s' \<and> socket_at pb s' ms \<and>
    d_buffer (sh_decoder (fst s')) = d_buffer (sh_decoder (fst s)) @ bs"
proof -
  obtain sh l where s: "s = (sh, l)" by (cases s)
  have ib: "d_buffer (InsertBuffer bs (sh_decoder sh)) = d_buffer (sh_decoder sh) @ bs"
      "decoder_at pb (InsertBuffer bs (sh_decoder sh)) ms"
    using assms(3) by (auto simp: s InsertBuffer_def socket_at_def decoder_at_def)
  obtain i l' where n: "new_handle UvIdle Cb_read_immediate l = (i, l')" by fastforce
  then have "SetImmediate rc Cb_read_immediate l = Inr (i, l')"
    using assms(1,2) by (simp add: SetImmediate_def)
  then show ?thesis
    using assms(3) ib new_handle_laws [OF _ n]
    by (cases "sh_read_immediate sh") (auto simp: s OnFrame_def SetReadable_def socket_at_def)
qed

lemma Run_immediate_sent:
  assumes "rc_idle_stop rc = 0" "socket_at pb s ms" "\<forall>m\<in>set ms. sent_ok pb has_type m"
    and "d_buffer (sh_decoder (fst s)) @ rest = concat (map (sent_bytes pb) ms)"
  shows "\<exists>k s'. socket_step pb rc Run_immediate s = Inr (map sent_call (take k ms), s') \<and>
    socket_at pb s' (drop k ms) \<and> sh_read_immediate (fst s') = None \<and>
    d_buffer (sh_decoder (fst s')) @ rest = concat (map (sent_bytes pb) (drop k ms))"
proof (cases "sh_read_immediate (fst s)")
  case None
  with assms show ?thesis by (intro exI [of _ 0] exI [of _ s]) (simp add: socket_step_def)
next
  case (Some i)
  obtain sh l where s: "s = (sh, l)" by (cases s)
  from Some assms(2) obtain h where h: "ul_handles l i = Some h" "\<not> uh_closing h" "uv_loop_wf l"
    by (auto simp: s socket_at_def open_handles_def split: option.splits if_splits)
  let ?l = "l\<lparr>ul_handles := (ul_handles l)(i \<mapsto> h\<lparr>uh_active := False\<rparr>)\<rparr>"
  have l: "uv_loop_wf ?l" "open_handles ?l i \<noteq> None"
    using h by (auto simp: uv_loop_wf_def open_handles_def)
  obtain l' where l': "ClearImmediate i ?l = Inr l'" "uv_loop_wf l'"
    using immediates.clear_open [OF l(2)] immediates.clear_wf [OF l(1)] by blast
  obtain k d' where "OnReadable pb (sh_decoder sh) = Inr (map sent_call (take k ms), d')"
      "decoder_at pb d' (drop k ms)" "d_buffer d' @ rest = concat (map (sent_bytes pb) (drop k ms))"
      "drained pb d' (drop k ms)"
    using OnReadable_sent [OF assms(3) _, of "sh_decoder sh" rest] assms(2,4) by (auto simp: s socket_at_def)
  then show ?thesis
    using Some assms(1) h l' by (auto simp: s socket_step_def IdleCb_def read_immediate_callback_def socket_at_def)
qed

lemma socket_run_sent:
  assumes "rc_idle_init rc = 0" "rc_idle_start rc = 0" "rc_idle_stop rc = 0"
  shows "socket_at pb s ms \<Longrightarrow> \<forall>m\<in>set ms. sent_ok pb has_type m \<Longrightarrow>
    d_buffer (sh_decoder (fst s)) @ concat (map frame_bytes inputs) @ rest = concat (map (sent_bytes pb) ms) \<Longrightarrow>
    \<exists>k s'. socket_run pb rc inputs s = Inr (map sent_call (take k ms), s') \<and> socket_at pb s' (drop k ms) \<and>
      d_buffer (sh_decoder (fst s')) @ rest = concat (map (sent_bytes pb) (drop k ms)) \<and>
      (inputs \<noteq> [] \<and> last inputs = Run_immediate \<longrightarrow> sh_read_immediate (fst s') = None)"
proof (induction inputs arbitrary: s ms)
  case Nil
  then show ?case by (intro exI [of _ 0] exI [of _ s]) simp
next
  case (Cons i xs)
  have "\<exists>k s1. socket_step pb rc i s = Inr (map sent_call (take k ms), s1) \<and> socket_at pb s1 (drop k ms) \<and>
      d_buffer (sh_decoder (fst s1)) @ concat (map frame_bytes xs) @ rest = concat (map (sent_bytes pb) (drop k ms)) \<and>
      (i = Run_immediate \<longrightarrow> sh_read_immediate (fst s1) = None)"
  proof (cases i)
    case (Frame bs)
    then show ?thesis
      using OnFrame_sent [OF assms(1,2) Cons.prems(1), of bs] Cons.prems(3)
      by (intro exI [of _ 0]) (auto simp: socket_step_def)
  next
    case Run_immediate
    then show ?thesis
      using Run_immediate_sent [OF assms(3) Cons.prems(1,2), of "concat (map frame_bytes xs) @ rest"] Cons.prems(3)
      by auto
  qed
  then obtain k s1 where k: "socket_step pb rc i s = Inr (map sent_call (take k ms), s1)" "socket_at pb s1 (drop k ms)"
      "d_buffer (sh_decoder (fst s1)) @ concat (map frame_bytes xs) @ rest = concat (map (sent_bytes pb) (drop k ms))"
      "i = Run_immediate \<longrightarrow> sh_read_immediate (fst s1) = None" by blast
  have ok: "\<forall>m\<in>set (drop k ms). sent_ok pb has_type m" using Cons.prems(2) by (auto dest: in_set_dropD)
  obtain j s' where j: "socket_run pb rc xs s1 = Inr (map sent_call (take j (drop k ms)), s')"
      "socket_at pb s' (drop j (drop k ms))"
      "d_buffer (sh_decoder (fst s')) @ rest = concat (map (sent_bytes pb) (drop j (drop k ms)))"
      "xs \<noteq> [] \<and> last xs = Run_immediate \<longrightarrow> sh_read_immediate (fst s') = None"
    using Cons.IH [OF k(2) ok k(3)] by blast
  have "map sent_call (take (k + j) ms) = map sent_call (take k ms) @ map sent_call (take j (drop k ms))"
    by (simp add: take_add)
  then have "socket_run pb rc (i # xs) s = Inr (map sent_call (take (k + j) ms), s')"
    using k(1) j(1) by simp
  moreover have "xs = [] \<Longrightarrow> s' = s1" using j(1) by simp
  ultimately show ?case
    using k j by (intro exI [of _ "k + j"] exI [of _ s']) (auto simp: add.commute)
qed

lemma socket_at_quiet:
  assumes "socket_at pb s ms" "sh_read_immediate (fst s) = None"
    and "d_buffer (sh_decoder (fst s)) = concat (map (sent_bytes pb) ms)"
  shows "ms = []"
  using assms by (cases ms) (auto simp: socket_at_def drained_def)

lemma stream_delivery:
  assumes "rc_idle_init rc = 0" "rc_idle_start rc = 0" "rc_idle_stop rc = 0"
    and "\<forall>m\<in>set ms. sent_ok pb has_type m"
    and "concat (map frame_bytes inputs) @ rest = concat (map (sent_bytes pb) ms)"
  shows "\<exists>k s'. socket_run pb rc inputs (socket_init, uv_loop_init) = Inr (map sent_call (take k ms), s') \<and>
    (rest = [] \<and> inputs \<noteq> [] \<and> last inputs = Run_immediate \<longrightarrow> take k ms = ms)"
proof -
  let ?s = "(socket_init, uv_loop_init)"
  have at: "socket_at pb ?s ms"
    using sent_bytes_nonempty by (simp add: socket_at_def socket_init_def decoder_init_def decoder_at_def drained_def)
  have buf: "d_buffer (sh_decoder (fst ?s)) @ concat (map frame_bytes inputs) @ rest = concat (map (sent_bytes pb) ms)"
    using assms(5) by (simp add: socket_init_def decoder_init_def)
  obtain k s' where k: "socket_run pb rc inputs ?s = Inr (map sent_call (take k ms), s')"
      "socket_at pb s' (drop k ms)" "d_buffer (sh_decoder (fst s')) @ rest = concat (map (sent_bytes pb) (drop k ms))"
      "inputs \<noteq> [] \<and> last inputs = Run_immediate \<longrightarrow> sh_read_immediate (fst s') = None"
    using socket_run_sent [OF assms(1-3) at assms(4) buf] by blast
  have "rest = [] \<and> inputs \<noteq> [] \<and> last inputs = Run_immediate \<Longrightarrow> drop k ms = []"
    using socket_at_quiet [OF k(2)] k(3,4) by simp
  then have "rest = [] \<and> inputs \<noteq> [] \<and> last inputs = Run_immediate \<longrightarrow> take k ms = ms"
    by simp
  with k(1) show ?thesis by blast
qed

end
section \<open>Arbitrary input never takes the process down\<close>

definition decoder_wf :: "'m NoslatedDecoder \<Rightarrow> bool" where
  "decoder_wf d = (d_read_size d = (if d_header d = None then 0 else MessageHeaderSize))"

lemma decode_with_header_not_Ok:
  "decode_with_header pb h d = (st, d1) \<Longrightarrow> st \<noteq> DecodingStateOk \<Longrightarrow> d1 = d"
  by (auto simp: decode_with_header_def DecodeRequest_def DecodeResponse_def decode_body_def Let_def
      split: if_splits option.splits)

lemma Decode_wf:
  assumes "decoder_wf d" "NoslatedDecoder_Decode pb d = (st, d1)" "st \<noteq> DecodingStateOk"
  shows "decoder_wf d1 \<and> d_buffer d1 = d_buffer d"
  using assms
  by (auto simp: NoslatedDecoder_Decode_def decoder_wf_def split: if_splits option.splits dest!: decode_with_header_not_Ok)

lemma Decode_Ok_dispatches:
  assumes "decoder_wf d" "NoslatedDecoder_Decode pb d = (DecodingStateOk, d1)"
  shows "\<exists>calls d2. Dispatch d1 = Inr (calls, d2) \<and> decoder_wf d2 \<and> length calls = 1 \<and>
    length (d_buffer d2) + MessageHeaderSize \<le> length (d_buffer d)"
proof -
  from Decode_Ok [OF assms(2)] obtain h where h: "d_header d1 = Some h" "d_buffer d1 = d_buffer d"
    "d_read_size d1 = MessageHeaderSize + unat (content_length h)"
    "MessageHeaderSize + unat (content_length h) \<le> length (d_buffer d)"
    "message_kind h = message_kind_value Request \<or> message_kind h = message_kind_value Response"
    using assms(1) by (cases "d_header d") (auto simp: decoder_wf_def)
  then show ?thesis
    by (auto simp: Dispatch_def TakeHeaderOwnership_def TakeContentOwnership_def decoder_wf_def)
qed

lemma OnReadable_returns:
  "decoder_wf d \<Longrightarrow> \<exists>calls d'. OnReadable pb d = Inr (calls, d') \<and> decoder_wf d' \<and>
     length (d_buffer d') + MessageHeaderSize * length (filter (\<lambda>c. c \<noteq> Call_OnError) calls) \<le> length (d_buffer d)"
proof (induction pb d rule: OnReadable.induct)
  case (1 pb d)
  obtain st d1 where dec: "NoslatedDecoder_Decode pb d = (st, d1)" by fastforce
  show ?case
  proof (cases "st = DecodingStateOk")
    case False
    then show ?thesis
      using Decode_wf [OF "1.prems" dec] dec by (subst OnReadable.simps) (auto split: DecodingState.splits)
  next
    case True
    then obtain calls d2 where d2: "Dispatch d1 = Inr (calls, d2)" "decoder_wf d2" "length calls = 1"
        "length (d_buffer d2) + MessageHeaderSize \<le> length (d_buffer d)"
      using Decode_Ok_dispatches [OF "1.prems"] dec by blast
    then obtain calls' d' where d': "OnReadable pb d2 = Inr (calls', d')" "decoder_wf d'"
        "length (d_buffer d') + MessageHeaderSize * length (filter (\<lambda>c. c \<noteq> Call_OnError) calls') \<le> length (d_buffer d2)"
      using "1.IH" [OF dec [symmetric] True d2(1) refl] by auto
    have "length (filter (\<lambda>c. c \<noteq> Call_OnError) calls) \<le> 1"
      using d2(3) length_filter_le [of "\<lambda>c. c \<noteq> Call_OnError" calls] by simp
    then have "MessageHeaderSize * length (filter (\<lambda>c. c \<noteq> Call_OnError) (calls @ calls')) \<le>
        MessageHeaderSize + MessageHeaderSize * length (filter (\<lambda>c. c \<noteq> Call_OnError) calls')"
      by (auto simp: MessageHeaderSize_def)
    moreover have "OnReadable pb d = Inr (calls @ calls', d')"
      using dec True d2 d' by (subst OnReadable.simps) simp
    ultimately show ?thesis using d' d2 by auto
  qed
qed

text \<open>Everything that can happen to a socket, in any order.\<close>

datatype socket_event = Input socket_input | Eof | Dispose | Close_callback nat

definition socket_event_step ::
  "'m codec \<Rightarrow> uv_status \<Rightarrow> socket_event \<Rightarrow> 'm socket_state \<Rightarrow> ('m delegate_call list \<times> 'm socket_state) outcome" where
  "socket_event_step pb rc e s =
     (case e of
        Input i \<Rightarrow> socket_step pb rc i s
      | Eof \<Rightarrow> obind (OnEoF pb (fst s)) (\<lambda>(calls, sh). Inr (calls, sh, snd s))
      | Dispose \<Rightarrow> obind (DisconnectAndDispose s) (\<lambda>s. Inr ([], s))
      | Close_callback i \<Rightarrow> Inr ([], fst s, if may_release (snd s) i then CloseCb i (snd s) else snd s))"

definition socket_inv :: "'m socket_state \<Rightarrow> bool" where
  "socket_inv s =
     (decoder_wf (sh_decoder (fst s)) \<and> uv_loop_wf (snd s) \<and>
      (\<forall>i. sh_read_immediate (fst s) = Some i \<longrightarrow> open_handles (snd s) i = Some Cb_read_immediate))"

definition uv_idle_ok :: "uv_status \<Rightarrow> bool" where
  "uv_idle_ok rc = (rc_idle_init rc = 0 \<and> rc_idle_start rc = 0 \<and> rc_idle_stop rc = 0)"

lemma socket_input_total:
  assumes "uv_idle_ok rc" "socket_inv s"
  shows "\<exists>calls s'. socket_step pb rc i s = Inr (calls, s') \<and> socket_inv s'"
proof (cases i)
  case (Frame bs)
  obtain sh l where s: "s = (sh, l)" by (cases s)
  obtain j l' where n: "new_handle UvIdle Cb_read_immediate l = (j, l')" by fastforce
  then have "SetImmediate rc Cb_read_immediate l = Inr (j, l')"
    using assms(1) by (simp add: SetImmediate_def uv_idle_ok_def)
  then show ?thesis
    using assms(2) Frame new_handle_laws [OF _ n]
    by (cases "sh_read_immediate sh")
      (auto simp: s socket_step_def OnFrame_def SetReadable_def socket_inv_def InsertBuffer_def decoder_wf_def)
next
  case Run_immediate
  obtain sh l where s: "s = (sh, l)" by (cases s)
  show ?thesis
  proof (cases "sh_read_immediate sh")
    case None
    then show ?thesis using Run_immediate assms(2) by (simp add: s socket_step_def)
  next
    case (Some j)
    then obtain h where h: "ul_handles l j = Some h" "\<not> uh_closing h" "uv_loop_wf l"
      using assms(2) by (auto simp: s socket_inv_def open_handles_def split: option.splits if_splits)
    let ?l = "l\<lparr>ul_handles := (ul_handles l)(j \<mapsto> h\<lparr>uh_active := False\<rparr>)\<rparr>"
    have l: "uv_loop_wf ?l" "open_handles ?l j \<noteq> None"
      using h by (auto simp: uv_loop_wf_def open_handles_def)
    obtain l' where l': "ClearImmediate j ?l = Inr l'" "uv_loop_wf l'"
      using immediates.clear_open [OF l(2)] immediates.clear_wf [OF l(1)] by blast
    obtain calls d' where "OnReadable pb (sh_decoder sh) = Inr (calls, d')" "decoder_wf d'"
      using OnReadable_returns [of "sh_decoder sh" pb] assms(2) by (auto simp: s socket_inv_def)
    then show ?thesis
      using Run_immediate Some assms(1) h l'
      by (auto simp: s socket_step_def IdleCb_def read_immediate_callback_def socket_inv_def uv_idle_ok_def)
  qed
qed

lemma OnEoF_total:
  assumes "decoder_wf (sh_decoder sh)"
  shows "\<exists>calls d. OnEoF pb sh = Inr (calls, sh\<lparr>sh_decoder := d\<rparr>) \<and> decoder_wf d"
proof -
  obtain st d1 where dec: "NoslatedDecoder_Decode pb (sh_decoder sh) = (st, d1)" by fastforce
  show ?thesis
    using Decode_wf [OF assms dec] Decode_Ok_dispatches [OF assms, of pb d1] dec
    by (cases st) (auto simp: OnEoF_def)
qed

lemma socket_event_total:
  assumes "uv_idle_ok rc" "socket_inv s"
  shows "\<exists>calls s'. socket_event_step pb rc e s = Inr (calls, s') \<and> socket_inv s'"
proof (cases e)
  case (Input i)
  then show ?thesis using socket_input_total [OF assms] by (simp add: socket_event_step_def)
next
  case Eof
  obtain sh l where s: "s = (sh, l)" by (cases s)
  show ?thesis
    using Eof assms(2) OnEoF_total [of sh pb] by (auto simp: s socket_event_step_def socket_inv_def)
next
  case Dispose
  obtain sh l where s: "s = (sh, l)" by (cases s)
  show ?thesis
  proof (cases "sh_read_immediate sh")
    case None
    then show ?thesis using Dispose assms(2) by (simp add: s socket_event_step_def DisconnectAndDispose_def)
  next
    case (Some j)
    then obtain l' where "ClearImmediate j l = Inr l'" "uv_loop_wf l'"
      using assms(2) immediates.clear_open [of l j] immediates.clear_wf [of l j]
      by (auto simp: s socket_inv_def)
    then show ?thesis
      using Dispose Some assms(2) by (auto simp: s socket_event_step_def DisconnectAndDispose_def socket_inv_def)
  qed
next
  case (Close_callback j)
  then show ?thesis
    using assms(2) by (auto simp: socket_event_step_def socket_inv_def CloseCb_open CloseCb_wf)
qed

inductive socket_trans :: "'m codec \<Rightarrow> uv_status \<Rightarrow> 'm socket_state \<Rightarrow> 'm socket_state \<Rightarrow> bool" for pb rc where
  "socket_event_step pb rc e s = Inr (calls, s') \<Longrightarrow> socket_trans pb rc s s'"

inductive_cases socket_transE: "socket_trans pb rc s s'"

interpretation socket_sys: invariant_system "\<lambda>s. s = (socket_init, uv_loop_init)"
    "\<lambda>s s'. uv_idle_ok rc \<and> socket_trans pb rc s s'" socket_inv
  for pb rc
proof unfold_locales
  fix s :: "'a socket_state"
  show "s = (socket_init, uv_loop_init) \<Longrightarrow> socket_inv s"
    by (simp add: socket_inv_def socket_init_def decoder_init_def decoder_wf_def)
next
  fix s t :: "'a socket_state"
  assume *: "socket_inv s" "uv_idle_ok rc \<and> socket_trans pb rc s t"
  then obtain e calls where "socket_event_step pb rc e s = Inr (calls, t)" by (auto elim: socket_transE)
  then show "socket_inv t" using socket_event_total [of rc s pb e] * by auto
qed

lemma uv_ok_idle [simp]: "uv_idle_ok uv_ok"
  by (simp add: uv_idle_ok_def uv_ok_def)

text \<open>
  C1: a message stream arrives intact however it is cut. The bytes a peer writes with
  \<open>SocketHolder::Write\<close>, received in any frames (headers and bodies split anywhere, several
  messages in one frame, empty frames) with the loop's immediates interleaved in any way,
  are dispatched in order as a prefix of the messages sent, each with its own id, kind,
  code and body; once the whole stream has arrived and the read immediate has run, all of
  them have been dispatched.
\<close>

theorem socket_stream_delivery:
  assumes "protobuf_codec pb has_type" "uv_idle_ok rc"
    and "\<forall>m\<in>set ms. sent_ok pb has_type m"
    and "concat (map frame_bytes inputs) @ rest = concat (map (sent_bytes pb) ms)"
  shows "\<exists>k s'. socket_run pb rc inputs (socket_init, uv_loop_init) = Inr (map sent_call (take k ms), s') \<and>
    (rest = [] \<and> inputs \<noteq> [] \<and> last inputs = Run_immediate \<longrightarrow> take k ms = ms)"
  using protobuf_codec.stream_delivery [OF assms(1) _ _ _ assms(3,4), of rc] assms(2)
  by (simp add: uv_idle_ok_def)

definition example_sent :: "(message_type \<times> bytes) sent list" where
  "example_sent =
     [\<lparr>s_mkind = Request, s_rid = 7, s_kind = Fetch, s_msg = (RequestMessage Fetch, [1, 2, 3]), s_code = 0\<rparr>,
      \<lparr>s_mkind = Response, s_rid = 3, s_kind = Trigger, s_msg = (ErrorResponseMessage, [9]), s_code = 2\<rparr>]"

theorem socket_stream_delivery_witness:
  "\<exists>s'. socket_run wire_codec uv_ok
      [Frame (take 10 (concat (map (sent_bytes wire_codec) example_sent))), Run_immediate,
       Frame (drop 10 (concat (map (sent_bytes wire_codec) example_sent))), Run_immediate]
      (socket_init, uv_loop_init) = Inr (map sent_call example_sent, s')"
proof -
  let ?b = "concat (map (sent_bytes wire_codec) example_sent)"
  let ?in = "[Frame (take 10 ?b), Run_immediate, Frame (drop 10 ?b), Run_immediate]"
  have ok: "\<forall>m\<in>set example_sent. sent_ok wire_codec wire_has_type m"
    by (simp add: example_sent_def sent_ok_def sent_type_def wire_has_type_def wire_codec_def)
  have bytes: "concat (map frame_bytes ?in) @ [] = ?b" by simp
  show ?thesis
    using socket_stream_delivery [OF wire.protobuf_codec_axioms uv_ok_idle ok bytes] by auto
qed



end
