(* ===== verification/OrderedMap.thy ===== *)
theory OrderedMap
  imports Prelude "HOL-Library.Multiset"
begin

text \<open>
  \<open>std::map\<close> as the code uses it: \<open>find\<close>, assignment through \<open>operator[]\<close>, \<open>erase\<close>, and
  iteration in the order of the keys. A map is an association list sorted strictly by
  key; the locale \<open>std_map\<close> states what clients rely on.
\<close>

type_synonym ('k, 'v) omap = "('k \<times> 'v) list"

fun omap_set :: "'k::linorder \<Rightarrow> 'v \<Rightarrow> ('k, 'v) omap \<Rightarrow> ('k, 'v) omap" where
  "omap_set k v [] = [(k, v)]"
| "omap_set k v ((k', v') # m) =
     (if k < k' then (k, v) # (k', v') # m
      else if k = k' then (k, v) # m
      else (k', v') # omap_set k v m)"

definition omap_find :: "('k, 'v) omap \<Rightarrow> 'k \<Rightarrow> 'v option" where
  "omap_find m k = map_of m k"

definition omap_erase :: "'k \<Rightarrow> ('k, 'v) omap \<Rightarrow> ('k, 'v) omap" where
  "omap_erase k m = filter (\<lambda>p. fst p \<noteq> k) m"

definition omap_wf :: "('k::linorder, 'v) omap \<Rightarrow> bool" where
  "omap_wf m = sorted_wrt (<) (map fst m)"

locale std_map =
  fixes wf :: "'m \<Rightarrow> bool"
    and find_in :: "'m \<Rightarrow> 'k \<rightharpoonup> 'v"
    and empty_map :: 'm
    and set_in :: "'k \<Rightarrow> 'v \<Rightarrow> 'm \<Rightarrow> 'm"
    and erase_in :: "'k \<Rightarrow> 'm \<Rightarrow> 'm"
    and entries :: "'m \<Rightarrow> ('k \<times> 'v) list"
  assumes wf_empty: "wf empty_map"
    and find_empty: "find_in empty_map = Map.empty"
    and wf_set: "wf m \<Longrightarrow> wf (set_in k v m)"
    and find_set: "wf m \<Longrightarrow> find_in (set_in k v m) = (find_in m)(k \<mapsto> v)"
    and wf_erase: "wf m \<Longrightarrow> wf (erase_in k m)"
    and find_erase: "wf m \<Longrightarrow> find_in (erase_in k m) = (find_in m)(k := None)"
    and entries_find: "wf m \<Longrightarrow> find_in m = map_of (entries m)"
    and entries_distinct: "wf m \<Longrightarrow> distinct (map fst (entries m))"
begin

lemma entries_iff: "wf m \<Longrightarrow> (k, v) \<in> set (entries m) \<longleftrightarrow> find_in m k = Some v"
  by (simp add: entries_find entries_distinct)

lemma finite_dom: "wf m \<Longrightarrow> finite (dom (find_in m))"
  by (simp add: entries_find finite_dom_map_of)

lemma find_fresh_erase: "wf m \<Longrightarrow> find_in m k = None \<Longrightarrow> find_in (erase_in k (set_in k v m)) = find_in m"
  by (simp add: find_erase find_set wf_set fun_upd_idem)

lemma entries_empty_iff: "wf m \<Longrightarrow> entries m = [] \<longleftrightarrow> find_in m = Map.empty"
  by (simp add: entries_find)

end

lemma omap_find_set [simp]: "omap_find (omap_set k v m) = (omap_find m)(k \<mapsto> v)"
  by (induction m rule: omap_set.induct) (auto simp: omap_find_def fun_eq_iff)

lemma omap_find_erase [simp]: "omap_find (omap_erase k m) = (omap_find m)(k := None)"
  by (induction m) (auto simp: omap_find_def omap_erase_def fun_eq_iff)

lemma omap_set_keys: "set (map fst (omap_set k v m)) = insert k (set (map fst m))"
  by (induction m rule: omap_set.induct) auto

lemma omap_wf_set: "omap_wf m \<Longrightarrow> omap_wf (omap_set k v m)"
proof (induction k v m rule: omap_set.induct)
  case (2 k v k' v' m)
  then show ?case
    using omap_set_keys [of k v m] by (auto simp: omap_wf_def)
qed (simp add: omap_wf_def)

lemma omap_wf_erase: "omap_wf m \<Longrightarrow> omap_wf (omap_erase k m)"
  by (induction m) (auto simp: omap_wf_def omap_erase_def)

lemma omap_wf_distinct: "omap_wf m \<Longrightarrow> distinct (map fst m)"
  by (simp add: omap_wf_def strict_sorted_iff)

lemma omap_find_Nil [simp]: "omap_find [] = Map.empty"
  by (rule ext) (simp add: omap_find_def)

lemma omap_wf_Nil [simp]: "omap_wf []"
  by (simp add: omap_wf_def)

interpretation omaps: std_map omap_wf omap_find "[]" omap_set omap_erase "\<lambda>m. m"
  by unfold_locales
    (simp_all add: omap_wf_set omap_wf_erase omap_wf_distinct, simp add: fun_eq_iff omap_find_def)

text \<open>Values as multisets: what an assignment to a fresh key and an erasure do to them.\<close>

lemma omap_set_fresh_values:
  "omap_find m k = None \<Longrightarrow> mset (map snd (omap_set k v m)) = add_mset v (mset (map snd m))"
  by (induction m rule: omap_set.induct) (auto simp: omap_find_def split: if_splits)

lemma omap_erase_absent: "omap_find m k = None \<Longrightarrow> omap_erase k m = m"
  by (auto simp: omap_find_def omap_erase_def map_of_eq_None_iff intro!: filter_True)

lemma omap_erase_values:
  "omap_wf m \<Longrightarrow> omap_find m k = Some v \<Longrightarrow>
   mset (map snd m) = add_mset v (mset (map snd (omap_erase k m)))"
proof (induction m)
  case (Cons p m)
  obtain k' v' where p: "p = (k', v')" by (cases p)
  have wf: "omap_wf m" using Cons.prems(1) by (simp add: omap_wf_def)
  show ?case
  proof (cases "k' = k")
    case True
    then have "omap_find m k = None"
      using Cons.prems(1) by (auto simp: p omap_wf_def omap_find_def map_of_eq_None_iff)
    then show ?thesis
      using True Cons.prems(2) omap_erase_absent [of m k] by (simp add: p omap_erase_def omap_find_def)
  next
    case False
    then show ?thesis
      using Cons.IH [OF wf] Cons.prems(2) by (simp add: p omap_erase_def omap_find_def)
  qed
qed (simp add: omap_find_def)

lemma distinct_values:
  "distinct (map fst ts) \<Longrightarrow> (\<And>r q t. (r, t) \<in> set ts \<Longrightarrow> (q, t) \<in> set ts \<Longrightarrow> r = q) \<Longrightarrow> distinct (map snd ts)"
proof (induction ts)
  case (Cons p ts)
  obtain r t where p: "p = (r, t)" by (cases p)
  have "t \<notin> set (map snd ts)"
  proof
    assume "t \<in> set (map snd ts)"
    then obtain q where "(q, t) \<in> set ts" by auto
    moreover from this have "q = r" using Cons.prems(2) [of r t q] p by auto
    ultimately show False using Cons.prems(1) p by force
  qed
  moreover have "distinct (map snd ts)" using Cons.prems by (intro Cons.IH) auto
  ultimately show ?case using p by simp
qed simp

lemma union_chain:
  assumes "A + P = C + Q" "B + Q = D + R"
  shows "(A + B) + P = (C + D) + (R :: 'a multiset)"
proof -
  have "(A + B) + P = B + (A + P)" by (simp add: ac_simps)
  also have "\<dots> = C + (B + Q)" unfolding assms(1) by (simp add: ac_simps)
  also have "\<dots> = (C + D) + R" unfolding assms(2) by (simp add: ac_simps)
  finally show ?thesis .
qed

lemma omap_length:
  "omap_find m k = None \<Longrightarrow> length (omap_set k v m) = Suc (length m)"
  "omap_wf m \<Longrightarrow> omap_find m k = Some w \<Longrightarrow> length m = Suc (length (omap_erase k m))"
  using arg_cong [OF omap_set_fresh_values, of m k size v] arg_cong [OF omap_erase_values, of m k w size]
  by simp_all

end
