(* ===== verification/IpcDelegate.thy ===== *)
theory IpcDelegate
  imports IpcSocket OrderedMap
begin

text \<open>
  Requests and responses: \<open>DelegateImpl\<close> of src/src/ipc/ipc_delegate_impl.cc, which keeps the
  pending closures and their timers, and \<open>NoslatedService\<close> of src/src/ipc/ipc_service.cc,
  which numbers requests. Calls that leave the two classes (closures, the socket, the
  service implementation) are the effects an operation returns. Closures are values of
  an arbitrary type; an empty \<open>std::function\<close> is \<open>None\<close>. A closure runs to completion
  without re-entering the delegate.
\<close>

section \<open>DelegateImpl\<close>

record 'c DelegateImpl =
  dl_callbacks :: "(RequestId, 'c option) omap"
  dl_timers :: "(RequestId, nat) omap"

record RpcController =
  rpc_session_id :: SessionId
  rpc_request_id :: RequestId
  rpc_timeout :: u64

datatype ('c, 'm) delegate_effect =
    Run_closure 'c u32 "'m option" "'m option"
  | Socket_Write MessageKind RequestId u32 'm u32
  | Service_call RequestKind RpcController "'m option"
  | Service_Disconnected SessionId
  | Service_Closed

type_synonym 'c delegate_state = "'c DelegateImpl \<times> loop_callback uv_loop"

definition delegate_init :: "'c DelegateImpl" where
  "delegate_init = \<lparr>dl_callbacks = [], dl_timers = []\<rparr>"

definition NewWithRequestId :: "SessionId \<Rightarrow> RequestId \<Rightarrow> RpcController" where
  "NewWithRequestId sid rid = \<lparr>rpc_session_id = sid, rpc_request_id = rid, rpc_timeout = 0\<rparr>"

definition OnRequest :: "SessionId \<Rightarrow> RequestId \<Rightarrow> u32 \<Rightarrow> 'm option \<Rightarrow> ('c, 'm) delegate_effect list" where
  "OnRequest session rid kind body =
     (case switch_request_type kind of
        None \<Rightarrow> []
      | Some t \<Rightarrow> [Service_call t (NewWithRequestId session rid) body])"

text \<open>
  The closure \<open>OnRequest\<close> passes to the service: \<open>alive\<close> tells whether the delegate still
  exists, \<open>sock\<close> whether it has a socket, and \<open>fresh\<close> makes an empty message of a type.
\<close>

definition request_reply ::
  "(message_type \<Rightarrow> 'm) \<Rightarrow> bool \<Rightarrow> bool \<Rightarrow> RequestKind \<Rightarrow> RequestId \<Rightarrow> u32 \<Rightarrow> u32 \<Rightarrow> 'm option \<Rightarrow> 'm option \<Rightarrow>
   ('c, 'm) delegate_effect list" where
  "request_reply fresh alive sock t rid kind cde error resp =
     (if \<not> alive then []
      else if sock then
        (let msg = (if cde \<noteq> code_value OK
                    then (case error of Some e \<Rightarrow> e | None \<Rightarrow> fresh ErrorResponseMessage)
                    else (case resp of Some r \<Rightarrow> r | None \<Rightarrow> fresh (ResponseMessage t)))
         in [Socket_Write Response rid kind msg cde])
      else [])"

definition OnResponse ::
  "RequestId \<Rightarrow> u32 \<Rightarrow> u32 \<Rightarrow> 'm option \<Rightarrow> 'c delegate_state \<Rightarrow>
   (('c, 'm) delegate_effect list \<times> 'c delegate_state) outcome" where
  "OnResponse rid kind cde body = (\<lambda>(d, l).
     case omap_find (dl_callbacks d) rid of
       None \<Rightarrow> Inr ([], d, l)
     | Some cb \<Rightarrow>
         obind (case omap_find (dl_timers d) rid of
                  None \<Rightarrow> Inr (d, l)
                | Some t \<Rightarrow> obind (ClearTimeout t l) (\<lambda>l. Inr (d\<lparr>dl_timers := omap_erase rid (dl_timers d)\<rparr>, l)))
           (\<lambda>(d, l).
              Inr ((case cb of
                      None \<Rightarrow> []
                    | Some f \<Rightarrow> [Run_closure f cde (if cde \<noteq> code_value OK then body else None)
                                   (if cde = code_value OK then body else None)]),
                   d\<lparr>dl_callbacks := omap_erase rid (dl_callbacks d)\<rparr>, l)))"

definition OnError :: "('c, 'm) delegate_effect list" where
  "OnError = []"

definition OnFinished :: "('c, 'm) delegate_effect list" where
  "OnFinished = [Service_Disconnected 0]"

definition OnClosed :: "('c, 'm) delegate_effect list" where
  "OnClosed = [Service_Closed]"

definition SetCallback :: "RequestId \<Rightarrow> 'c option \<Rightarrow> nat \<Rightarrow> 'c DelegateImpl \<Rightarrow> 'c DelegateImpl outcome" where
  "SetCallback rid callback timer d =
     obind (CHECK (omap_find (dl_callbacks d) rid = None)) (\<lambda>_.
     obind (CHECK (omap_find (dl_timers d) rid = None)) (\<lambda>_.
     Inr (d\<lparr>dl_callbacks := omap_set rid callback (dl_callbacks d), dl_timers := omap_set rid timer (dl_timers d)\<rparr>)))"

text \<open>\<open>DelegateImpl::Request\<close>; \<open>sock\<close> tells whether \<open>socket()\<close> is non-null.\<close>

definition Delegate_Request ::
  "uv_status \<Rightarrow> bool \<Rightarrow> RequestId \<Rightarrow> u32 \<Rightarrow> 'm \<Rightarrow> 'c option \<Rightarrow> u64 \<Rightarrow> 'c delegate_state \<Rightarrow>
   (('c, 'm) delegate_effect list \<times> 'c delegate_state) outcome" where
  "Delegate_Request rc sock rid kind body callback timeout = (\<lambda>(d, l).
     if sock then
       obind (SetTimeout rc (Cb_request_timeout rid kind) timeout l) (\<lambda>(timer, l).
       obind (SetCallback rid callback timer d) (\<lambda>d.
       Inr ([Socket_Write Request rid kind body (code_value OK)], d, l)))
     else Inr ([], d, l))"

text \<open>The closure of the timer: the delegate answers the request itself.\<close>

definition request_timeout_callback ::
  "RequestId \<Rightarrow> u32 \<Rightarrow> 'c delegate_state \<Rightarrow> (('c, 'm) delegate_effect list \<times> 'c delegate_state) outcome" where
  "request_timeout_callback rid kind s = OnResponse rid kind (code_value TIMEOUT) None s"

fun clear_timers :: "(RequestId, nat) omap \<Rightarrow> loop_callback uv_loop \<Rightarrow> loop_callback uv_loop outcome" where
  "clear_timers [] l = Inr l"
| "clear_timers ((rid, t) # ts) l = obind (ClearTimeout t l) (\<lambda>l. clear_timers ts l)"

fun reset_callbacks :: "(RequestId, 'c option) omap \<Rightarrow> ('c, 'm) delegate_effect list outcome" where
  "reset_callbacks [] = Inr []"
| "reset_callbacks ((rid, cb) # cs) =
     (case cb of
        None \<Rightarrow> Inl Null_deref
      | Some f \<Rightarrow> obind (reset_callbacks cs) (\<lambda>es.
          Inr (Run_closure f (code_value CONNECTION_RESET) None None # es)))"

definition Delegate_destroy ::
  "'c delegate_state \<Rightarrow> (('c, 'm) delegate_effect list \<times> 'c delegate_state) outcome" where
  "Delegate_destroy = (\<lambda>(d, l).
     obind (clear_timers (dl_timers d) l) (\<lambda>l.
     obind (reset_callbacks (dl_callbacks d)) (\<lambda>es.
     Inr (es, d\<lparr>dl_timers := [], dl_callbacks := []\<rparr>, l))))"

section \<open>NoslatedService\<close>

record NoslatedService =
  svc_seq :: u32

definition next_seq :: "NoslatedService \<Rightarrow> RequestId \<times> NoslatedService" where
  "next_seq s = (svc_seq s, s\<lparr>svc_seq := svc_seq s + 1\<rparr>)"

definition NewControllerWithTimeout ::
  "SessionId \<Rightarrow> u64 \<Rightarrow> NoslatedService \<Rightarrow> RpcController \<times> NoslatedService" where
  "NewControllerWithTimeout sid ms s =
     (case next_seq s of (rid, s) \<Rightarrow> (\<lparr>rpc_session_id = sid, rpc_request_id = rid, rpc_timeout = ms\<rparr>, s))"

text \<open>The base-class handler of a request type, and \<open>Request_\<close> with the delegate if it still lives.\<close>

definition service_default :: "(string \<Rightarrow> 'm) \<Rightarrow> u32 \<times> 'm option \<times> 'm option" where
  "service_default mk_error = (code_value NOT_IMPLEMENTED, Some (mk_error ''Not Implemented''), None)"

definition Service_Request ::
  "uv_status \<Rightarrow> (string \<Rightarrow> 'm) \<Rightarrow> bool \<Rightarrow> RpcController \<Rightarrow> RequestKind \<Rightarrow> 'm \<Rightarrow> 'c \<Rightarrow> 'c delegate_state option \<Rightarrow>
   (('c, 'm) delegate_effect list \<times> 'c delegate_state option) outcome" where
  "Service_Request rc mk_error sock controller kind req closure dl =
     (case dl of
        Some s \<Rightarrow>
          obind (Delegate_Request rc sock (rpc_request_id controller) (request_kind_value kind) req
                   (Some closure) (rpc_timeout controller) s) (\<lambda>(es, s).
          Inr (es, Some s))
      | None \<Rightarrow>
          Inr ([Run_closure closure (code_value CONNECTION_RESET)
                  (Some (mk_error ''Connection has been reset'')) None], None))"

section \<open>What can happen to a delegate\<close>

text \<open>
  A request of the service, a response from the peer, a timer that fires, a close
  callback of the loop, and destruction.
\<close>

datatype ('c, 'm) delegate_input =
    In_Request RequestId u32 'm 'c u64
  | In_Response RequestId u32 u32 "'m option"
  | In_Timer nat
  | In_Close_callback nat
  | In_Destroy

definition delegate_step ::
  "uv_status \<Rightarrow> ('c, 'm) delegate_input \<Rightarrow> 'c delegate_state \<Rightarrow>
   (('c, 'm) delegate_effect list \<times> 'c delegate_state) outcome" where
  "delegate_step rc i s =
     (case i of
        In_Request rid kind body f timeout \<Rightarrow> Delegate_Request rc True rid kind body (Some f) timeout s
      | In_Response rid kind cde body \<Rightarrow> OnResponse rid kind cde body s
      | In_Timer t \<Rightarrow>
          if may_fire (snd s) t then
            obind (TimerCb t (snd s)) (\<lambda>(cb, l).
            case cb of
              Cb_request_timeout rid kind \<Rightarrow> request_timeout_callback rid kind (fst s, l)
            | Cb_read_immediate \<Rightarrow> Inr ([], fst s, l))
          else Inr ([], s)
      | In_Close_callback t \<Rightarrow> Inr ([], fst s, if may_release (snd s) t then CloseCb t (snd s) else snd s)
      | In_Destroy \<Rightarrow> Delegate_destroy s)"

fun delegate_run ::
  "uv_status \<Rightarrow> ('c, 'm) delegate_input list \<Rightarrow> 'c delegate_state \<Rightarrow>
   (('c, 'm) delegate_effect list \<times> 'c delegate_state) outcome" where
  "delegate_run rc [] s = Inr ([], s)"
| "delegate_run rc (i # is) s =
     obind (delegate_step rc i s) (\<lambda>(es, s).
     obind (delegate_run rc is s) (\<lambda>(es', s).
     Inr (es @ es', s)))"

section \<open>Invariant of the pending requests\<close>

definition delegate_inv :: "'c delegate_state \<Rightarrow> bool" where
  "delegate_inv s =
     (omap_wf (dl_callbacks (fst s)) \<and> omap_wf (dl_timers (fst s)) \<and> uv_loop_wf (snd s) \<and>
      (\<forall>rid. omap_find (dl_callbacks (fst s)) rid = None \<longleftrightarrow> omap_find (dl_timers (fst s)) rid = None) \<and>
      (\<forall>rid. omap_find (dl_callbacks (fst s)) rid \<noteq> Some None) \<and>
      (\<forall>rid t. omap_find (dl_timers (fst s)) rid = Some t \<longrightarrow>
         (\<exists>kind. open_handles (snd s) t = Some (Cb_request_timeout rid kind))) \<and>
      (\<forall>t rid kind. open_handles (snd s) t = Some (Cb_request_timeout rid kind) \<longrightarrow>
         omap_find (dl_timers (fst s)) rid = Some t))"

definition pending :: "'c delegate_state \<Rightarrow> 'c list" where
  "pending s = map (the \<circ> snd) (dl_callbacks (fst s))"

fun closures_run :: "('c, 'm) delegate_effect list \<Rightarrow> 'c list" where
  "closures_run [] = []"
| "closures_run (Run_closure f c e b # es) = f # closures_run es"
| "closures_run (_ # es) = closures_run es"

fun requested :: "('c, 'm) delegate_input list \<Rightarrow> (RequestId \<times> 'c) list" where
  "requested [] = []"
| "requested (In_Request rid kind body f timeout # is) = (rid, f) # requested is"
| "requested (_ # is) = requested is"

definition uv_timer_ok :: "uv_status \<Rightarrow> bool" where
  "uv_timer_ok rc = (rc_timer_init rc = 0 \<and> rc_timer_start rc = 0)"

lemma closures_run_append [simp]: "closures_run (a @ b) = closures_run a @ closures_run b"
  by (induction a rule: closures_run.induct) auto

lemma delegate_init_inv: "delegate_inv (delegate_init, uv_loop_init)"
  by (simp add: delegate_inv_def delegate_init_def)

lemma pending_mset: "mset (pending s) = image_mset the (mset (map snd (dl_callbacks (fst s))))"
  by (simp add: pending_def image_mset.compositionality)

lemma delegate_invD:
  assumes "delegate_inv (d, l)"
  shows "omap_wf (dl_callbacks d)" "omap_wf (dl_timers d)" "uv_loop_wf l"
    "omap_find (dl_callbacks d) rid = None \<longleftrightarrow> omap_find (dl_timers d) rid = None"
    "omap_find (dl_callbacks d) rid \<noteq> Some None"
    "omap_find (dl_timers d) rid = Some t \<Longrightarrow> \<exists>kind. open_handles l t = Some (Cb_request_timeout rid kind)"
    "open_handles l t = Some (Cb_request_timeout rid kind) \<Longrightarrow> omap_find (dl_timers d) rid = Some t"
  using assms unfolding delegate_inv_def fst_conv snd_conv by blast+

lemma delegate_invI:
  assumes "omap_wf (dl_callbacks d)" "omap_wf (dl_timers d)" "uv_loop_wf l"
    and "\<And>rid. omap_find (dl_callbacks d) rid = None \<longleftrightarrow> omap_find (dl_timers d) rid = None"
    and "\<And>rid. omap_find (dl_callbacks d) rid \<noteq> Some None"
    and "\<And>rid t. omap_find (dl_timers d) rid = Some t \<Longrightarrow> \<exists>kind. open_handles l t = Some (Cb_request_timeout rid kind)"
    and "\<And>rid t kind. open_handles l t = Some (Cb_request_timeout rid kind) \<Longrightarrow> omap_find (dl_timers d) rid = Some t"
  shows "delegate_inv (d, l)"
  unfolding delegate_inv_def fst_conv snd_conv using assms by blast

lemma Request_step:
  assumes "uv_timer_ok rc" "delegate_inv s" "omap_find (dl_callbacks (fst s)) rid = None"
  shows "\<exists>s'. Delegate_Request rc True rid kind body (Some f) timeout s =
      Inr ([Socket_Write Request rid kind body (code_value OK)], s') \<and> delegate_inv s' \<and>
      omap_find (dl_callbacks (fst s')) = (omap_find (dl_callbacks (fst s)))(rid \<mapsto> Some f) \<and>
      mset (pending s') = add_mset f (mset (pending s))"
proof -
  obtain d l where s: "s = (d, l)" by (cases s)
  obtain t l' where n: "new_handle (UvTimer timeout) (Cb_request_timeout rid kind) l = (t, l')" by fastforce
  have set: "SetTimeout rc (Cb_request_timeout rid kind) timeout l = Inr (t, l')"
    using assms(1) n by (simp add: SetTimeout_def uv_timer_ok_def)
  note inv = assms(2) [unfolded s]
  note l' = new_handle_laws [OF delegate_invD(3) [OF inv] n]
  have tn: "omap_find (dl_timers d) rid = None"
    using delegate_invD(4) [OF inv, of rid] assms(3) by (simp add: s)
  let ?d = "d\<lparr>dl_callbacks := omap_set rid (Some f) (dl_callbacks d), dl_timers := omap_set rid t (dl_timers d)\<rparr>"
  have "delegate_inv (?d, l')"
  proof (rule delegate_invI)
    fix r u
    show "omap_find (dl_timers ?d) r = Some u \<Longrightarrow> \<exists>kind. open_handles l' u = Some (Cb_request_timeout r kind)"
      using delegate_invD(6) [OF inv, of r u] l'(2,3) by (auto split: if_splits)
    fix k
    show "open_handles l' u = Some (Cb_request_timeout r k) \<Longrightarrow> omap_find (dl_timers ?d) r = Some u"
      using delegate_invD(7) [OF inv, of u r k] l'(3) tn by (auto split: if_splits)
  qed (use inv l'(1) in \<open>simp_all add: omap_wf_set delegate_invD\<close>)
  moreover have "mset (pending (?d, l')) = add_mset f (mset (pending s))"
    using omap_set_fresh_values [OF assms(3), of "Some f"] by (simp add: pending_mset s)
  ultimately show ?thesis
    using set assms(3) tn by (simp add: s Delegate_Request_def SetCallback_def)
qed

lemma OnResponse_step:
  assumes "delegate_inv s" "omap_find (dl_callbacks (fst s)) rid = Some cb"
  shows "\<exists>f s'. cb = Some f \<and> OnResponse rid kind cde body s =
      Inr ([Run_closure f cde (if cde \<noteq> code_value OK then body else None)
             (if cde = code_value OK then body else None)], s') \<and>
      delegate_inv s' \<and> omap_find (dl_callbacks (fst s')) = (omap_find (dl_callbacks (fst s)))(rid := None) \<and>
      mset (pending s) = add_mset f (mset (pending s'))"
proof -
  obtain d l where s: "s = (d, l)" by (cases s)
  note inv = assms(1) [unfolded s]
  obtain f where f: "cb = Some f"
    using delegate_invD(5) [OF inv, of rid] assms(2) by (cases cb) (simp_all add: s)
  obtain t where t: "omap_find (dl_timers d) rid = Some t"
    using delegate_invD(4) [OF inv, of rid] assms(2) by (cases "omap_find (dl_timers d) rid") (simp_all add: s)
  obtain k where k: "open_handles l t = Some (Cb_request_timeout rid k)"
    using delegate_invD(6) [OF inv t] by blast
  then obtain l' where l': "ClearTimeout t l = Inr l'"
    using timeouts.clear_open [of l t] by auto
  note l'' = timeouts.clear_wf [OF delegate_invD(3) [OF inv] l'] timeouts.clear_closed [OF l']
  let ?d = "d\<lparr>dl_timers := omap_erase rid (dl_timers d), dl_callbacks := omap_erase rid (dl_callbacks d)\<rparr>"
  have "delegate_inv (?d, l')"
  proof (rule delegate_invI)
    fix r u
    show "omap_find (dl_timers ?d) r = Some u \<Longrightarrow> \<exists>kind. open_handles l' u = Some (Cb_request_timeout r kind)"
      using delegate_invD(6) [OF inv, of r u] k l''(2) by (auto split: if_splits)
    fix j
    show "open_handles l' u = Some (Cb_request_timeout r j) \<Longrightarrow> omap_find (dl_timers ?d) r = Some u"
      using delegate_invD(7) [OF inv, of u r j] t l''(2) by (auto split: if_splits)
  qed (use inv l''(1) in \<open>simp_all add: omap_wf_erase delegate_invD\<close>)
  moreover have "mset (pending s) = add_mset f (mset (pending (?d, l')))"
    using omap_erase_values [OF delegate_invD(1) [OF inv], of rid "Some f"] assms(2) f
    by (simp add: pending_mset s)
  ultimately show ?thesis
    using f t l' assms(2) by (simp add: s OnResponse_def)
qed

lemma delegate_inv_open:
  assumes "delegate_inv (d, l)" "open_handles l' = open_handles l" "uv_loop_wf l'"
  shows "delegate_inv (d, l')"
  using assms(1,3) unfolding delegate_inv_def fst_conv snd_conv assms(2) by blast

lemma Timer_step:
  fixes s :: "'c delegate_state"
  assumes "delegate_inv s"
  shows "\<exists>es s'. delegate_step rc (In_Timer t :: ('c, 'm) delegate_input) s = Inr (es, s') \<and> delegate_inv s' \<and>
    mset (pending s) = mset (closures_run es) + mset (pending s') \<and>
    dom (omap_find (dl_callbacks (fst s'))) \<subseteq> dom (omap_find (dl_callbacks (fst s)))"
proof (cases "may_fire (snd s) t")
  case False
  then show ?thesis using assms by (simp add: delegate_step_def)
next
  case True
  obtain d l where s: "s = (d, l)" by (cases s)
  note inv = assms [unfolded s]
  obtain cb l1 where l1: "TimerCb t l = Inr (cb, l1)" "open_handles l t = Some cb"
      "open_handles l1 = open_handles l" "uv_loop_wf l1"
    using TimerCb_open [of l t] True delegate_invD(3) [OF inv] by (auto simp: s)
  have inv1: "delegate_inv (d, l1)" using delegate_inv_open [OF inv l1(3,4)] .
  show ?thesis
  proof (cases cb)
    case Cb_read_immediate
    then show ?thesis using True l1 inv1 by (simp add: s delegate_step_def pending_def)
  next
    case (Cb_request_timeout rid kind)
    then have "omap_find (dl_timers d) rid = Some t" using delegate_invD(7) [OF inv] l1(2) by simp
    then obtain cl where "omap_find (dl_callbacks d) rid = Some cl"
      using delegate_invD(4) [OF inv, of rid] by (cases "omap_find (dl_callbacks d) rid") simp_all
    then obtain f s' where f: "OnResponse rid kind (code_value TIMEOUT) (None :: 'm option) (d, l1) =
        Inr ([Run_closure f (code_value TIMEOUT) None None], s')" "delegate_inv s'"
        "omap_find (dl_callbacks (fst s')) = (omap_find (dl_callbacks d))(rid := None)"
        "mset (pending (d, l1)) = add_mset f (mset (pending s'))"
      using OnResponse_step [OF inv1, of rid cl kind "code_value TIMEOUT" "None :: 'm option"] by auto
    then show ?thesis
      using True l1 Cb_request_timeout by (auto simp: s delegate_step_def request_timeout_callback_def pending_def)
  qed
qed

lemma clear_timers_ok:
  "uv_loop_wf l \<Longrightarrow> distinct (map snd ts) \<Longrightarrow> (\<And>r t. (r, t) \<in> set ts \<Longrightarrow> open_handles l t \<noteq> None) \<Longrightarrow>
   \<exists>l'. clear_timers ts l = Inr l' \<and> uv_loop_wf l' \<and>
     open_handles l' = (\<lambda>i. if i \<in> snd ` set ts then None else open_handles l i)"
proof (induction ts arbitrary: l)
  case Nil
  then show ?case by simp
next
  case (Cons p ts)
  obtain r t where p: "p = (r, t)" by (cases p)
  from Cons.prems(3) [of r t] p obtain l1 where l1: "ClearTimeout t l = Inr l1"
    using timeouts.clear_open [of l t] by auto
  note l1' = timeouts.clear_wf [OF Cons.prems(1) l1] timeouts.clear_closed [OF l1]
  have "open_handles l1 u \<noteq> None" if "(q, u) \<in> set ts" for q u
  proof -
    have "u \<noteq> t" using that Cons.prems(2) p by force
    then show ?thesis using that Cons.prems(3) [of q u] l1'(2) by simp
  qed
  moreover have "distinct (map snd ts)" using Cons.prems(2) by simp
  ultimately obtain l' where l': "clear_timers ts l1 = Inr l'" "uv_loop_wf l'"
      "open_handles l' = (\<lambda>i. if i \<in> snd ` set ts then None else open_handles l1 i)"
    using Cons.IH [OF l1'(1)] by blast
  then show ?case using l1 l1'(2) p by (auto simp: fun_eq_iff)
qed

lemma reset_callbacks_ok:
  fixes cs :: "(RequestId, 'c option) omap"
  shows "(\<And>r. (r, None) \<notin> set cs) \<Longrightarrow>
   \<exists>es :: ('c, 'm) delegate_effect list. reset_callbacks cs = Inr es \<and> closures_run es = map (the \<circ> snd) cs"
proof (induction cs)
  case (Cons p cs)
  obtain r c where p: "p = (r, c)" by (cases p)
  obtain f where "c = Some f" using Cons.prems [of r] p by (cases c) auto
  moreover obtain es :: "('c, 'm) delegate_effect list" where "reset_callbacks cs = Inr es" "closures_run es = map (the \<circ> snd) cs"
    using Cons.IH Cons.prems by auto
  ultimately show ?case using p by auto
qed simp

lemma Destroy_step:
  fixes s :: "'c delegate_state"
  assumes "delegate_inv s"
  shows "\<exists>(es :: ('c, 'm) delegate_effect list) s'. Delegate_destroy s = Inr (es, s') \<and> delegate_inv s' \<and> dl_callbacks (fst s') = [] \<and>
    closures_run es = pending s \<and> (\<forall>t rid kind. open_handles (snd s') t \<noteq> Some (Cb_request_timeout rid kind))"
proof -
  obtain d l where s: "s = (d, l)" by (cases s)
  note inv = assms [unfolded s]
  have in_timers: "(r, t) \<in> set (dl_timers d) \<longleftrightarrow> omap_find (dl_timers d) r = Some t" for r t
    using omaps.entries_iff [OF delegate_invD(2) [OF inv]] .
  have in_cb: "(r, c) \<in> set (dl_callbacks d) \<longleftrightarrow> omap_find (dl_callbacks d) r = Some c" for r c
    using omaps.entries_iff [OF delegate_invD(1) [OF inv]] .
  have "r = q" if "(r, t) \<in> set (dl_timers d)" "(q, t) \<in> set (dl_timers d)" for r q t
    using delegate_invD(6) [OF inv, of r t] delegate_invD(6) [OF inv, of q t] that by (auto simp: in_timers)
  then have dist: "distinct (map snd (dl_timers d))"
    using omap_wf_distinct [OF delegate_invD(2) [OF inv]] by (intro distinct_values) auto
  have "open_handles l t \<noteq> None" if "(r, t) \<in> set (dl_timers d)" for r t
    using delegate_invD(6) [OF inv, of r t] that by (auto simp: in_timers)
  then obtain l' where l': "clear_timers (dl_timers d) l = Inr l'" "uv_loop_wf l'"
      "open_handles l' = (\<lambda>i. if i \<in> snd ` set (dl_timers d) then None else open_handles l i)"
    using clear_timers_ok [OF delegate_invD(3) [OF inv] dist] by blast
  have none: "open_handles l' t \<noteq> Some (Cb_request_timeout rid kind)" for t rid kind
    using delegate_invD(7) [OF inv, of t rid kind] l'(3) in_timers [of rid t] by (auto intro: rev_image_eqI)
  obtain es :: "('c, 'm) delegate_effect list" where es: "reset_callbacks (dl_callbacks d) = Inr es" "closures_run es = pending s"
    using reset_callbacks_ok [of "dl_callbacks d"] delegate_invD(5) [OF inv]
    by (auto simp: in_cb pending_def s)
  have "delegate_inv (d\<lparr>dl_timers := [], dl_callbacks := []\<rparr>, l')"
    by (rule delegate_invI) (use l'(2) none in auto)
  then show ?thesis using l'(1) es none by (auto simp: s Delegate_destroy_def)
qed

lemma Response_any:
  assumes "delegate_inv s"
  shows "\<exists>es s'. OnResponse rid kind cde body s = Inr (es, s') \<and> delegate_inv s' \<and>
    mset (pending s) = mset (closures_run es) + mset (pending s') \<and>
    dom (omap_find (dl_callbacks (fst s'))) \<subseteq> dom (omap_find (dl_callbacks (fst s)))"
proof (cases "omap_find (dl_callbacks (fst s)) rid")
  case None
  then have "OnResponse rid kind cde body s = Inr ([], s)" by (cases s) (simp add: OnResponse_def)
  with assms show ?thesis by simp
next
  case (Some cb)
  from OnResponse_step [OF assms Some, of kind cde body] show ?thesis by auto
qed

lemma delegate_step_ok:
  assumes "uv_timer_ok rc" "delegate_inv s"
    and "\<forall>rid\<in>set (map fst (requested [i])). omap_find (dl_callbacks (fst s)) rid = None"
  shows "\<exists>es s'. delegate_step rc i s = Inr (es, s') \<and> delegate_inv s' \<and>
    mset (map snd (requested [i])) + mset (pending s) = mset (closures_run es) + mset (pending s') \<and>
    dom (omap_find (dl_callbacks (fst s'))) \<subseteq> dom (omap_find (dl_callbacks (fst s))) \<union> set (map fst (requested [i]))"
proof (cases i)
  case (In_Request rid kind body f timeout)
  from Request_step [OF assms(1,2), of rid kind body f timeout] assms(3) In_Request
  show ?thesis by (auto simp: delegate_step_def)
next
  case (In_Response rid kind cde body)
  from Response_any [OF assms(2), of rid kind cde body] In_Response show ?thesis
    by (auto simp: delegate_step_def)
next
  case (In_Timer t)
  from Timer_step [OF assms(2), of rc t] In_Timer show ?thesis by auto
next
  case (In_Close_callback t)
  obtain d l where s: "s = (d, l)" by (cases s)
  have "delegate_inv (d, CloseCb t l)" if "may_release l t"
    using assms(2) CloseCb_open [OF that] CloseCb_wf [of l t] delegate_invD(3) by (auto simp: s intro: delegate_inv_open)
  then show ?thesis using In_Close_callback assms(2) by (auto simp: s delegate_step_def pending_def)
next
  case In_Destroy
  obtain es :: "('a, 'b) delegate_effect list" and s' where
      "Delegate_destroy s = Inr (es, s')" "delegate_inv s'" "dl_callbacks (fst s') = []" "closures_run es = pending s"
    using Destroy_step [OF assms(2)] by blast
  then show ?thesis using In_Destroy by (auto simp: delegate_step_def pending_def)
qed

lemma requested_Cons: "requested (i # is) = requested [i] @ requested is"
  by (cases i) simp_all

lemma delegate_run_ok:
  assumes "uv_timer_ok rc"
  shows "delegate_inv s \<Longrightarrow> distinct (map fst (requested inputs)) \<Longrightarrow>
    \<forall>rid\<in>set (map fst (requested inputs)). omap_find (dl_callbacks (fst s)) rid = None \<Longrightarrow>
    \<exists>es s'. delegate_run rc inputs s = Inr (es, s') \<and> delegate_inv s' \<and>
      mset (map snd (requested inputs)) + mset (pending s) = mset (closures_run es) + mset (pending s')"
proof (induction inputs arbitrary: s)
  case Nil
  then show ?case by simp
next
  case (Cons i inputs)
  have req: "requested (i # inputs) = requested [i] @ requested inputs" by (rule requested_Cons)
  obtain es1 s1 where s1: "delegate_step rc i s = Inr (es1, s1)" "delegate_inv s1"
      "mset (map snd (requested [i])) + mset (pending s) = mset (closures_run es1) + mset (pending s1)"
      "dom (omap_find (dl_callbacks (fst s1))) \<subseteq> dom (omap_find (dl_callbacks (fst s))) \<union> set (map fst (requested [i]))"
    using delegate_step_ok [OF assms Cons.prems(1), of i] Cons.prems(3) unfolding req by auto
  have "\<forall>rid\<in>set (map fst (requested inputs)). omap_find (dl_callbacks (fst s1)) rid = None"
  proof
    fix rid assume *: "rid \<in> set (map fst (requested inputs))"
    then have "rid \<notin> set (map fst (requested [i]))" using Cons.prems(2) unfolding req by auto
    moreover have "omap_find (dl_callbacks (fst s)) rid = None" using * Cons.prems(3) unfolding req by auto
    ultimately show "omap_find (dl_callbacks (fst s1)) rid = None" using s1(4) by auto
  qed
  moreover have "distinct (map fst (requested inputs))" using Cons.prems(2) unfolding req by simp
  ultimately obtain es s' where s': "delegate_run rc inputs s1 = Inr (es, s')" "delegate_inv s'"
      "mset (map snd (requested inputs)) + mset (pending s1) = mset (closures_run es) + mset (pending s')"
    using Cons.IH [OF s1(2)] by blast
  have "mset (map snd (requested (i # inputs))) + mset (pending s) = mset (closures_run (es1 @ es)) + mset (pending s')"
    using union_chain [OF s1(3) s'(3)] unfolding req by simp
  then show ?case using s1(1) s'(1,2) by auto
qed

lemma delegate_run_append:
  "delegate_run rc (a @ b) s =
     obind (delegate_run rc a s) (\<lambda>(es, s). obind (delegate_run rc b s) (\<lambda>(es', s). Inr (es @ es', s)))"
proof (induction a arbitrary: s)
  case Nil
  show ?case by (cases "delegate_run rc b s") auto
next
  case (Cons i a)
  show ?case
  proof (cases "delegate_step rc i s")
    case (Inr p)
    obtain es s1 where p: "p = (es, s1)" by (cases p)
    show ?thesis
    proof (cases "delegate_run rc a s1")
      case Inr': (Inr q)
      obtain es2 s2 where q: "q = (es2, s2)" by (cases q)
      show ?thesis using Inr Inr' p q Cons.IH [of s1] by (cases "delegate_run rc b s2") auto
    qed (use Inr p Cons.IH [of s1] in simp)
  qed simp
qed

lemma requested_append [simp]: "requested (a @ b) = requested a @ requested b"
  by (induction a rule: requested.induct) auto

section \<open>Reachable states\<close>

text \<open>A state with the effects so far.\<close>

type_synonym ('c, 'm) delegate_history = "('c, 'm) delegate_effect list \<times> 'c delegate_state"

inductive delegate_trans :: "uv_status \<Rightarrow> ('c, 'm) delegate_history \<Rightarrow> ('c, 'm) delegate_history \<Rightarrow> bool" for rc where
  "delegate_step rc i s = Inr (es, s') \<Longrightarrow> delegate_trans rc (tr, s) (tr @ es, s')"

inductive_cases delegate_transE: "delegate_trans rc h h'"

lemma delegate_request_Inr:
  assumes "Delegate_Request rc True rid kind body f timeout s = Inr (es, s')"
  shows "uv_timer_ok rc" "omap_find (dl_callbacks (fst s)) rid = None"
proof -
  obtain d l where s: "s = (d, l)" by (cases s)
  obtain t l' d' where "SetTimeout rc (Cb_request_timeout rid kind) timeout l = Inr (t, l')"
      "SetCallback rid f t d = Inr d'"
    using assms by (auto simp: s Delegate_Request_def obind_eq_Inr)
  then show "uv_timer_ok rc" "omap_find (dl_callbacks (fst s)) rid = None"
    by (auto simp: s SetTimeout_def SetCallback_def uv_timer_ok_def obind_eq_Inr)
qed

lemma delegate_step_inv:
  assumes "delegate_inv s" "delegate_step rc i s = Inr (es, s')"
  shows "delegate_inv s'"
proof (cases "\<exists>rid kind body f timeout. i = In_Request rid kind body f timeout")
  case True
  then obtain rid kind body f timeout where i: "i = In_Request rid kind body f timeout" by blast
  then have r: "Delegate_Request rc True rid kind body (Some f) timeout s = Inr (es, s')"
    using assms(2) by (simp add: delegate_step_def)
  from Request_step [OF delegate_request_Inr(1) [OF r] assms(1) delegate_request_Inr(2) [OF r], of kind body f timeout] r
  show ?thesis by auto
next
  case False
  then have "requested [i] = []" by (cases i) auto
  moreover have "delegate_step rc i s = delegate_step uv_ok i s"
    using False by (cases i) (auto simp: delegate_step_def)
  ultimately show ?thesis
    using delegate_step_ok [of uv_ok s i] assms by (auto simp: uv_timer_ok_def uv_ok_def)
qed

interpretation delegate_sys: invariant_system "\<lambda>h. h = ([], delegate_init, uv_loop_init)" "delegate_trans rc"
    "\<lambda>h. delegate_inv (snd h)"
  for rc
proof unfold_locales
  show "h = ([], delegate_init, uv_loop_init) \<Longrightarrow> delegate_inv (snd h)" for h :: "('a, 'b) delegate_history"
    by (simp add: delegate_init_inv)
  show "delegate_inv (snd h) \<Longrightarrow> delegate_trans rc h h' \<Longrightarrow> delegate_inv (snd h')" for h h' :: "('a, 'b) delegate_history"
    by (erule delegate_transE) (simp add: delegate_step_inv)
qed

lemma uv_ok_timer [simp]: "uv_timer_ok uv_ok"
  by (simp add: uv_timer_ok_def uv_ok_def)



text \<open>
  C7: answers find their request. In every reachable state, a response to a pending id runs
  the closure registered under that id with the response's own code, its body as the error
  or as the result according to the code, and leaves every other pending request untouched;
  an answer whose id is not pending, as after a timeout or a first answer, does nothing.
\<close>

theorem delegate_response_correlation:
  fixes body :: "'m option"
  assumes "(delegate_trans rc)\<^sup>*\<^sup>* ([], delegate_init, uv_loop_init) (tr :: ('c, 'm) delegate_effect list, s)"
    and "omap_find (dl_callbacks (fst s)) rid = Some cb"
  shows "\<exists>f s'. cb = Some f \<and> OnResponse rid kind cde body s =
      Inr ([Run_closure f cde (if cde \<noteq> code_value OK then body else None)
             (if cde = code_value OK then body else None)], s') \<and>
      omap_find (dl_callbacks (fst s')) = (omap_find (dl_callbacks (fst s)))(rid := None) \<and>
      OnResponse rid kind' cde' body' s' = (Inr ([], s') :: (('c, 'm) delegate_effect list \<times> 'c delegate_state) outcome)"
proof -
  have "delegate_inv s" using delegate_sys.inv_reachable [OF refl assms(1)] by simp
  from OnResponse_step [OF this assms(2), of kind cde body] obtain f s' where f: "cb = Some f"
      "OnResponse rid kind cde body s = Inr ([Run_closure f cde (if cde \<noteq> code_value OK then body else None)
             (if cde = code_value OK then body else None)], s')"
      "omap_find (dl_callbacks (fst s')) = (omap_find (dl_callbacks (fst s)))(rid := None)" by blast
  moreover have "OnResponse rid kind' cde' body' s' = Inr ([], s')"
    using f(3) by (cases s') (simp add: OnResponse_def)
  ultimately show ?thesis by blast
qed

lemma request_reachable:
  "delegate_step rc i (delegate_init, uv_loop_init) = Inr (es, s) \<Longrightarrow>
   (delegate_trans rc)\<^sup>*\<^sup>* ([], delegate_init, uv_loop_init) (es, s)"
  using delegate_trans.intros [of rc i "(delegate_init, uv_loop_init)" es s "[]"] by auto

theorem delegate_response_correlation_witness:
  "\<exists>es s. delegate_step uv_ok (In_Request 5 11 ''req'' ''f'' 1000) (delegate_init, uv_loop_init) = Inr (es, s) \<and>
     (\<exists>g s'. Some ''f'' = Some g \<and> OnResponse 5 11 2 (Some ''boom'') s = Inr ([Run_closure g 2 (Some ''boom'') None], s') \<and>
        OnResponse 5 11 0 (Some ''late'') s' = (Inr ([], s') :: ((string, string) delegate_effect list \<times> string delegate_state) outcome))"
proof -
  obtain s where s: "Delegate_Request uv_ok True 5 11 ''req'' (Some ''f'') 1000 (delegate_init, uv_loop_init) =
      Inr ([Socket_Write Request 5 11 ''req'' (code_value OK)], s)"
      "omap_find (dl_callbacks (fst s)) = (omap_find (dl_callbacks delegate_init))(5 \<mapsto> Some ''f'')"
    using Request_step [OF uv_ok_timer delegate_init_inv, of 5 11 "''req''" "''f''" 1000]
    by (auto simp: delegate_init_def)
  then have step: "delegate_step uv_ok (In_Request 5 11 ''req'' ''f'' 1000) (delegate_init, uv_loop_init) =
      Inr ([Socket_Write Request 5 11 ''req'' (code_value OK)], s)" by (simp add: delegate_step_def)
  show ?thesis
    using delegate_response_correlation [OF request_reachable [OF step], of 5 "Some ''f''" 11 2 "Some ''boom''" 11 0 "Some ''late''"]
      s(2) step by auto
qed

fun controller_ids :: "nat \<Rightarrow> NoslatedService \<Rightarrow> RequestId list" where
  "controller_ids 0 s = []"
| "controller_ids (Suc n) s =
     (case NewControllerWithTimeout 0 0 s of (c, s) \<Rightarrow> rpc_request_id c # controller_ids n s)"

lemma controller_ids_eq: "controller_ids n s = map (\<lambda>i. svc_seq s + of_nat i) [0..<n]"
proof (induction n arbitrary: s)
  case (Suc n)
  have "[0..<Suc n] = 0 # map Suc [0..<n]" by (simp add: upt_conv_Cons map_Suc_upt del: upt_Suc)
  then show ?case using Suc by (simp add: NewControllerWithTimeout_def next_seq_def comp_def ac_simps del: upt_Suc)
qed simp

text \<open>
  C16: request ids are not reused early: the ids of \<open>n\<close> consecutive controllers of a service
  are pairwise distinct exactly as long as \<open>n\<close> does not exceed \<open>2 ^ 32\<close>, whatever value the
  wrapping counter starts from. So the \<open>CHECK\<close>s of \<open>SetCallback\<close> can only fail when a request
  is still pending after \<open>2 ^ 32\<close> later ones.
\<close>

theorem service_ids_distinct: "distinct (controller_ids n s) \<longleftrightarrow> n \<le> 2 ^ 32"
proof
  assume "distinct (controller_ids n s)"
  then have "card (set (controller_ids n s)) = n"
    using distinct_card [of "controller_ids n s"] by (simp only: controller_ids_eq length_map length_upt diff_zero)
  moreover have "card (set (controller_ids n s)) \<le> card (UNIV :: u32 set)"
    by (rule card_mono) simp_all
  ultimately show "n \<le> 2 ^ 32" by (simp only: card_word len_of_numeral_defs) simp
next
  assume n: "n \<le> 2 ^ 32"
  have "i = j" if "i < n" "j < n" "svc_seq s + of_nat i = svc_seq s + of_nat j" for i j
    by (rule of_nat_u32_inj) (use that n in simp_all)
  then have "inj_on (\<lambda>i. svc_seq s + of_nat i) (set [0..<n])"
    by (auto simp: inj_on_def)
  then show "distinct (controller_ids n s)"
    by (simp only: controller_ids_eq distinct_map distinct_upt simp_thms)
qed

end
