(* ===== verification/JsValue.thy ===== *)
theory JsValue
  imports Prelude
begin

text \<open>
  The JavaScript values that cross the native boundary, as far as the native code looks at
  them, and the V8 conversions it applies. A string is its UTF-8 text; objects and arrays
  are plain data (no getters). \<open>As\<close> is V8's unchecked cast: on a value of another type the
  result is undefined, here the abort \<open>Bad_cast\<close>.
\<close>

record typed_array =
  ta_has_buffer :: bool
  ta_backing :: bytes
  ta_byte_offset :: nat
  ta_byte_length :: nat

datatype jsval =
    JUndefined
  | JNumber int
  | JBoolean bool
  | JString string
  | JArray "jsval list"
  | JObject "(string \<times> jsval) list"
  | JArrayBuffer bytes
  | JUint8Array typed_array
  | JError string "(string \<times> jsval) list"

text \<open>Strings that pass through a C string end at the first NUL.\<close>

definition c_str :: "string \<Rightarrow> string" where
  "c_str s = takeWhile (\<lambda>c. c \<noteq> CHR 0x00) s"

definition NewFromUtf8 :: "string \<Rightarrow> jsval" where
  "NewFromUtf8 s = JString (c_str s)"

definition js_Get :: "jsval \<Rightarrow> string \<Rightarrow> jsval outcome" where
  "js_Get v k =
     (case v of
        JObject fs \<Rightarrow> Inr (case map_of fs k of None \<Rightarrow> JUndefined | Some x \<Rightarrow> x)
      | JError m fs \<Rightarrow> Inr (case map_of fs k of None \<Rightarrow> JUndefined | Some x \<Rightarrow> x)
      | _ \<Rightarrow> Inl Bad_cast)"

definition js_Has :: "jsval \<Rightarrow> string \<Rightarrow> bool outcome" where
  "js_Has v k = (case v of JObject fs \<Rightarrow> Inr (map_of fs k \<noteq> None) | _ \<Rightarrow> Inl Bad_cast)"

definition js_Index :: "jsval \<Rightarrow> nat \<Rightarrow> jsval outcome" where
  "js_Index v i =
     (case v of JArray xs \<Rightarrow> Inr (if i < length xs then xs ! i else JUndefined) | _ \<Rightarrow> Inl Bad_cast)"

definition js_Length :: "jsval \<Rightarrow> nat outcome" where
  "js_Length v = (case v of JArray xs \<Rightarrow> Inr (length xs) | _ \<Rightarrow> Inl Bad_cast)"

definition as_String :: "jsval \<Rightarrow> string outcome" where
  "as_String v = (case v of JString s \<Rightarrow> Inr (c_str s) | _ \<Rightarrow> Inl Bad_cast)"

definition as_Uint32 :: "jsval \<Rightarrow> u32 outcome" where
  "as_Uint32 v = (case v of JNumber n \<Rightarrow> Inr (of_int n) | _ \<Rightarrow> Inl Bad_cast)"

definition as_Int32 :: "jsval \<Rightarrow> int outcome" where
  "as_Int32 v = (case v of JNumber n \<Rightarrow> Inr (sint (of_int n :: u32)) | _ \<Rightarrow> Inl Bad_cast)"

definition as_Boolean :: "jsval \<Rightarrow> bool outcome" where
  "as_Boolean v = (case v of JBoolean b \<Rightarrow> Inr b | _ \<Rightarrow> Inl Bad_cast)"

definition as_Uint8Array :: "jsval \<Rightarrow> typed_array outcome" where
  "as_Uint8Array v = (case v of JUint8Array a \<Rightarrow> Inr a | _ \<Rightarrow> Inl Bad_cast)"

text \<open>The bytes a view shows of its backing store.\<close>

definition view_bytes :: "typed_array \<Rightarrow> bytes" where
  "view_bytes a = take (ta_byte_length a) (drop (ta_byte_offset a) (ta_backing a))"

fun js_Set :: "string \<Rightarrow> jsval \<Rightarrow> (string \<times> jsval) list \<Rightarrow> (string \<times> jsval) list" where
  "js_Set k v [] = [(k, v)]"
| "js_Set k v ((k', v') # fs) = (if k' = k then (k, v) # fs else (k', v') # js_Set k v fs)"

definition uint32_number :: "u32 \<Rightarrow> jsval" where
  "uint32_number w = JNumber (uint w)"

lemma as_Uint32_number [simp]: "as_Uint32 (uint32_number w) = Inr w"
  by (simp add: as_Uint32_def uint32_number_def)

lemma as_String_JString [simp]: "as_String (JString s) = Inr (c_str s)"
  by (simp add: as_String_def)

lemma c_str_idem [simp]: "c_str (c_str s) = c_str s"
  by (simp add: c_str_def takeWhile_idem)

lemma js_Set_lookup: "map_of (js_Set k v fs) = (map_of fs)(k \<mapsto> v)"
  by (induction fs rule: js_Set.induct) (auto simp: fun_eq_iff)

end
