(* ===== verification/DataChannel.thy ===== *)
theory DataChannel
  imports IpcDelegate JsValue
begin

text \<open>
  The worker's channel to its agent, src/src/agent_channel/noslated_data_channel.cc: the
  translation between JavaScript parameters and the messages of src/src/proto/noslated.proto, the
  calls JavaScript makes and their answers, the requests of the agent and JavaScript's
  feedback, and the reference count that keeps the socket's handle alive. The channel runs
  on the models of \<open>NoslatedService\<close> and \<open>DelegateImpl\<close>. JavaScript functions called by the
  channel are effects; they return before the next operation.
\<close>

section \<open>Messages\<close>

type_synonym key_values = "(string \<times> string) list"

record trigger_request =
  tr_method :: string
  tr_url :: "string option"
  tr_meta_method :: "string option"
  tr_headers :: key_values
  tr_baggage :: key_values
  tr_sid :: "u32 option"
  tr_has_input_data :: "bool option"
  tr_has_output_data :: "bool option"

datatype message =
    Error_response "string option" "string option"
  | Fetch_request string string key_values "u32 option" u32
  | Fetch_response int key_values u32
  | FetchAbort_request u32
  | FetchAbort_response
  | StreamOpen_request
  | StreamOpen_response u32
  | StreamPush_request u32 bool "bytes option" "bool option"
  | StreamPush_response
  | CollectMetrics_request
  | CollectMetrics_response "(string \<times> key_values \<times> nat) list"
  | Trigger_request trigger_request
  | Trigger_response int key_values
  | DaprInvoke_request string string bytes
  | DaprInvoke_response int bytes
  | DaprBinding_request string key_values string bytes
  | DaprBinding_response int bytes key_values
  | ExtensionBinding_request string string string bytes
  | ExtensionBinding_response int "bytes option"
  | ResourceNotification_request string string
  | ResourceNotification_response
  | ResourcePut_request int string string
  | ResourcePut_response bool "string option"
  | Credentials_request string nat
  | Credentials_response

section \<open>Calls of JavaScript: parameters to request, response to result\<close>

datatype channel_method = M_fetch | M_fetchAbort | M_streamOpen | M_streamPush | M_daprInvoke
  | M_daprBinding | M_extensionBinding | M_resourcePut

definition get_string :: "jsval \<Rightarrow> string \<Rightarrow> string outcome" where
  "get_string params k = obind (js_Get params k) as_String"

fun read_headers :: "jsval list \<Rightarrow> key_values outcome" where
  "read_headers [] = Inr []"
| "read_headers [k] = obind (as_String k) (\<lambda>_. Inl Bad_cast)"
| "read_headers (k # v # hs) =
     obind (as_String k) (\<lambda>k. obind (as_String v) (\<lambda>v. obind (read_headers hs) (\<lambda>r. Inr ((k, v) # r))))"

definition flat_headers :: "key_values \<Rightarrow> jsval" where
  "flat_headers kvs = JArray (concat (map (\<lambda>(k, v). [NewFromUtf8 k, NewFromUtf8 v]) kvs))"

definition CallFetch_request :: "jsval \<Rightarrow> message outcome" where
  "CallFetch_request params =
     obind (get_string params ''url'') (\<lambda>url.
     obind (get_string params ''method'') (\<lambda>method.
     obind (js_Get params ''headers'') (\<lambda>headers.
     obind (js_Get params ''requestId'') (\<lambda>request_id.
     obind (js_Has params ''sid'') (\<lambda>has_sid.
     obind (if has_sid then obind (js_Get params ''sid'') (\<lambda>v. obind (as_Uint32 v) (\<lambda>sid. Inr (Some sid)))
            else Inr None) (\<lambda>sid.
     obind (as_Uint32 request_id) (\<lambda>rid.
     obind (case headers of JArray hs \<Rightarrow> read_headers hs | _ \<Rightarrow> Inl Bad_cast) (\<lambda>hs.
     Inr (Fetch_request url method hs sid rid)))))))))"

definition CallFetch_response :: "message \<Rightarrow> jsval outcome" where
  "CallFetch_response m =
     (case m of
        Fetch_response status headers sid \<Rightarrow>
          Inr (JObject [(''status'', JNumber status), (''headers'', flat_headers headers),
                        (''sid'', uint32_number sid)])
      | _ \<Rightarrow> Inl Bad_cast)"

definition CallFetchAbort_request :: "jsval \<Rightarrow> message outcome" where
  "CallFetchAbort_request params =
     obind (js_Get params ''requestId'') (\<lambda>v. obind (as_Uint32 v) (\<lambda>rid. Inr (FetchAbort_request rid)))"

definition CallFetchAbort_response :: "message \<Rightarrow> jsval outcome" where
  "CallFetchAbort_response m = Inr (JObject [])"

definition CallStreamOpen_request :: "jsval \<Rightarrow> message outcome" where
  "CallStreamOpen_request params = Inr StreamOpen_request"

definition CallStreamOpen_response :: "message \<Rightarrow> jsval outcome" where
  "CallStreamOpen_response m =
     (case m of StreamOpen_response sid \<Rightarrow> Inr (JObject [(''sid'', uint32_number sid)]) | _ \<Rightarrow> Inl Bad_cast)"

definition CallStreamPush_request :: "jsval \<Rightarrow> message outcome" where
  "CallStreamPush_request params =
     obind (js_Get params ''sid'') (\<lambda>sid.
     obind (obind (js_Get params ''isEos'') as_Boolean) (\<lambda>is_eos.
     obind (obind (js_Get params ''isError'') as_Boolean) (\<lambda>is_error.
     obind (as_Uint32 sid) (\<lambda>sid.
     obind (if \<not> is_eos
            then obind (js_Get params ''data'') (\<lambda>v. obind (as_Uint8Array v) (\<lambda>a. Inr (Some (view_bytes a))))
            else Inr None) (\<lambda>data.
     Inr (StreamPush_request sid is_eos data (Some is_error)))))))"

definition CallStreamPush_response :: "message \<Rightarrow> jsval outcome" where
  "CallStreamPush_response m = Inr JUndefined"

text \<open>The body of a call: the view's bytes if its buffer has been materialised, else nothing.\<close>

definition body_data :: "typed_array \<Rightarrow> bytes" where
  "body_data body = (if ta_has_buffer body then view_bytes body else [])"

definition CallDaprInvoke_request :: "jsval \<Rightarrow> message outcome" where
  "CallDaprInvoke_request params =
     obind (get_string params ''app'') (\<lambda>app.
     obind (get_string params ''method'') (\<lambda>method.
     obind (obind (js_Get params ''body'') as_Uint8Array) (\<lambda>body.
     Inr (DaprInvoke_request app method (body_data body)))))"

definition CallDaprInvoke_response :: "message \<Rightarrow> jsval outcome" where
  "CallDaprInvoke_response m =
     (case m of
        DaprInvoke_response status data \<Rightarrow>
          Inr (JObject [(''status'', JNumber status), (''body'', JArrayBuffer data)])
      | _ \<Rightarrow> Inl Bad_cast)"

fun read_properties :: "jsval \<Rightarrow> string list \<Rightarrow> key_values outcome" where
  "read_properties obj [] = Inr []"
| "read_properties obj (k # ks) =
     obind (get_string obj k) (\<lambda>v. obind (read_properties obj ks) (\<lambda>r. Inr ((c_str k, v) # r)))"

definition CallDaprBinding_request :: "jsval \<Rightarrow> message outcome" where
  "CallDaprBinding_request params =
     obind (get_string params ''name'') (\<lambda>name.
     obind (get_string params ''operation'') (\<lambda>operation.
     obind (obind (js_Get params ''body'') as_Uint8Array) (\<lambda>body.
     obind (js_Get params ''metadata'') (\<lambda>metadata.
     obind (case metadata of JObject fs \<Rightarrow> read_properties metadata (map fst fs) | _ \<Rightarrow> Inl Bad_cast) (\<lambda>kvs.
     Inr (DaprBinding_request name kvs operation (body_data body)))))))"

fun set_properties :: "key_values \<Rightarrow> (string \<times> jsval) list \<Rightarrow> (string \<times> jsval) list" where
  "set_properties [] fs = fs"
| "set_properties ((k, v) # kvs) fs = set_properties kvs (js_Set (c_str k) (NewFromUtf8 v) fs)"

definition CallDaprBinding_response :: "message \<Rightarrow> jsval outcome" where
  "CallDaprBinding_response m =
     (case m of
        DaprBinding_response status data metadata \<Rightarrow>
          Inr (JObject [(''status'', JNumber status), (''body'', JArrayBuffer data),
                        (''metadata'', JObject (set_properties metadata []))])
      | _ \<Rightarrow> Inl Bad_cast)"

definition CallExtensionBinding_request :: "jsval \<Rightarrow> message outcome" where
  "CallExtensionBinding_request params =
     obind (get_string params ''name'') (\<lambda>name.
     obind (get_string params ''metadata'') (\<lambda>metadata.
     obind (get_string params ''operation'') (\<lambda>operation.
     obind (obind (js_Get params ''body'') as_Uint8Array) (\<lambda>body.
     Inr (ExtensionBinding_request name metadata operation (body_data body))))))"

definition CallExtensionBinding_response :: "message \<Rightarrow> jsval outcome" where
  "CallExtensionBinding_response m =
     (case m of
        ExtensionBinding_response status data \<Rightarrow>
          Inr (JObject ((''status'', JNumber status) #
            (case data of None \<Rightarrow> [] | Some bs \<Rightarrow> [(''body'', JArrayBuffer bs)])))
      | _ \<Rightarrow> Inl Bad_cast)"

definition ResourcePutAction_IsValid :: "int \<Rightarrow> bool" where
  "ResourcePutAction_IsValid a = (a = 0 \<or> a = 1 \<or> a = 2)"

definition CallResourcePut_request :: "jsval \<Rightarrow> message outcome" where
  "CallResourcePut_request params =
     obind (obind (js_Get params ''action'') as_Int32) (\<lambda>action.
     obind (CHECK (ResourcePutAction_IsValid action)) (\<lambda>_.
     obind (get_string params ''resourceId'') (\<lambda>resource_id.
     obind (get_string params ''token'') (\<lambda>token.
     Inr (ResourcePut_request action resource_id token)))))"

definition CallResourcePut_response :: "message \<Rightarrow> jsval outcome" where
  "CallResourcePut_response m =
     (case m of
        ResourcePut_response ok token \<Rightarrow>
          Inr (JObject [(''success_or_acquired'', JBoolean ok),
                        (''token'', NewFromUtf8 (case token of None \<Rightarrow> [] | Some t \<Rightarrow> t))])
      | _ \<Rightarrow> Inl Bad_cast)"

fun call_request :: "channel_method \<Rightarrow> jsval \<Rightarrow> message outcome" where
  "call_request M_fetch = CallFetch_request"
| "call_request M_fetchAbort = CallFetchAbort_request"
| "call_request M_streamOpen = CallStreamOpen_request"
| "call_request M_streamPush = CallStreamPush_request"
| "call_request M_daprInvoke = CallDaprInvoke_request"
| "call_request M_daprBinding = CallDaprBinding_request"
| "call_request M_extensionBinding = CallExtensionBinding_request"
| "call_request M_resourcePut = CallResourcePut_request"

fun call_response :: "channel_method \<Rightarrow> message \<Rightarrow> jsval outcome" where
  "call_response M_fetch = CallFetch_response"
| "call_response M_fetchAbort = CallFetchAbort_response"
| "call_response M_streamOpen = CallStreamOpen_response"
| "call_response M_streamPush = CallStreamPush_response"
| "call_response M_daprInvoke = CallDaprInvoke_response"
| "call_response M_daprBinding = CallDaprBinding_response"
| "call_response M_extensionBinding = CallExtensionBinding_response"
| "call_response M_resourcePut = CallResourcePut_response"

fun call_kind :: "channel_method \<Rightarrow> RequestKind" where
  "call_kind M_fetch = Fetch"
| "call_kind M_fetchAbort = FetchAbort"
| "call_kind M_streamOpen = StreamOpen"
| "call_kind M_streamPush = StreamPush"
| "call_kind M_daprInvoke = DaprInvoke"
| "call_kind M_daprBinding = DaprBinding"
| "call_kind M_extensionBinding = ExtensionBinding"
| "call_kind M_resourcePut = ResourcePut"

section \<open>Errors for JavaScript\<close>

definition canonical_code_name :: "u32 \<Rightarrow> string" where
  "canonical_code_name c =
     (if c = code_value OK then ''OK''
      else if c = code_value INTERNAL_ERROR then ''INTERNAL_ERROR''
      else if c = code_value TIMEOUT then ''TIMEOUT''
      else if c = code_value NOT_IMPLEMENTED then ''NOT_IMPLEMENTED''
      else if c = code_value CONNECTION_RESET then ''CONNECTION_RESET''
      else if c = code_value CLIENT_ERROR then ''CLIENT_ERROR''
      else if c = code_value CANCELLED then ''CANCELLED''
      else [])"

definition CanonicalCode_IsValid :: "int \<Rightarrow> bool" where
  "CanonicalCode_IsValid c = (0 \<le> c \<and> c \<le> 6)"

definition error_message :: "message option \<Rightarrow> string option" where
  "error_message e = (case e of Some (Error_response m s) \<Rightarrow> m | _ \<Rightarrow> None)"

definition error_stack :: "message option \<Rightarrow> string option" where
  "error_stack e = (case e of Some (Error_response m s) \<Rightarrow> s | _ \<Rightarrow> None)"

definition ErrorMessageToJsError :: "u32 \<Rightarrow> message option \<Rightarrow> jsval" where
  "ErrorMessageToJsError cde error =
     (let msg = ''Noslated request failed with CanonicalCode::'' @ canonical_code_name cde;
          msg = (case error_message error of None \<Rightarrow> msg | Some m \<Rightarrow> msg @ '': '' @ m);
          peer_message = (case error_message error of None \<Rightarrow> [] | Some m \<Rightarrow> m);
          peer_stack = (case error_stack error of None \<Rightarrow> [] | Some s \<Rightarrow> s)
      in JError (c_str msg)
           [(''code'', uint32_number cde), (''peerMessage'', NewFromUtf8 peer_message),
            (''peerStack'', NewFromUtf8 peer_stack)])"

section \<open>Requests of the agent: message to event parameters, feedback to response\<close>

datatype agent_request = R_trigger | R_streamPush | R_resourceNotification

definition pairs_array :: "key_values \<Rightarrow> jsval" where
  "pairs_array kvs = JArray (map (\<lambda>(k, v). JArray [NewFromUtf8 k, NewFromUtf8 v]) kvs)"

definition Trigger_params :: "trigger_request \<Rightarrow> jsval" where
  "Trigger_params req =
     (let metadata =
            (case tr_url req of None \<Rightarrow> [] | Some u \<Rightarrow> [(''url'', NewFromUtf8 u)]) @
            (case tr_meta_method req of None \<Rightarrow> [] | Some m \<Rightarrow> [(''method'', NewFromUtf8 m)]) @
            [(''headers'', pairs_array (tr_headers req)), (''baggage'', pairs_array (tr_baggage req))]
      in JObject ([(''method'', NewFromUtf8 (tr_method req)), (''metadata'', JObject metadata),
            (''hasInputData'', JBoolean (tr_has_input_data req = Some True)),
            (''hasOutputData'', JBoolean (tr_has_output_data req = Some True))] @
            (case tr_sid req of None \<Rightarrow> [] | Some sid \<Rightarrow> [(''sid'', uint32_number sid)])))"

definition StreamPush_params :: "u32 \<Rightarrow> bool \<Rightarrow> bytes option \<Rightarrow> bool option \<Rightarrow> jsval" where
  "StreamPush_params sid is_eos data is_error =
     JObject ([(''sid'', uint32_number sid), (''isEos'', JBoolean is_eos),
        (''isError'', JBoolean (case is_error of None \<Rightarrow> False | Some b \<Rightarrow> b))] @
        (case data of Some bs \<Rightarrow> if \<not> is_eos then [(''data'', JArrayBuffer bs)] else [] | None \<Rightarrow> []))"

definition ResourceNotification_params :: "string \<Rightarrow> string \<Rightarrow> jsval" where
  "ResourceNotification_params resource_id token =
     JObject [(''resourceId'', NewFromUtf8 resource_id), (''token'', NewFromUtf8 token)]"

fun read_pairs :: "jsval list \<Rightarrow> key_values outcome" where
  "read_pairs [] = Inr []"
| "read_pairs (p # ps) =
     obind (js_Index p 0) (\<lambda>k. obind (as_String k) (\<lambda>k.
     obind (js_Index p 1) (\<lambda>v. obind (as_String v) (\<lambda>v.
     obind (read_pairs ps) (\<lambda>r. Inr ((k, v) # r))))))"

text \<open>The closures stored in \<open>callbacks_\<close>: from JavaScript's feedback to the answer's code, error and body.\<close>

definition Trigger_feedback :: "int \<Rightarrow> jsval \<Rightarrow> (message option \<times> message option) outcome" where
  "Trigger_feedback cde params =
     (if cde \<noteq> 0 then
        obind (get_string params ''message'') (\<lambda>m.
        obind (get_string params ''stack'') (\<lambda>s.
        Inr (Some (Error_response (Some m) (Some s)), None)))
      else
        obind (obind (js_Get params ''status'') as_Int32) (\<lambda>status.
        obind (js_Get params ''headers'') (\<lambda>headers.
        obind (case headers of JArray hs \<Rightarrow> read_pairs hs | _ \<Rightarrow> Inl Bad_cast) (\<lambda>kvs.
        Inr (None, Some (Trigger_response status kvs))))))"

definition StreamPush_feedback :: "int \<Rightarrow> jsval \<Rightarrow> (message option \<times> message option) outcome" where
  "StreamPush_feedback cde params = Inr (None, Some StreamPush_response)"

definition ResourceNotification_feedback :: "int \<Rightarrow> jsval \<Rightarrow> (message option \<times> message option) outcome" where
  "ResourceNotification_feedback cde params = Inr (None, Some ResourceNotification_response)"

fun feedback_closure :: "agent_request \<Rightarrow> int \<Rightarrow> jsval \<Rightarrow> (message option \<times> message option) outcome" where
  "feedback_closure R_trigger = Trigger_feedback"
| "feedback_closure R_streamPush = StreamPush_feedback"
| "feedback_closure R_resourceNotification = ResourceNotification_feedback"

fun agent_request_kind :: "agent_request \<Rightarrow> RequestKind" where
  "agent_request_kind R_trigger = Trigger"
| "agent_request_kind R_streamPush = StreamPush"
| "agent_request_kind R_resourceNotification = ResourceNotification"

text \<open>\<open>CollectMetrics\<close>: one record per heap statistic, labelled with the process id.\<close>

definition heap_statistics_fields :: "string list" where
  "heap_statistics_fields =
     [''total_heap_size'', ''total_heap_size_executable'', ''total_physical_size'',
      ''total_available_size'', ''total_global_handles_size'', ''used_global_handles_size'',
      ''used_heap_size'', ''heap_size_limit'', ''malloced_memory'', ''external_memory'',
      ''peak_malloced_memory'', ''number_of_native_contexts'', ''number_of_detached_contexts'']"

definition CollectMetrics_response_of :: "string \<Rightarrow> (string \<Rightarrow> nat) \<Rightarrow> message" where
  "CollectMetrics_response_of pid statistics =
     CollectMetrics_response
       (map (\<lambda>name. (''noslate.worker.'' @ name, [(''noslate.worker.pid'', pid)], statistics name))
         heap_statistics_fields)"

section \<open>The channel\<close>

datatype channel_closure = Cl_call channel_method RequestId | Cl_credentials

record data_channel =
  ch_socket :: "bool option"
  ch_ref_count :: u32
  ch_callbacks :: "(RequestId, agent_request) omap"
  ch_closed :: bool
  ch_connected :: bool
  ch_refed :: bool
  ch_cred :: string
  ch_service :: NoslatedService
  ch_delegate :: "channel_closure delegate_state"

datatype channel_effect =
    Js_callback RequestId jsval jsval
  | Js_handler RequestId string jsval
  | Write_message MessageKind RequestId RequestKind message u32

definition channel_init :: "string \<Rightarrow> bool \<Rightarrow> data_channel" where
  "channel_init cred refed =
     \<lparr>ch_socket = None, ch_ref_count = 0, ch_callbacks = [], ch_closed = False, ch_connected = False,
      ch_refed = refed, ch_cred = cred, ch_service = \<lparr>svc_seq = 0\<rparr>,
      ch_delegate = (delegate_init, uv_loop_init)\<rparr>"

text \<open>The socket's handle is null or referenced or unreferenced; \<open>Ref\<close> and \<open>Unref\<close> are idempotent on it.\<close>

definition socket_set_ref :: "bool \<Rightarrow> data_channel \<Rightarrow> data_channel outcome" where
  "socket_set_ref r ch =
     (case ch_socket ch of None \<Rightarrow> Inl Null_deref | Some _ \<Rightarrow> Inr (ch\<lparr>ch_socket := Some r\<rparr>))"

definition Channel_Ref :: "data_channel \<Rightarrow> data_channel outcome" where
  "Channel_Ref ch =
     obind (if ch_ref_count ch = 0 then socket_set_ref True ch else Inr ch) (\<lambda>ch.
     Inr (ch\<lparr>ch_ref_count := ch_ref_count ch + 1\<rparr>))"

definition Channel_Unref :: "data_channel \<Rightarrow> data_channel outcome" where
  "Channel_Unref ch =
     (let ch = ch\<lparr>ch_ref_count := ch_ref_count ch - 1\<rparr>
      in if ch_ref_count ch = 0 then socket_set_ref False ch else Inr ch)"

text \<open>\<open>Callback\<close>; \<open>js_ok\<close> tells whether the JavaScript callback returns without throwing.\<close>

definition Channel_Callback ::
  "bool \<Rightarrow> RequestId \<Rightarrow> jsval \<Rightarrow> jsval \<Rightarrow> data_channel \<Rightarrow> (channel_effect list \<times> data_channel) outcome" where
  "Channel_Callback js_ok rid exception params ch =
     (let ch = ch\<lparr>ch_ref_count := ch_ref_count ch - 1\<rparr>
      in obind (if ch_ref_count ch = 0 \<and> ch_socket ch \<noteq> None then socket_set_ref False ch else Inr ch) (\<lambda>ch.
         obind (CHECK js_ok) (\<lambda>_. Inr ([Js_callback rid exception params], ch))))"

definition Channel_Emit ::
  "RequestId \<Rightarrow> string \<Rightarrow> jsval \<Rightarrow> data_channel \<Rightarrow> (channel_effect list \<times> data_channel) outcome" where
  "Channel_Emit rid event params ch =
     obind (if ch_ref_count ch = 0 then socket_set_ref True ch else Inr ch) (\<lambda>ch.
     Inr ([Js_handler rid event params], ch\<lparr>ch_ref_count := ch_ref_count ch + 1\<rparr>))"

text \<open>The reply closure the delegate made for a request of the agent, on this channel's socket.\<close>

fun fresh_response :: "agent_request \<Rightarrow> message" where
  "fresh_response R_trigger = Trigger_response 0 []"
| "fresh_response R_streamPush = StreamPush_response"
| "fresh_response R_resourceNotification = ResourceNotification_response"

fun write_effects :: "(channel_closure, message) delegate_effect list \<Rightarrow> channel_effect list" where
  "write_effects [] = []"
| "write_effects (Socket_Write mk rid kind m cde # es) =
     Write_message mk rid (the (switch_request_type kind)) m cde # write_effects es"
| "write_effects (_ # es) = write_effects es"

definition agent_reply ::
  "agent_request \<Rightarrow> RequestId \<Rightarrow> u32 \<Rightarrow> message option \<times> message option \<Rightarrow> data_channel \<Rightarrow> channel_effect list" where
  "agent_reply t rid cde eb ch =
     write_effects (request_reply
       (\<lambda>ty. case ty of ErrorResponseMessage \<Rightarrow> Error_response None None | _ \<Rightarrow> fresh_response t)
       True (ch_socket ch \<noteq> None) (agent_request_kind t) rid (request_kind_value (agent_request_kind t))
       cde (fst eb) (snd eb))"

definition Channel_Feedback ::
  "RequestId \<Rightarrow> int \<Rightarrow> jsval \<Rightarrow> data_channel \<Rightarrow> (bool \<times> channel_effect list \<times> data_channel) outcome" where
  "Channel_Feedback rid cde params ch =
     obind (CHECK (CanonicalCode_IsValid cde)) (\<lambda>_.
     (case omap_find (ch_callbacks ch) rid of
        None \<Rightarrow> Inr (False, [], ch)
      | Some t \<Rightarrow>
          (let ch = ch\<lparr>ch_ref_count := ch_ref_count ch - 1\<rparr>
           in obind (if ch_ref_count ch = 0 then socket_set_ref False ch else Inr ch) (\<lambda>ch.
              let ch = ch\<lparr>ch_callbacks := omap_erase rid (ch_callbacks ch)\<rparr>
              in obind (feedback_closure t cde params) (\<lambda>eb.
                 Inr (True, agent_reply t rid (of_int cde) eb ch, ch))))))"

text \<open>The service's handlers of the agent's requests.\<close>

definition on_agent_request ::
  "RequestId \<Rightarrow> message \<Rightarrow> data_channel \<Rightarrow> (channel_effect list \<times> data_channel) outcome" where
  "on_agent_request rid m ch =
     (case m of
        Trigger_request req \<Rightarrow>
          Channel_Emit rid ''trigger'' (Trigger_params req)
            (ch\<lparr>ch_callbacks := omap_set rid R_trigger (ch_callbacks ch)\<rparr>)
      | StreamPush_request sid is_eos data is_error \<Rightarrow>
          Channel_Emit rid ''streamPush'' (StreamPush_params sid is_eos data is_error)
            (ch\<lparr>ch_callbacks := omap_set rid R_streamPush (ch_callbacks ch)\<rparr>)
      | ResourceNotification_request resource_id token \<Rightarrow>
          Channel_Emit rid ''resourceNotification'' (ResourceNotification_params resource_id token)
            (ch\<lparr>ch_callbacks := omap_set rid R_resourceNotification (ch_callbacks ch)\<rparr>)
      | _ \<Rightarrow> Inl Unreachable_reached)"

definition Channel_CollectMetrics ::
  "string \<Rightarrow> (string \<Rightarrow> nat) \<Rightarrow> RequestId \<Rightarrow> data_channel \<Rightarrow> channel_effect list" where
  "Channel_CollectMetrics pid statistics rid ch =
     (if ch_socket ch \<noteq> None
      then [Write_message Response rid CollectMetrics (CollectMetrics_response_of pid statistics) (code_value OK)]
      else [])"

text \<open>\<open>set_connected\<close> of src/src/agent_channel/data_channel.h.\<close>

definition set_connected :: "data_channel \<Rightarrow> data_channel outcome" where
  "set_connected ch =
     (let ch = ch\<lparr>ch_connected := True\<rparr> in if ch_refed ch then Channel_Ref ch else Inr ch)"

text \<open>What a closure of the channel does when the delegate runs it.\<close>

definition run_channel_closure ::
  "bool \<Rightarrow> channel_closure \<Rightarrow> u32 \<Rightarrow> message option \<Rightarrow> message option \<Rightarrow> data_channel \<Rightarrow>
   (channel_effect list \<times> data_channel) outcome" where
  "run_channel_closure js_ok cl cde error body ch =
     (case cl of
        Cl_call m rid \<Rightarrow>
          if cde \<noteq> code_value OK
          then Channel_Callback js_ok rid (ErrorMessageToJsError cde error) JUndefined ch
          else (case body of
                  None \<Rightarrow> Inl Null_deref
                | Some b \<Rightarrow> obind (call_response m b) (\<lambda>v. Channel_Callback js_ok rid JUndefined v ch))
      | Cl_credentials \<Rightarrow>
          if cde \<noteq> code_value OK then Inr ([], ch\<lparr>ch_socket := None\<rparr>)
          else obind (socket_set_ref False ch) (\<lambda>ch. obind (set_connected ch) (\<lambda>ch. Inr ([], ch))))"

fun run_delegate_effects ::
  "bool \<Rightarrow> (channel_closure, message) delegate_effect list \<Rightarrow> data_channel \<Rightarrow>
   (channel_effect list \<times> data_channel) outcome" where
  "run_delegate_effects js_ok [] ch = Inr ([], ch)"
| "run_delegate_effects js_ok (e # es) ch =
     obind (case e of
              Run_closure cl cde error body \<Rightarrow> run_channel_closure js_ok cl cde error body ch
            | Socket_Write mk rid kind m cde \<Rightarrow>
                Inr ([Write_message mk rid (the (switch_request_type kind)) m cde], ch)
            | _ \<Rightarrow> Inr ([], ch)) (\<lambda>(out, ch).
     obind (run_delegate_effects js_ok es ch) (\<lambda>(out', ch).
     Inr (out @ out', ch)))"

text \<open>\<open>NoslatedService::Request\<close> through the channel's own delegate, which lives as long as the channel.\<close>

definition channel_Request ::
  "uv_status \<Rightarrow> bool \<Rightarrow> RpcController \<Rightarrow> RequestKind \<Rightarrow> message \<Rightarrow> channel_closure \<Rightarrow> data_channel \<Rightarrow>
   (channel_effect list \<times> data_channel) outcome" where
  "channel_Request rc js_ok controller kind req cl ch =
     obind (Service_Request rc (\<lambda>m. Error_response (Some m) None) (ch_socket ch \<noteq> None) controller kind req cl
              (Some (ch_delegate ch))) (\<lambda>(es, dl).
     run_delegate_effects js_ok es (ch\<lparr>ch_delegate := the dl\<rparr>))"

definition JsCall ::
  "uv_status \<Rightarrow> bool \<Rightarrow> channel_method \<Rightarrow> jsval \<Rightarrow> u32 \<Rightarrow> data_channel \<Rightarrow>
   (RequestId \<times> channel_effect list \<times> data_channel) outcome" where
  "JsCall rc js_ok m params timeout ch =
     obind (if ch_ref_count ch = 0 then socket_set_ref True ch else Inr ch) (\<lambda>ch.
     let ch = ch\<lparr>ch_ref_count := ch_ref_count ch + 1\<rparr>
     in case NewControllerWithTimeout 0 (ucast timeout) (ch_service ch) of (controller, svc) \<Rightarrow>
          (let ch = ch\<lparr>ch_service := svc\<rparr>; rid = rpc_request_id controller
           in obind (call_request m params) (\<lambda>req.
              obind (channel_Request rc js_ok controller (call_kind m) req (Cl_call m rid) ch) (\<lambda>(out, ch).
              Inr (rid, out, ch)))))"

definition Channel_OnConnect :: "uv_status \<Rightarrow> bool \<Rightarrow> data_channel \<Rightarrow> (channel_effect list \<times> data_channel) outcome" where
  "Channel_OnConnect rc sock ch =
     (let ch = ch\<lparr>ch_socket := (if sock then Some True else None)\<rparr>
      in if sock then
           (case NewControllerWithTimeout 0 1000 (ch_service ch) of (controller, svc) \<Rightarrow>
              channel_Request rc True controller Credentials (Credentials_request (ch_cred ch) 1) Cl_credentials
                (ch\<lparr>ch_service := svc\<rparr>))
         else Inr ([], ch))"

definition Channel_Disconnected :: "data_channel \<Rightarrow> data_channel" where
  "Channel_Disconnected ch = ch\<lparr>ch_socket := None\<rparr>"

definition Channel_Closed :: "data_channel \<Rightarrow> data_channel" where
  "Channel_Closed ch = ch\<lparr>ch_closed := True\<rparr>"

text \<open>A response of the agent, or a timer of the loop, handled by the delegate.\<close>

definition channel_delegate_input ::
  "uv_status \<Rightarrow> bool \<Rightarrow> (channel_closure, message) delegate_input \<Rightarrow> data_channel \<Rightarrow>
   (channel_effect list \<times> data_channel) outcome" where
  "channel_delegate_input rc js_ok i ch =
     obind (delegate_step rc i (ch_delegate ch)) (\<lambda>(es, dl).
     run_delegate_effects js_ok es (ch\<lparr>ch_delegate := dl\<rparr>))"

section \<open>The binding's functions\<close>

text \<open>What JavaScript calls: they throw while no channel is set up.\<close>

datatype js_return = Js_throw string | Js_return jsval

definition JsCall_method ::
  "uv_status \<Rightarrow> bool \<Rightarrow> channel_method \<Rightarrow> jsval \<Rightarrow> jsval \<Rightarrow> data_channel option \<Rightarrow>
   (js_return \<times> channel_effect list \<times> data_channel option) outcome" where
  "JsCall_method rc js_ok m params timeout ch =
     (case ch of
        None \<Rightarrow> Inr (Js_throw ''Cannot invoke agent methods when agent is not setup'', [], None)
      | Some ch \<Rightarrow>
          obind (as_Uint32 timeout) (\<lambda>timeout.
          obind (JsCall rc js_ok m params timeout ch) (\<lambda>(rid, out, ch).
          Inr (Js_return (uint32_number rid), out, Some ch))))"

definition Feedback_method ::
  "jsval \<Rightarrow> jsval \<Rightarrow> jsval \<Rightarrow> data_channel option \<Rightarrow> (js_return \<times> channel_effect list \<times> data_channel option) outcome" where
  "Feedback_method rid cde params ch =
     (case ch of
        None \<Rightarrow> Inr (Js_throw ''Cannot feedback to agent when agent is not setup'', [], None)
      | Some ch \<Rightarrow>
          obind (as_Uint32 rid) (\<lambda>rid.
          obind (as_Int32 cde) (\<lambda>cde.
          obind (Channel_Feedback rid cde params ch) (\<lambda>(ok, out, ch).
          Inr (if ok then Js_return JUndefined else Js_throw ''Failed to write to agent'', out, Some ch)))))"

definition Ref_method :: "data_channel option \<Rightarrow> (js_return \<times> data_channel option) outcome" where
  "Ref_method ch =
     (case ch of
        None \<Rightarrow> Inr (Js_throw ''Cannot ref agent when agent is not setup'', None)
      | Some ch \<Rightarrow> obind (Channel_Ref ch) (\<lambda>ch. Inr (Js_return JUndefined, Some ch)))"

definition Unref_method :: "data_channel option \<Rightarrow> (js_return \<times> data_channel option) outcome" where
  "Unref_method ch =
     (case ch of
        None \<Rightarrow> Inr (Js_throw ''Cannot unref agent when agent is not setup'', None)
      | Some ch \<Rightarrow> obind (Channel_Unref ch) (\<lambda>ch. Inr (Js_return JUndefined, Some ch)))"

section \<open>What can happen to a channel\<close>

datatype channel_input =
    In_call channel_method jsval u32
  | In_response RequestId u32 u32 message
  | In_timer nat
  | In_agent_request RequestId message
  | In_feedback RequestId int jsval
  | In_ref
  | In_unref

definition channel_step ::
  "uv_status \<Rightarrow> bool \<Rightarrow> channel_input \<Rightarrow> data_channel \<Rightarrow> (channel_effect list \<times> data_channel) outcome" where
  "channel_step rc js_ok i ch =
     (case i of
        In_call m params timeout \<Rightarrow> obind (JsCall rc js_ok m params timeout ch) (\<lambda>(rid, out, ch). Inr (out, ch))
      | In_response rid kind cde body \<Rightarrow> channel_delegate_input rc js_ok (In_Response rid kind cde (Some body)) ch
      | In_timer t \<Rightarrow> channel_delegate_input rc js_ok (In_Timer t) ch
      | In_agent_request rid m \<Rightarrow> on_agent_request rid m ch
      | In_feedback rid cde params \<Rightarrow> obind (Channel_Feedback rid cde params ch) (\<lambda>(ok, out, ch). Inr (out, ch))
      | In_ref \<Rightarrow> obind (Channel_Ref ch) (\<lambda>ch. Inr ([], ch))
      | In_unref \<Rightarrow> obind (Channel_Unref ch) (\<lambda>ch. Inr ([], ch)))"

fun is_call :: "channel_closure \<Rightarrow> bool" where
  "is_call (Cl_call m rid) = True"
| "is_call Cl_credentials = False"

definition calls :: "data_channel \<Rightarrow> nat" where
  "calls ch = length (filter is_call (pending (ch_delegate ch)))"

fun js_callbacks :: "channel_effect list \<Rightarrow> nat" where
  "js_callbacks [] = 0"
| "js_callbacks (Js_callback rid e v # out) = Suc (js_callbacks out)"
| "js_callbacks (_ # out) = js_callbacks out"

text \<open>
  The users of the socket: calls waiting for an answer, requests of the agent waiting for
  feedback, and \<open>n\<close> explicit references.
\<close>

definition users :: "nat \<Rightarrow> data_channel \<Rightarrow> nat" where
  "users n ch = calls ch + length (ch_callbacks ch) + n"

definition channel_ok :: "nat \<Rightarrow> data_channel \<Rightarrow> bool" where
  "channel_ok n ch =
     (delegate_inv (ch_delegate ch) \<and> Cl_credentials \<notin> set (pending (ch_delegate ch)) \<and> omap_wf (ch_callbacks ch) \<and>
      users n ch < 2 ^ 32 \<and> ch_ref_count ch = of_nat (users n ch) \<and> ch_socket ch = Some (0 < users n ch))"

definition explicit_refs :: "channel_input \<Rightarrow> nat \<Rightarrow> nat" where
  "explicit_refs i n = (case i of In_ref \<Rightarrow> n + 1 | In_unref \<Rightarrow> n - 1 | _ \<Rightarrow> n)"

text \<open>
  The agent does not reuse an id that still awaits feedback, references are not released
  more often than taken, and fewer than \<open>2 ^ 32 - 1\<close> users exist.
\<close>

definition admissible :: "channel_input \<Rightarrow> nat \<Rightarrow> data_channel \<Rightarrow> bool" where
  "admissible i n ch =
     (users n ch + 1 < 2 ^ 32 \<and>
      (case i of
         In_agent_request rid m \<Rightarrow> omap_find (ch_callbacks ch) rid = None
       | In_unref \<Rightarrow> 0 < n
       | _ \<Rightarrow> True))"

lemma ref_up:
  assumes "channel_ok n ch" "users n ch + 1 < 2 ^ 32"
  shows "Channel_Ref ch = Inr (ch\<lparr>ch_socket := Some True, ch_ref_count := of_nat (users n ch + 1)\<rparr>)"
  using assms by (auto simp: channel_ok_def Channel_Ref_def socket_set_ref_def of_nat_u32_0 add.commute)

lemma ref_down:
  assumes "channel_ok n ch" "0 < users n ch" "ch_ref_count ch' = ch_ref_count ch" "ch_socket ch' = ch_socket ch"
  shows "Channel_Unref ch' = Inr (ch'\<lparr>ch_socket := Some (1 < users n ch), ch_ref_count := of_nat (users n ch - 1)\<rparr>)"
proof -
  have "(of_nat (users n ch) - 1 :: u32) = of_nat (users n ch - 1)"
    using assms(2) by (simp add: of_nat_diff)
  moreover have "users n ch - 1 < 2 ^ 32" using assms(1) unfolding channel_ok_def by linarith
  ultimately show ?thesis
    using assms of_nat_u32_0 [of "users n ch - 1"]
    by (auto simp: channel_ok_def Channel_Unref_def Let_def socket_set_ref_def)
qed

lemma calls_mset: "calls ch = size (filter_mset is_call (mset (pending (ch_delegate ch))))"
  unfolding calls_def by (simp flip: mset_filter)

lemma not_call_iff: "\<not> is_call f \<longleftrightarrow> f = Cl_credentials"
  by (cases f) auto

lemma answer_shape:
  assumes "delegate_inv s" "i = In_Response rid kind cde (Some b) \<or> i = In_Timer t"
    and "delegate_step rc i s = Inr (es, s')"
  shows "delegate_inv s' \<and> (es = [] \<and> mset (pending s') = mset (pending s) \<or>
    (\<exists>f c e r. es = [Run_closure f c e r] \<and> mset (pending s) = add_mset f (mset (pending s'))))"
proof -
  have resp: "delegate_inv s2 \<and> (es2 = [] \<and> mset (pending s2) = mset (pending s1) \<or>
      (\<exists>f c e r. es2 = [Run_closure f c e r] \<and> mset (pending s1) = add_mset f (mset (pending s2))))"
    if "delegate_inv s1" "OnResponse rid kind cde body s1 = Inr (es2, s2)" for s1 rid kind cde body es2 s2
  proof (cases "omap_find (dl_callbacks (fst s1)) rid")
    case None
    then have "OnResponse rid kind cde body s1 = Inr ([], s1)" by (cases s1) (simp add: OnResponse_def)
    with that show ?thesis by simp
  next
    case (Some cb)
    from OnResponse_step [OF that(1) Some, of kind cde body] that(2) show ?thesis by auto
  qed
  from assms(2) show ?thesis
  proof
    assume "i = In_Response rid kind cde (Some b)"
    with assms(3) resp [OF assms(1)] show ?thesis by (simp add: delegate_step_def)
  next
    assume i: "i = In_Timer t"
    show ?thesis
    proof (cases "may_fire (snd s) t")
      case False
      with i assms(1,3) show ?thesis by (simp add: delegate_step_def)
    next
      case True
      obtain d l where s: "s = (d, l)" by (cases s)
      obtain cb l1 where l1: "TimerCb t l = Inr (cb, l1)" "open_handles l1 = open_handles l" "uv_loop_wf l1"
        using TimerCb_open [of l t] True delegate_invD(3) assms(1) by (auto simp: s)
      have inv1: "delegate_inv (d, l1)" using delegate_inv_open assms(1) l1(2,3) unfolding s by blast
      have p: "pending (d, l1) = pending s" by (simp add: s pending_def)
      show ?thesis
      proof (cases cb)
        case Cb_read_immediate
        with i True l1(1) assms(3) inv1 p show ?thesis by (auto simp: s delegate_step_def)
      next
        case (Cb_request_timeout rid kind)
        with i True l1(1) assms(3) have "OnResponse rid kind (code_value TIMEOUT) None (d, l1) = Inr (es, s')"
          by (simp add: s delegate_step_def request_timeout_callback_def)
        from resp [OF inv1 this] p show ?thesis by simp
      qed
    qed
  qed
qed

lemma Callback_down:
  assumes "channel_ok n ch" "0 < users n ch" "ch_ref_count ch' = ch_ref_count ch" "ch_socket ch' = ch_socket ch"
    and "Channel_Callback js_ok rid e v ch' = Inr (out, ch'')"
  shows "out = [Js_callback rid e v] \<and>
    ch'' = ch'\<lparr>ch_socket := Some (1 < users n ch), ch_ref_count := of_nat (users n ch - 1)\<rparr>"
proof -
  have sock: "ch_socket ch' \<noteq> None" using assms(1,4) by (simp add: channel_ok_def)
  obtain ch1 where "Channel_Unref ch' = Inr ch1" "ch'' = ch1" "out = [Js_callback rid e v]"
    using assms(5) sock by (auto simp: Channel_Callback_def Channel_Unref_def Let_def obind_eq_Inr split: if_splits)
  with ref_down [OF assms(1-4)] show ?thesis by simp
qed

lemma delegate_input_step:
  assumes "channel_ok n ch" "i = In_Response rid kind cde (Some b) \<or> i = In_Timer t"
    and "channel_delegate_input rc js_ok i ch = Inr (out, ch')"
  shows "channel_ok n ch' \<and> calls ch' + js_callbacks out = calls ch"
proof -
  obtain es dl where dl: "delegate_step rc i (ch_delegate ch) = Inr (es, dl)"
      "run_delegate_effects js_ok es (ch\<lparr>ch_delegate := dl\<rparr>) = Inr (out, ch')"
    using assms(3) by (auto simp: channel_delegate_input_def obind_eq_Inr)
  have inv: "delegate_inv (ch_delegate ch)" using assms(1) by (simp add: channel_ok_def)
  from answer_shape [OF inv assms(2) dl(1)] have inv': "delegate_inv dl"
    and shape: "es = [] \<and> mset (pending dl) = mset (pending (ch_delegate ch)) \<or>
      (\<exists>f c e r. es = [Run_closure f c e r] \<and> mset (pending (ch_delegate ch)) = add_mset f (mset (pending dl)))"
    by auto
  from shape show ?thesis
  proof (elim disjE exE conjE)
    assume "es = []" and m: "mset (pending dl) = mset (pending (ch_delegate ch))"
    then have ch': "ch' = ch\<lparr>ch_delegate := dl\<rparr>" "out = []" using dl(2) by simp_all
    have "calls ch' = calls ch" by (simp add: calls_mset ch' m)
    moreover have "set (pending dl) = set (pending (ch_delegate ch))" using m by (metis set_mset_mset)
    ultimately show ?thesis using assms(1) inv' by (simp add: ch' channel_ok_def users_def)
  next
    fix f c e r
    assume es: "es = [Run_closure f c e r]" and m: "mset (pending (ch_delegate ch)) = add_mset f (mset (pending dl))"
    have fset: "set (pending (ch_delegate ch)) = insert f (set (pending dl))"
      using arg_cong [OF m, of set_mset] by simp
    then have f: "f \<noteq> Cl_credentials" using assms(1) by (auto simp: channel_ok_def)
    then obtain mm rid' where fc: "f = Cl_call mm rid'" by (cases f) auto
    let ?ch = "ch\<lparr>ch_delegate := dl\<rparr>"
    have calls: "calls ch = Suc (calls ?ch)" by (simp add: calls_mset m fc)
    then have pos: "0 < users n ch" by (simp add: users_def)
    obtain e' v' where "Channel_Callback js_ok rid' e' v' ?ch = Inr (out, ch')"
      using dl(2) by (auto simp: es fc run_channel_closure_def obind_eq_Inr split: if_splits option.splits)
    from Callback_down [OF assms(1) pos _ _ this] have out: "out = [Js_callback rid' e' v']"
      and ch': "ch' = ?ch\<lparr>ch_socket := Some (1 < users n ch), ch_ref_count := of_nat (users n ch - 1)\<rparr>" by auto
    have u: "users n ch' = users n ch - 1" "calls ch' = calls ?ch"
      using calls by (simp_all add: users_def ch' calls_def)
    have "users n ch' < 2 ^ 32" "0 < users n ch' \<longleftrightarrow> 1 < users n ch" "Cl_credentials \<notin> set (pending dl)"
      using assms(1) u(1) fset unfolding channel_ok_def by (linarith, linarith, blast)
    moreover have "omap_wf (ch_callbacks ch)" using assms(1) by (simp add: channel_ok_def)
    ultimately have "channel_ok n ch'" using inv' u(1) unfolding channel_ok_def by (simp add: ch')
    then show ?thesis using u(2) calls out by simp
  qed
qed

lemma call_step:
  assumes "channel_ok n ch" "users n ch + 1 < 2 ^ 32" "JsCall rc js_ok m params timeout ch = Inr (rid, out, ch')"
  shows "channel_ok n ch' \<and> calls ch' + js_callbacks out = calls ch + 1"
proof -
  let ?ch1 = "ch\<lparr>ch_socket := Some True, ch_ref_count := of_nat (users n ch + 1)\<rparr>"
  obtain c svc where c: "NewControllerWithTimeout 0 (ucast timeout) (ch_service ch) = (c, svc)" by fastforce
  have "obind (Channel_Ref ch) (\<lambda>ch.
      case NewControllerWithTimeout 0 (ucast timeout) (ch_service ch) of (controller, svc) \<Rightarrow>
          (let ch = ch\<lparr>ch_service := svc\<rparr>; rid = rpc_request_id controller
           in obind (call_request m params) (\<lambda>req.
              obind (channel_Request rc js_ok controller (call_kind m) req (Cl_call m rid) ch) (\<lambda>(out, ch).
              Inr (rid, out, ch))))) = Inr (rid, out, ch')"
    using assms(3) by (cases "ch_ref_count ch = 0") (auto simp: JsCall_def Channel_Ref_def obind_def split: sum.splits)
  then obtain req where req: "channel_Request rc js_ok c (call_kind m) req (Cl_call m (rpc_request_id c))
      (?ch1\<lparr>ch_service := svc\<rparr>) = Inr (out, ch')"
    unfolding ref_up [OF assms(1,2)] by (auto simp: c obind_eq_Inr Let_def)
  then obtain es dl where dl: "Delegate_Request rc True (rpc_request_id c) (request_kind_value (call_kind m)) req
      (Some (Cl_call m (rpc_request_id c))) (rpc_timeout c) (ch_delegate ch) = Inr (es, dl)"
      "run_delegate_effects js_ok es (?ch1\<lparr>ch_service := svc, ch_delegate := dl\<rparr>) = Inr (out, ch')"
    by (auto simp: channel_Request_def Service_Request_def obind_eq_Inr)
  have inv: "delegate_inv (ch_delegate ch)" using assms(1) by (simp add: channel_ok_def)
  from Request_step [OF delegate_request_Inr(1) [OF dl(1)] inv delegate_request_Inr(2) [OF dl(1)],
      of "request_kind_value (call_kind m)" req "Cl_call m (rpc_request_id c)" "rpc_timeout c"] dl(1)
  have es: "es = [Socket_Write Request (rpc_request_id c) (request_kind_value (call_kind m)) req (code_value OK)]"
    and inv': "delegate_inv dl"
    and pend: "mset (pending dl) = add_mset (Cl_call m (rpc_request_id c)) (mset (pending (ch_delegate ch)))"
    by auto
  have ch': "ch' = ?ch1\<lparr>ch_service := svc, ch_delegate := dl\<rparr>" and out: "js_callbacks out = 0"
    using dl(2) by (auto simp: es)
  have calls: "calls ch' = calls ch + 1" by (simp add: calls_mset ch' pend)
  then have u: "users n ch' = users n ch + 1" by (simp add: users_def ch')
  have "set (pending dl) = insert (Cl_call m (rpc_request_id c)) (set (pending (ch_delegate ch)))"
    using arg_cong [OF pend, of set_mset] by simp
  then have "Cl_credentials \<notin> set (pending dl)" using assms(1) by (auto simp: channel_ok_def)
  moreover have "omap_wf (ch_callbacks ch)" using assms(1) by (simp add: channel_ok_def)
  ultimately have "channel_ok n ch'" using inv' u assms(2) unfolding channel_ok_def by (simp add: ch')
  then show ?thesis using calls out by simp
qed

lemma emit_step:
  assumes "channel_ok n ch" "users n ch + 1 < 2 ^ 32" "omap_find (ch_callbacks ch) rid = None"
    and "Channel_Emit rid ev params (ch\<lparr>ch_callbacks := omap_set rid t (ch_callbacks ch)\<rparr>) = Inr (out, ch')"
  shows "channel_ok n ch' \<and> calls ch' + js_callbacks out = calls ch"
proof -
  let ?cb = "omap_set rid t (ch_callbacks ch)"
  have ch': "ch' = ch\<lparr>ch_callbacks := ?cb, ch_socket := Some True, ch_ref_count := of_nat (users n ch + 1)\<rparr>"
    and out: "js_callbacks out = 0"
    using assms(1,2,4) of_nat_u32_0 [of "users n ch"]
    by (auto simp: channel_ok_def Channel_Emit_def socket_set_ref_def obind_eq_Inr add.commute split: if_splits)
  have c: "calls ch' = calls ch" by (simp add: calls_def ch')
  have u: "users n ch' = users n ch + 1"
    using omap_length(1) [OF assms(3)] c by (simp add: users_def ch')
  have "omap_wf (ch_callbacks ch)" using assms(1) by (simp add: channel_ok_def)
  then have "channel_ok n ch'"
    using assms(1,2) u unfolding channel_ok_def by (simp add: ch' omap_wf_set)
  then show ?thesis using c out by simp
qed

lemma feedback_step:
  assumes "channel_ok n ch" "Channel_Feedback rid cde params ch = Inr (ok, out, ch')"
  shows "channel_ok n ch' \<and> calls ch' + js_callbacks out = calls ch"
proof (cases "omap_find (ch_callbacks ch) rid")
  case None
  then show ?thesis using assms by (auto simp: Channel_Feedback_def obind_eq_Inr)
next
  case (Some t)
  have wf: "omap_wf (ch_callbacks ch)" using assms(1) by (simp add: channel_ok_def)
  note len = omap_length(2) [OF wf Some]
  then have pos: "0 < users n ch" by (simp add: users_def)
  obtain ch1 eb where ch1: "Channel_Unref ch = Inr ch1"
      "ch' = ch1\<lparr>ch_callbacks := omap_erase rid (ch_callbacks ch1)\<rparr>" "out = agent_reply t rid (of_int cde) eb ch'"
    using assms(2) Some by (auto simp: Channel_Feedback_def Channel_Unref_def Let_def obind_eq_Inr split: if_splits)
  have ch': "ch' = ch\<lparr>ch_socket := Some (1 < users n ch), ch_ref_count := of_nat (users n ch - 1),
      ch_callbacks := omap_erase rid (ch_callbacks ch)\<rparr>"
    using ch1(1) ref_down [OF assms(1) pos, of ch] unfolding ch1(2) by auto
  have c: "calls ch' = calls ch" by (simp add: calls_def ch')
  have u: "users n ch' = users n ch - 1" using len c by (simp add: users_def ch')
  have "users n ch' < 2 ^ 32" "0 < users n ch' \<longleftrightarrow> 1 < users n ch"
    using assms(1) u unfolding channel_ok_def by (linarith, linarith)
  then have "channel_ok n ch'"
    using assms(1) u unfolding channel_ok_def by (simp add: ch' omap_wf_erase)
  moreover have "js_callbacks out = 0"
    by (simp add: ch1(3) agent_reply_def request_reply_def)
  ultimately show ?thesis using c by simp
qed

lemma channel_step_ok:
  assumes "channel_ok n ch" "admissible i n ch" "channel_step rc js_ok i ch = Inr (out, ch')"
  shows "channel_ok (explicit_refs i n) ch' \<and>
    calls ch' + js_callbacks out = calls ch + (case i of In_call m params timeout \<Rightarrow> 1 | _ \<Rightarrow> 0)"
proof -
  have room: "users n ch + 1 < 2 ^ 32" using assms(2) by (simp add: admissible_def)
  show ?thesis
  proof (cases i)
    case (In_call m params timeout)
    then obtain rid where "JsCall rc js_ok m params timeout ch = Inr (rid, out, ch')"
      using assms(3) by (auto simp: channel_step_def obind_eq_Inr)
    from call_step [OF assms(1) room this] show ?thesis by (simp add: In_call explicit_refs_def)
  next
    case (In_response rid kind cde body)
    then show ?thesis
      using delegate_input_step [OF assms(1), of "In_Response rid kind cde (Some body)" rid kind cde body 0 rc js_ok out ch'] assms(3)
      by (simp add: channel_step_def explicit_refs_def)
  next
    case (In_timer t)
    then show ?thesis
      using delegate_input_step [OF assms(1), of "In_Timer t" 0 0 0 undefined t rc js_ok out ch'] assms(3)
      by (simp add: channel_step_def explicit_refs_def)
  next
    case (In_agent_request rid m)
    then have fresh: "omap_find (ch_callbacks ch) rid = None" using assms(2) by (simp add: admissible_def)
    obtain ev params t where
        "Channel_Emit rid ev params (ch\<lparr>ch_callbacks := omap_set rid t (ch_callbacks ch)\<rparr>) = Inr (out, ch')"
      using assms(3) In_agent_request
      by (auto simp: channel_step_def on_agent_request_def split: message.splits)
    from emit_step [OF assms(1) room fresh this] show ?thesis by (simp add: In_agent_request explicit_refs_def)
  next
    case (In_feedback rid cde params)
    then obtain ok where "Channel_Feedback rid cde params ch = Inr (ok, out, ch')"
      using assms(3) by (auto simp: channel_step_def obind_eq_Inr)
    from feedback_step [OF assms(1) this] show ?thesis by (simp add: In_feedback explicit_refs_def)
  next
    case In_ref
    then have ch': "ch' = ch\<lparr>ch_socket := Some True, ch_ref_count := of_nat (users n ch + 1)\<rparr>" "out = []"
      using assms(3) ref_up [OF assms(1) room] by (simp_all add: channel_step_def)
    then have "users (n + 1) ch' = users n ch + 1" "calls ch' = calls ch" by (simp_all add: users_def calls_def)
    then show ?thesis
      using assms(1) room In_ref unfolding channel_ok_def by (simp add: ch' explicit_refs_def)
  next
    case In_unref
    then have n: "0 < n" using assms(2) by (simp add: admissible_def)
    then have pos: "0 < users n ch" by (simp add: users_def)
    have ch': "ch' = ch\<lparr>ch_socket := Some (1 < users n ch), ch_ref_count := of_nat (users n ch - 1)\<rparr>" "out = []"
      using assms(3) In_unref ref_down [OF assms(1) pos, of ch] by (simp_all add: channel_step_def)
    have u: "users (n - 1) ch' = users n ch - 1" "calls ch' = calls ch"
      using n by (simp_all add: users_def calls_def ch')
    have "users (n - 1) ch' < 2 ^ 32" "0 < users (n - 1) ch' \<longleftrightarrow> 1 < users n ch"
      using assms(1) u(1) unfolding channel_ok_def by (linarith, linarith)
    then show ?thesis
      using assms(1) u In_unref unfolding channel_ok_def by (simp add: ch' explicit_refs_def)
  qed
qed

section \<open>Connecting\<close>

text \<open>The channel connects, sends its credentials as request 0 and the agent accepts them.\<close>

definition channel_connected :: "uv_status \<Rightarrow> string \<Rightarrow> bool \<Rightarrow> data_channel outcome" where
  "channel_connected rc cred refed =
     obind (Channel_OnConnect rc True (channel_init cred refed)) (\<lambda>(out, ch).
     obind (channel_delegate_input rc True
        (In_Response 0 (request_kind_value Credentials) (code_value OK) (Some Credentials_response)) ch) (\<lambda>(out', ch).
     Inr ch))"

lemma channel_connected_ok:
  assumes "uv_timer_ok rc"
  shows "\<exists>ch. channel_connected rc cred refed = Inr ch \<and> channel_ok (if refed then 1 else 0) ch \<and>
    calls ch = 0 \<and> ch_connected ch"
proof -
  let ?s0 = "(delegate_init, uv_loop_init) :: channel_closure delegate_state"
  have none: "omap_find (dl_callbacks (fst ?s0)) 0 = None" by (simp add: delegate_init_def)
  obtain s1 where s1: "Delegate_Request rc True 0 (request_kind_value Credentials) (Credentials_request cred 1)
      (Some Cl_credentials) 1000 ?s0 = Inr ([Socket_Write Request 0 (request_kind_value Credentials)
        (Credentials_request cred 1) (code_value OK)], s1)" "delegate_inv s1"
      "omap_find (dl_callbacks (fst s1)) = (omap_find (dl_callbacks (fst ?s0)))(0 \<mapsto> Some Cl_credentials)"
      "mset (pending s1) = add_mset Cl_credentials (mset (pending ?s0))"
    using Request_step [OF assms delegate_init_inv none, of "request_kind_value Credentials"
        "Credentials_request cred 1" Cl_credentials 1000] by blast
  have p0: "pending ?s0 = []" by (simp add: pending_def delegate_init_def)
  obtain s2 where s2: "OnResponse 0 (request_kind_value Credentials) (code_value OK) (Some Credentials_response) s1 =
      Inr ([Run_closure Cl_credentials (code_value OK) None (Some Credentials_response)], s2)" "delegate_inv s2"
      "mset (pending s1) = add_mset Cl_credentials (mset (pending s2))"
    using OnResponse_step [OF s1(2), of 0 "Some Cl_credentials" "request_kind_value Credentials" "code_value OK"
        "Some Credentials_response"] s1(3) by auto
  have "mset (pending s2) = {#}" using s2(3) s1(4) p0 by simp
  then have p2: "pending s2 = []" by simp
  define ch where "ch = (channel_init cred refed)\<lparr>ch_socket := Some refed, ch_service := \<lparr>svc_seq = 1\<rparr>,
    ch_delegate := s2, ch_connected := True, ch_ref_count := (if refed then 1 else 0)\<rparr>"
  have "channel_connected rc cred refed = Inr ch"
    using s1(1) s2(1)
    by (simp add: channel_connected_def Channel_OnConnect_def channel_init_def NewControllerWithTimeout_def next_seq_def
        channel_Request_def Service_Request_def channel_delegate_input_def delegate_step_def
        run_channel_closure_def socket_set_ref_def set_connected_def Channel_Ref_def ch_def
        del: not_None_eq)
  moreover have "channel_ok (if refed then 1 else 0) ch"
    using s2(2) p2 by (simp add: channel_ok_def users_def calls_def ch_def channel_init_def)
  ultimately show ?thesis using p2 by (simp add: calls_def ch_def)
qed

section \<open>Reachable channels\<close>

text \<open>A connected channel with the balance of explicit references, the calls made and the callbacks delivered.\<close>

record channel_history =
  hi_refs :: nat
  hi_made :: nat
  hi_delivered :: nat
  hi_channel :: data_channel

inductive channel_trans :: "uv_status \<Rightarrow> bool \<Rightarrow> channel_history \<Rightarrow> channel_history \<Rightarrow> bool" for rc js_ok where
  "admissible i (hi_refs h) (hi_channel h) \<Longrightarrow> channel_step rc js_ok i (hi_channel h) = Inr (out, ch) \<Longrightarrow>
   channel_trans rc js_ok h
     \<lparr>hi_refs = explicit_refs i (hi_refs h),
      hi_made = hi_made h + (case i of In_call m params timeout \<Rightarrow> 1 | _ \<Rightarrow> 0),
      hi_delivered = hi_delivered h + js_callbacks out, hi_channel = ch\<rparr>"

inductive_cases channel_transE: "channel_trans rc js_ok h h'"

definition channel_start :: "uv_status \<Rightarrow> channel_history \<Rightarrow> bool" where
  "channel_start rc h =
     (hi_made h = 0 \<and> hi_delivered h = 0 \<and>
      (\<exists>cred refed. channel_connected rc cred refed = Inr (hi_channel h) \<and> hi_refs h = (if refed then 1 else 0)))"

definition channel_inv :: "channel_history \<Rightarrow> bool" where
  "channel_inv h =
     (channel_ok (hi_refs h) (hi_channel h) \<and> calls (hi_channel h) + hi_delivered h = hi_made h)"

interpretation channel_sys: invariant_system "\<lambda>h. uv_timer_ok rc \<and> channel_start rc h" "channel_trans rc js_ok" channel_inv
  for rc js_ok
proof unfold_locales
  fix h
  assume "uv_timer_ok rc \<and> channel_start rc h"
  then obtain cred refed where "uv_timer_ok rc" "channel_connected rc cred refed = Inr (hi_channel h)"
      "hi_refs h = (if refed then 1 else 0)" "hi_made h = 0" "hi_delivered h = 0" by (auto simp: channel_start_def)
  then show "channel_inv h" using channel_connected_ok [of rc cred refed] by (auto simp: channel_inv_def)
next
  fix h h'
  assume inv: "channel_inv h" and "channel_trans rc js_ok h h'"
  from this(2) obtain i out where i: "admissible i (hi_refs h) (hi_channel h)"
      "channel_step rc js_ok i (hi_channel h) = Inr (out, hi_channel h')"
      "hi_refs h' = explicit_refs i (hi_refs h)" "hi_delivered h' = hi_delivered h + js_callbacks out"
      "hi_made h' = hi_made h + (case i of In_call m params timeout \<Rightarrow> 1 | _ \<Rightarrow> 0)"
    by (elim channel_transE) simp
  from channel_step_ok [OF _ i(1,2)] inv i(3-5) show "channel_inv h'" by (simp add: channel_inv_def)
qed


definition example_history :: "bool \<Rightarrow> channel_history" where
  "example_history refed =
     \<lparr>hi_refs = (if refed then 1 else 0), hi_made = 0, hi_delivered = 0,
      hi_channel = (case channel_connected uv_ok ''secret'' refed of Inr ch \<Rightarrow> ch)\<rparr>"

lemma example_history_start: "channel_start uv_ok (example_history refed)"
proof -
  obtain ch where "channel_connected uv_ok ''secret'' refed = Inr ch"
    using channel_connected_ok [OF uv_ok_timer, of "''secret''" refed] by blast
  then show ?thesis
    unfolding channel_start_def example_history_def by (intro conjI exI [of _ "''secret''"] exI [of _ refed]) simp_all
qed


section \<open>Translation of headers\<close>

lemma read_headers_flat:
  "read_headers (concat (map (\<lambda>(k, v). [NewFromUtf8 k, NewFromUtf8 v]) kvs)) =
     Inr (map (\<lambda>(k, v). (c_str k, c_str v)) kvs)"
  by (induction kvs) (auto simp: NewFromUtf8_def)

lemma read_pairs_array:
  "read_pairs (map (\<lambda>(k, v). JArray [NewFromUtf8 k, NewFromUtf8 v]) kvs) =
     Inr (map (\<lambda>(k, v). (c_str k, c_str v)) kvs)"
  by (induction kvs) (auto simp: NewFromUtf8_def js_Index_def)

lemma c_str_kvs: "\<forall>(k, v)\<in>set kvs. CHR 0x00 \<notin> set k \<and> CHR 0x00 \<notin> set v \<Longrightarrow>
    map (\<lambda>(k, v). (c_str k, c_str v)) kvs = kvs"
  by (induction kvs) (auto simp: c_str_def takeWhile_eq_all_conv)

definition fetch_params :: "string \<Rightarrow> string \<Rightarrow> key_values \<Rightarrow> u32 option \<Rightarrow> u32 \<Rightarrow> jsval" where
  "fetch_params url method headers sid rid =
     JObject ([(''url'', JString url), (''method'', JString method), (''headers'', flat_headers headers),
       (''requestId'', uint32_number rid)] @ (case sid of None \<Rightarrow> [] | Some s \<Rightarrow> [(''sid'', uint32_number s)]))"



text \<open>
  C17: a disconnect leaves the channel unsafe to use. Once the agent has gone (the socket is
  null), feedback for the last outstanding request of the agent and a call on an idle channel
  both dereference the null socket, although an answered call is protected against exactly
  this in \<open>Callback\<close>.
\<close>

theorem channel_use_after_disconnect:
  assumes "channel_ok n ch" "users n ch = 1" "omap_find (ch_callbacks ch) rid = Some t"
    and "CanonicalCode_IsValid cde" "channel_ok k idle" "users k idle = 0"
  shows "Channel_Feedback rid cde params (Channel_Disconnected ch) = Inl Null_deref \<and>
    JsCall rc js_ok m args timeout (Channel_Disconnected idle) = Inl Null_deref"
  using assms
  by (simp add: channel_ok_def Channel_Feedback_def Channel_Disconnected_def JsCall_def socket_set_ref_def CHECK_def)

definition idle_channel :: data_channel where
  "idle_channel = (channel_init [] False)\<lparr>ch_socket := Some False\<rparr>"

definition busy_channel :: data_channel where
  "busy_channel = (channel_init [] False)\<lparr>ch_socket := Some True, ch_ref_count := 1, ch_callbacks := [(3, R_trigger)]\<rparr>"

lemma example_channels:
  "channel_ok 0 idle_channel" "users 0 idle_channel = 0" "channel_ok 0 busy_channel" "users 0 busy_channel = 1"
  using delegate_init_inv
  by (simp_all add: idle_channel_def busy_channel_def channel_init_def channel_ok_def users_def calls_def pending_def
      delegate_init_def omap_wf_def)

theorem channel_use_after_disconnect_witness:
  "Channel_Feedback 3 0 JUndefined (Channel_Disconnected busy_channel) = Inl Null_deref \<and>
   JsCall uv_ok True M_streamOpen JUndefined 0 (Channel_Disconnected idle_channel) = Inl Null_deref"
  by (rule channel_use_after_disconnect [OF example_channels(3,4) _ _ example_channels(1,2)])
    (simp_all add: busy_channel_def channel_init_def omap_find_def CanonicalCode_IsValid_def)

text \<open>
  C18: the delegate correlates answers by id alone. An answer with the id of a pending call
  whose body is of another message type reaches the call's closure, which casts it to the
  type it expects, whatever kind the answer's header names.
\<close>

theorem channel_response_type_confusion:
  assumes "channel_ok n ch" "omap_find (dl_callbacks (fst (ch_delegate ch))) rid = Some (Some (Cl_call m rid))"
    and "call_response m body = Inl Bad_cast"
  shows "channel_step rc js_ok (In_response rid kind (code_value OK) body) ch = Inl Bad_cast"
proof -
  have "delegate_inv (ch_delegate ch)" using assms(1) by (simp add: channel_ok_def)
  from OnResponse_step [OF this assms(2), of kind "code_value OK" "Some body"]
  obtain s' where "OnResponse rid kind (code_value OK) (Some body) (ch_delegate ch) =
      Inr ([Run_closure (Cl_call m rid) (code_value OK) None (Some body)], s')" by auto
  then show ?thesis
    using assms(3) by (simp add: channel_step_def channel_delegate_input_def delegate_step_def run_channel_closure_def)
qed

definition fetching_channel :: data_channel where
  "fetching_channel =
     (channel_init [] False)\<lparr>ch_socket := Some True, ch_ref_count := 1,
        ch_delegate := (\<lparr>dl_callbacks = [(0, Some (Cl_call M_fetch 0))], dl_timers = [(0, 0)]\<rparr>,
          snd (new_handle (UvTimer 9) (Cb_request_timeout 0 11) uv_loop_init))\<rparr>"

lemma fetching_channel_ok: "channel_ok 0 fetching_channel"
proof -
  have "delegate_inv (\<lparr>dl_callbacks = [(0, Some (Cl_call M_fetch 0))], dl_timers = [(0, 0)]\<rparr>,
      snd (new_handle (UvTimer 9) (Cb_request_timeout 0 11) uv_loop_init))"
    by (rule delegate_invI)
      (auto simp: omap_wf_def omap_find_def new_handle_def uv_loop_init_def uv_loop_wf_def open_handles_def
        split: if_splits option.splits)
  then show ?thesis
    by (simp add: fetching_channel_def channel_init_def channel_ok_def users_def calls_def pending_def)
qed

theorem channel_response_type_confusion_witness:
  "channel_step uv_ok True (In_response 0 3 (code_value OK) (StreamOpen_response 7)) fetching_channel = Inl Bad_cast"
  by (rule channel_response_type_confusion [where m = M_fetch, OF fetching_channel_ok])
    (simp_all add: fetching_channel_def omap_find_def CallFetch_response_def)

end
