(* ===== verification/AlarmTimer.thy ===== *)
theory AlarmTimer
  imports Prelude
begin

text \<open>
  The signal-driven timers of src/src/alarm_timer.cc. Times are nanoseconds, below \<open>2 ^ 53\<close>
  so that the double arithmetic of the constructor is exact. A handler is a value of an
  arbitrary type; triggering it is an effect. \<open>SIGALRM\<close> is blocked while \<open>create_timer\<close> and
  \<open>close\<close> run, so the three operations never overlap.

  The timer set is listed in order. \<open>std::set\<close> places a new element by comparing it with
  elements on a path of its tree, going left when the new one compares less; on a set whose
  elements the new one does not precede come before those it precedes, the place found is
  in front of the first element it precedes, and the element before it is asked whether it
  precedes the new one.
\<close>

record 'h AlarmTimer =
  at_id :: nat
  at_handler :: 'h
  at_time_when_set :: nat
  at_time_when_trigger :: nat
  at_timeouted :: bool

definition AlarmTimer_new :: "nat \<Rightarrow> nat \<Rightarrow> nat \<Rightarrow> 'h \<Rightarrow> 'h AlarmTimer" where
  "AlarmTimer_new next_sequence hrtime timeout handler =
     \<lparr>at_id = next_sequence, at_handler = handler, at_time_when_set = hrtime,
      at_time_when_trigger = hrtime + timeout * 1000000, at_timeouted = False\<rparr>"

definition AlarmTimerCompare :: "'h AlarmTimer \<Rightarrow> 'h AlarmTimer \<Rightarrow> bool" where
  "AlarmTimerCompare a b =
     (if at_time_when_trigger a < at_time_when_trigger b then True else at_id a < at_id b)"

text \<open>The interval timer: seconds and microseconds to the next signal; 0 and 0 disarm it.\<close>

type_synonym itimer = "nat \<times> nat"

definition SetNextITimer :: "nat \<Rightarrow> nat \<Rightarrow> itimer" where
  "SetNextITimer trigger_hrtime base =
     (if trigger_hrtime \<ge> base
      then (let delta = trigger_hrtime - base in (delta div 1000000000, (delta mod 1000000000) div 1000))
      else (0, 1))"

record 'h AlarmTimerLathe =
  al_set :: "'h AlarmTimer list"
  al_next_sequence :: nat
  al_itimer :: itimer

definition lathe_init :: "'h AlarmTimerLathe" where
  "lathe_init = \<lparr>al_set = [], al_next_sequence = 0, al_itimer = (0, 0)\<rparr>"

text \<open>\<open>std::set::insert\<close>: in front of the first element the new one precedes, unless its neighbour does not precede it.\<close>

definition set_insert :: "'h AlarmTimer \<Rightarrow> 'h AlarmTimer list \<Rightarrow> 'h AlarmTimer list" where
  "set_insert t ts =
     (let before = takeWhile (\<lambda>x. \<not> AlarmTimerCompare t x) ts;
          rest = dropWhile (\<lambda>x. \<not> AlarmTimerCompare t x) ts
      in if before = [] \<or> AlarmTimerCompare (last before) t then before @ t # rest else ts)"

fun drop_timeouted :: "'h AlarmTimer list \<Rightarrow> 'h AlarmTimer list" where
  "drop_timeouted [] = []"
| "drop_timeouted (t # ts) = (if at_timeouted t then drop_timeouted ts else t # ts)"

definition create_timer ::
  "bool \<Rightarrow> nat \<Rightarrow> nat \<Rightarrow> nat \<Rightarrow> 'h \<Rightarrow> 'h AlarmTimerLathe \<Rightarrow> (nat \<times> 'h AlarmTimerLathe) outcome" where
  "create_timer itimer_ok hrtime now timeout handler l =
     (let ts = drop_timeouted (al_set l);
          t = AlarmTimer_new (al_next_sequence l) hrtime timeout handler;
          ts = set_insert t ts
      in case ts of
           [] \<Rightarrow> Inl Null_deref
         | first # _ \<Rightarrow>
             obind (CHECK itimer_ok) (\<lambda>_.
             Inr (at_id t, \<lparr>al_set = ts, al_next_sequence = al_next_sequence l + 1,
                            al_itimer = SetNextITimer (at_time_when_trigger first) now\<rparr>)))"

fun erase_timer :: "nat \<Rightarrow> 'h AlarmTimer list \<Rightarrow> 'h AlarmTimer list" where
  "erase_timer timer_id [] = []"
| "erase_timer timer_id (t # ts) = (if at_id t = timer_id then ts else t # erase_timer timer_id ts)"

definition close_timer :: "bool \<Rightarrow> nat \<Rightarrow> nat \<Rightarrow> 'h AlarmTimerLathe \<Rightarrow> 'h AlarmTimerLathe outcome" where
  "close_timer itimer_ok now timer_id l =
     (let ts = erase_timer timer_id (al_set l)
      in obind (CHECK itimer_ok) (\<lambda>_.
         Inr (l\<lparr>al_set := ts,
                al_itimer := (case ts of [] \<Rightarrow> (0, 0) | t # _ \<Rightarrow> SetNextITimer (at_time_when_trigger t) now)\<rparr>)))"

text \<open>
  The loop of \<open>DispatchSignal\<close>: the timers as it leaves them, the handlers it triggers in
  order, and the interval timer if it reaches one that is not due.
\<close>

fun dispatch_loop :: "nat \<Rightarrow> 'h AlarmTimer list \<Rightarrow> 'h AlarmTimer list \<times> 'h AlarmTimer list \<times> itimer option" where
  "dispatch_loop now [] = ([], [], None)"
| "dispatch_loop now (t # ts) =
     (if at_time_when_trigger t > now then (t # ts, [], Some (SetNextITimer (at_time_when_trigger t) now))
      else (case dispatch_loop now ts of (ts', fired, it) \<Rightarrow>
              if at_timeouted t then (t # ts', fired, it)
              else (t\<lparr>at_timeouted := True\<rparr> # ts', t # fired, it)))"

definition DispatchSignal ::
  "bool \<Rightarrow> nat \<Rightarrow> 'h AlarmTimerLathe \<Rightarrow> ('h AlarmTimer list \<times> 'h AlarmTimerLathe) outcome" where
  "DispatchSignal itimer_ok now l =
     (case dispatch_loop now (al_set l) of (ts, fired, it) \<Rightarrow>
        (case it of
           None \<Rightarrow> Inr (fired, l\<lparr>al_set := ts, al_itimer := (0, 0)\<rparr>)
         | Some v \<Rightarrow> obind (CHECK itimer_ok) (\<lambda>_. Inr (fired, l\<lparr>al_set := ts, al_itimer := v\<rparr>))))"

section \<open>Order\<close>

definition earlier :: "'h AlarmTimer \<Rightarrow> 'h AlarmTimer \<Rightarrow> bool" where
  "earlier a b =
     (at_time_when_trigger a < at_time_when_trigger b \<or>
      at_time_when_trigger a = at_time_when_trigger b \<and> at_id a < at_id b)"

definition lathe_inv :: "'h AlarmTimerLathe \<Rightarrow> bool" where
  "lathe_inv l = (sorted_wrt earlier (al_set l) \<and> (\<forall>t\<in>set (al_set l). at_id t < al_next_sequence l))"

lemma drop_timeouted_suffix: "\<exists>p. ts = p @ drop_timeouted ts \<and> (\<forall>t\<in>set p. at_timeouted t)"
proof (induction ts)
  case (Cons t ts)
  then obtain p where p: "ts = p @ drop_timeouted ts" "\<forall>t\<in>set p. at_timeouted t" by blast
  show ?case
  proof (cases "at_timeouted t")
    case True
    with p show ?thesis by (intro exI [of _ "t # p"]) auto
  next
    case False
    then show ?thesis by (intro exI [of _ "[]"]) auto
  qed
qed simp

lemma sorted_insert_split:
  assumes "sorted_wrt R ts" "\<And>x. x \<in> set (takeWhile P ts) \<Longrightarrow> R x t" "\<And>x. x \<in> set (dropWhile P ts) \<Longrightarrow> R t x"
  shows "sorted_wrt R (takeWhile P ts @ t # dropWhile P ts)"
proof -
  have "sorted_wrt R (takeWhile P ts @ dropWhile P ts)" using assms(1) by simp
  then show ?thesis
    using assms(2,3) unfolding sorted_wrt_append by auto
qed

lemma dropWhile_later:
  assumes "sorted_wrt earlier ts" "x \<in> set (dropWhile (\<lambda>x. at_time_when_trigger x \<le> T) ts)"
  shows "T < at_time_when_trigger x"
  using assms by (induction ts) (auto simp: earlier_def split: if_splits)

lemma takeWhile_due:
  assumes "sorted_wrt earlier ts"
  shows "takeWhile (\<lambda>x. at_time_when_trigger x \<le> T) ts = filter (\<lambda>x. at_time_when_trigger x \<le> T) ts"
  using assms by (induction ts) (auto simp: earlier_def intro!: filter_False [symmetric])

lemma set_insert_sorted:
  assumes "sorted_wrt earlier ts" "\<forall>x\<in>set ts. at_id x < at_id t"
  shows "set_insert t ts =
      filter (\<lambda>x. at_time_when_trigger x \<le> at_time_when_trigger t) ts @ t #
      dropWhile (\<lambda>x. at_time_when_trigger x \<le> at_time_when_trigger t) ts"
    and "sorted_wrt earlier (set_insert t ts)" and "set (set_insert t ts) = insert t (set ts)"
proof -
  let ?P = "\<lambda>x. at_time_when_trigger x \<le> at_time_when_trigger t"
  have tw: "takeWhile (\<lambda>x. \<not> AlarmTimerCompare t x) ts = takeWhile ?P ts"
    "dropWhile (\<lambda>x. \<not> AlarmTimerCompare t x) ts = dropWhile ?P ts"
    using assms(2) by (auto simp: AlarmTimerCompare_def intro!: takeWhile_cong dropWhile_cong)
  have "takeWhile ?P ts \<noteq> [] \<Longrightarrow> AlarmTimerCompare (last (takeWhile ?P ts)) t"
    using assms(2) last_in_set [of "takeWhile ?P ts"] set_takeWhileD [of "last (takeWhile ?P ts)" ?P ts]
    by (auto simp: AlarmTimerCompare_def)
  then have eq: "set_insert t ts = takeWhile ?P ts @ t # dropWhile ?P ts"
    by (auto simp: set_insert_def Let_def tw)
  then show "set_insert t ts = filter ?P ts @ t # dropWhile ?P ts"
    by (simp add: takeWhile_due [OF assms(1)])
  show "sorted_wrt earlier (set_insert t ts)"
    unfolding eq using assms(2)
    by (intro sorted_insert_split [OF assms(1)])
      (auto simp: earlier_def dest!: set_takeWhileD dropWhile_later [OF assms(1)])
  have "set ts = set (takeWhile ?P ts) \<union> set (dropWhile ?P ts)"
    unfolding set_append [symmetric] takeWhile_dropWhile_id ..
  then show "set (set_insert t ts) = insert t (set ts)" unfolding eq by (simp add: Un_commute)
qed

lemma erase_timer_sorted:
  "sorted_wrt R ts \<Longrightarrow> sorted_wrt R (erase_timer i ts)" "set (erase_timer i ts) \<subseteq> set ts"
proof -
  show sub: "set (erase_timer i ts) \<subseteq> set ts" for ts by (induction ts) auto
  show "sorted_wrt R ts \<Longrightarrow> sorted_wrt R (erase_timer i ts)"
    using sub by (induction ts) auto
qed

lemma dispatch_loop_sorted:
  assumes "sorted_wrt earlier ts"
  shows "dispatch_loop now ts =
    (map (\<lambda>t. if at_time_when_trigger t \<le> now then t\<lparr>at_timeouted := True\<rparr> else t) ts,
     filter (\<lambda>t. at_time_when_trigger t \<le> now \<and> \<not> at_timeouted t) ts,
     (case filter (\<lambda>t. now < at_time_when_trigger t) ts of
        [] \<Rightarrow> None | t # _ \<Rightarrow> Some (SetNextITimer (at_time_when_trigger t) now)))"
  using assms
proof (induction ts)
  case (Cons t ts)
  show ?case
  proof (cases "now < at_time_when_trigger t")
    case True
    then have "\<forall>x\<in>set ts. now < at_time_when_trigger x" using Cons.prems by (auto simp: earlier_def)
    then have "map (\<lambda>t. if at_time_when_trigger t \<le> now then t\<lparr>at_timeouted := True\<rparr> else t) ts = ts"
      "filter (\<lambda>t. at_time_when_trigger t \<le> now \<and> \<not> at_timeouted t) ts = []"
      by (auto simp: filter_empty_conv intro!: map_idI)
    then show ?thesis using True by simp
  next
    case False
    have "t\<lparr>at_timeouted := True\<rparr> = t" if "at_timeouted t" using that by simp
    then show ?thesis using False Cons by (auto simp: not_less)
  qed
qed simp

section \<open>Every order of operations\<close>

datatype 'h lathe_event = Create nat nat nat 'h | Close nat nat | Signal nat

definition lathe_step :: "'h lathe_event \<Rightarrow> 'h AlarmTimerLathe \<Rightarrow> ('h AlarmTimer list \<times> 'h AlarmTimerLathe) outcome" where
  "lathe_step e l =
     (case e of
        Create hrtime now timeout h \<Rightarrow> obind (create_timer True hrtime now timeout h l) (\<lambda>(i, l). Inr ([], l))
      | Close now i \<Rightarrow> obind (close_timer True now i l) (\<lambda>l. Inr ([], l))
      | Signal now \<Rightarrow> DispatchSignal True now l)"

inductive lathe_trans :: "'h AlarmTimerLathe \<Rightarrow> 'h AlarmTimerLathe \<Rightarrow> bool" where
  "lathe_step e l = Inr (fired, l') \<Longrightarrow> lathe_trans l l'"

lemma create_timer_ok:
  assumes "lathe_inv l"
  shows "\<exists>first rest. set_insert (AlarmTimer_new (al_next_sequence l) hrtime timeout h) (drop_timeouted (al_set l)) =
      first # rest \<and>
    create_timer True hrtime now timeout h l =
      Inr (al_next_sequence l, \<lparr>al_set = first # rest, al_next_sequence = al_next_sequence l + 1,
        al_itimer = SetNextITimer (at_time_when_trigger first) now\<rparr>) \<and>
    lathe_inv \<lparr>al_set = first # rest, al_next_sequence = al_next_sequence l + 1,
        al_itimer = SetNextITimer (at_time_when_trigger first) now\<rparr>"
proof -
  let ?t = "AlarmTimer_new (al_next_sequence l) hrtime timeout h"
  let ?ts = "drop_timeouted (al_set l)"
  obtain p where p: "al_set l = p @ ?ts" using drop_timeouted_suffix by blast
  have inv: "sorted_wrt earlier (al_set l)" "\<forall>t\<in>set (al_set l). at_id t < al_next_sequence l"
    using assms by (simp_all add: lathe_inv_def)
  have s: "sorted_wrt earlier ?ts" using inv(1) by (subst (asm) p) (simp add: sorted_wrt_append)
  have sub: "set ?ts \<subseteq> set (al_set l)" by (subst (2) p) simp
  have ids: "\<forall>x\<in>set ?ts. at_id x < at_id ?t" using inv(2) sub by (auto simp: AlarmTimer_new_def)
  note ins = set_insert_sorted [OF s ids]
  have "set_insert ?t ?ts \<noteq> []" unfolding ins(1) by simp
  then obtain first rest where fr: "set_insert ?t ?ts = first # rest" by (cases "set_insert ?t ?ts") auto
  have "\<forall>x\<in>set (set_insert ?t ?ts). at_id x < al_next_sequence l + 1"
    unfolding ins(3) using inv(2) sub by (auto simp: AlarmTimer_new_def intro: less_SucI)
  then have "lathe_inv \<lparr>al_set = first # rest, al_next_sequence = al_next_sequence l + 1,
        al_itimer = SetNextITimer (at_time_when_trigger first) now\<rparr>"
    using ins(2) by (simp add: lathe_inv_def fr)
  moreover have "at_id ?t = al_next_sequence l" by (simp add: AlarmTimer_new_def)
  ultimately show ?thesis by (simp add: create_timer_def Let_def fr)
qed

lemma sorted_wrt_earlier_map:
  "sorted_wrt earlier (map f ts) \<longleftrightarrow> sorted_wrt earlier ts"
  if "\<And>t. at_time_when_trigger (f t) = at_time_when_trigger t \<and> at_id (f t) = at_id t"
  using that by (induction ts) (auto simp: earlier_def)

lemma DispatchSignal_ok:
  assumes "lathe_inv l"
  shows "\<exists>l'. DispatchSignal True now l =
      Inr (filter (\<lambda>t. at_time_when_trigger t \<le> now \<and> \<not> at_timeouted t) (al_set l), l') \<and> lathe_inv l' \<and>
    al_set l' = map (\<lambda>t. if at_time_when_trigger t \<le> now then t\<lparr>at_timeouted := True\<rparr> else t) (al_set l) \<and>
    al_itimer l' = (case filter (\<lambda>t. now < at_time_when_trigger t) (al_set l) of
      [] \<Rightarrow> (0, 0) | t # _ \<Rightarrow> SetNextITimer (at_time_when_trigger t) now)"
proof -
  have s: "sorted_wrt earlier (al_set l)" using assms by (simp add: lathe_inv_def)
  let ?f = "\<lambda>t. if at_time_when_trigger t \<le> now then t\<lparr>at_timeouted := True\<rparr> else t"
  have "sorted_wrt earlier (map ?f (al_set l))" using s by (subst sorted_wrt_earlier_map) auto
  moreover have "\<forall>t\<in>set (map ?f (al_set l)). at_id t < al_next_sequence l"
    using assms by (auto simp: lathe_inv_def)
  ultimately show ?thesis
    by (auto simp: DispatchSignal_def dispatch_loop_sorted [OF s] lathe_inv_def split: list.splits)
qed

lemma lathe_step_inv:
  assumes "lathe_inv l" "lathe_step e l = Inr (fired, l')"
  shows "lathe_inv l'"
proof (cases e)
  case (Create hrtime now timeout h)
  with assms create_timer_ok [OF assms(1), of hrtime timeout h now] show ?thesis
    by (auto simp: lathe_step_def)
next
  case (Close now i)
  have "sorted_wrt earlier (erase_timer i (al_set l))" "set (erase_timer i (al_set l)) \<subseteq> set (al_set l)"
    using assms(1) by (simp_all add: lathe_inv_def erase_timer_sorted)
  with Close assms show ?thesis
    by (auto simp: lathe_step_def close_timer_def Let_def lathe_inv_def)
next
  case (Signal now)
  with assms DispatchSignal_ok [OF assms(1), of now] show ?thesis by (auto simp: lathe_step_def)
qed

interpretation lathe_sys: invariant_system "\<lambda>l. l = lathe_init" lathe_trans lathe_inv
proof unfold_locales
  show "l = lathe_init \<Longrightarrow> lathe_inv l" for l :: "'a AlarmTimerLathe"
    by (simp add: lathe_init_def lathe_inv_def)
  show "lathe_inv l \<Longrightarrow> lathe_trans l l' \<Longrightarrow> lathe_inv l'" for l l' :: "'a AlarmTimerLathe"
    by (auto elim!: lathe_trans.cases intro: lathe_step_inv)
qed

lemma filter_mark_due:
  "filter (\<lambda>t. at_time_when_trigger t \<le> now' \<and> \<not> at_timeouted t)
     (map (\<lambda>t. if at_time_when_trigger t \<le> now then t\<lparr>at_timeouted := True\<rparr> else t) ts) =
   filter (\<lambda>t. now < at_time_when_trigger t \<and> at_time_when_trigger t \<le> now' \<and> \<not> at_timeouted t) ts"
  by (induction ts) auto

text \<open>
  C22: timers fire in order and once. Although the comparison of the set is not an order
  (of two timers each may precede the other), in every state reached by any sequence of
  \<open>create_timer\<close>, \<open>close\<close> and signals a signal at time \<open>now\<close> triggers exactly the timers that
  are due and have not been triggered, earliest deadline first and in order of creation
  among equals; a second signal at any later time does not trigger any of them again.
\<close>

theorem alarm_signal_fires_due_once:
  assumes "lathe_trans\<^sup>*\<^sup>* lathe_init l" "now \<le> now'"
  shows "\<exists>l' l''. DispatchSignal True now l =
      Inr (filter (\<lambda>t. at_time_when_trigger t \<le> now \<and> \<not> at_timeouted t) (al_set l), l') \<and>
    sorted_wrt earlier (al_set l) \<and>
    DispatchSignal True now' l' =
      Inr (filter (\<lambda>t. now < at_time_when_trigger t \<and> at_time_when_trigger t \<le> now' \<and> \<not> at_timeouted t) (al_set l), l'')"
proof -
  have inv: "lathe_inv l" using lathe_sys.inv_reachable [OF refl assms(1)] .
  obtain l' where l': "DispatchSignal True now l =
      Inr (filter (\<lambda>t. at_time_when_trigger t \<le> now \<and> \<not> at_timeouted t) (al_set l), l')" "lathe_inv l'"
      "al_set l' = map (\<lambda>t. if at_time_when_trigger t \<le> now then t\<lparr>at_timeouted := True\<rparr> else t) (al_set l)"
    using DispatchSignal_ok [OF inv, of now] by auto
  have "filter (\<lambda>t. at_time_when_trigger t \<le> now' \<and> \<not> at_timeouted t) (al_set l') =
      filter (\<lambda>t. now < at_time_when_trigger t \<and> at_time_when_trigger t \<le> now' \<and> \<not> at_timeouted t) (al_set l)"
    unfolding l'(3) by (rule filter_mark_due)
  with DispatchSignal_ok [OF l'(2), of now'] l'(1) inv show ?thesis by (auto simp: lathe_inv_def)
qed

definition example_lathe :: "string AlarmTimerLathe" where
  "example_lathe = \<lparr>al_set = [AlarmTimer_new 0 100 1 ''a''], al_next_sequence = 1, al_itimer = (0, 1000)\<rparr>"

lemma example_lathe_reachable: "lathe_trans\<^sup>*\<^sup>* lathe_init example_lathe"
proof -
  have "lathe_step (Create 100 100 1 ''a'') lathe_init = Inr ([], example_lathe)"
    by (simp add: lathe_step_def create_timer_def lathe_init_def set_insert_def AlarmTimer_new_def
        SetNextITimer_def example_lathe_def)
  then show ?thesis by (auto intro: lathe_trans.intros)
qed

theorem alarm_signal_fires_due_once_witness:
  "\<exists>l' l''. DispatchSignal True 2000000 example_lathe =
      Inr (filter (\<lambda>t. at_time_when_trigger t \<le> 2000000 \<and> \<not> at_timeouted t) (al_set example_lathe), l') \<and>
    sorted_wrt earlier (al_set example_lathe) \<and>
    DispatchSignal True 3000000 l' =
      Inr (filter (\<lambda>t. 2000000 < at_time_when_trigger t \<and> at_time_when_trigger t \<le> 3000000 \<and> \<not> at_timeouted t)
        (al_set example_lathe), l'')"
  by (rule alarm_signal_fires_due_once [OF example_lathe_reachable]) simp



end
