(* ===== verification/MacroTaskQueue.thy ===== *)
theory MacroTaskQueue
  imports Prelude
begin

text \<open>
  The queue of long-running native tasks of src/src/macro_task_queue.cc. An idle handle of
  the event loop calls \<open>TickMacroTaskQueue\<close> once per iteration while the queue is active;
  a tick gives up to \<open>max_tick_per_loop\<close> tasks one unit of work each and puts the unfinished
  ones back at the end.

  The virtual methods of \<open>MacroTask\<close> are the record \<open>MacroTask_methods\<close>, over an arbitrary
  type of tasks and the state of the rest of the program, which \<open>OnWorkTick\<close> and
  \<open>OnDone\<close> change; \<open>OnDone\<close> also gives the tasks it enqueues. \<open>uv_idle_start\<close> returns 0 on
  an initialised handle. The locale \<open>macro_task\<close> is the contract of a family of tasks:
  nothing aborts, an invariant is kept, and some well-founded measure decreases with each
  unit of work.
\<close>

record ('t, 'w) MacroTask_methods =
  OnWorkTick :: "'t \<Rightarrow> 'w \<Rightarrow> ('t \<times> 'w) outcome"
  is_done :: "'t \<Rightarrow> bool"
  has_error :: "'t \<Rightarrow> bool"
  OnDone :: "'t \<Rightarrow> 'w \<Rightarrow> ('t list \<times> 'w) outcome"

record 't MacroTaskQueue =
  mq_max_tick_per_loop :: int
  mq_active :: bool
  mq_idle_started :: bool
  mq_queue :: "'t list"

definition MacroTaskQueue_Create :: "int \<Rightarrow> 't MacroTaskQueue" where
  "MacroTaskQueue_Create max_tick_per_loop =
     \<lparr>mq_max_tick_per_loop = max_tick_per_loop, mq_active = False, mq_idle_started = False, mq_queue = []\<rparr>"

definition Enqueue :: "'t \<Rightarrow> 't MacroTaskQueue \<Rightarrow> 't MacroTaskQueue" where
  "Enqueue task q =
     (let q = q\<lparr>mq_queue := mq_queue q @ [task]\<rparr>
      in if mq_active q then q else q\<lparr>mq_idle_started := True, mq_active := True\<rparr>)"

text \<open>The \<open>while\<close> loop; the counter is what is left of \<open>max_tick_per_loop - processed\<close>.\<close>

fun tick_loop ::
  "('t, 'w) MacroTask_methods \<Rightarrow> nat \<Rightarrow> 't MacroTaskQueue \<Rightarrow> 'w \<Rightarrow> ('t MacroTaskQueue \<times> 'w) outcome" where
  "tick_loop vt 0 q w = Inr (q, w)"
| "tick_loop vt (Suc n) q w =
     (case mq_queue q of
        [] \<Rightarrow> Inr (q, w)
      | task # rest \<Rightarrow>
          (let q = q\<lparr>mq_queue := rest\<rparr>
           in obind (OnWorkTick vt task w) (\<lambda>(task, w).
                if is_done vt task \<or> has_error vt task
                then obind (OnDone vt task w) (\<lambda>(new, w). tick_loop vt n (fold Enqueue new q) w)
                else tick_loop vt n (q\<lparr>mq_queue := mq_queue q @ [task]\<rparr>) w)))"

definition TickMacroTaskQueue ::
  "('t, 'w) MacroTask_methods \<Rightarrow> 't MacroTaskQueue \<Rightarrow> 'w \<Rightarrow> ('t MacroTaskQueue \<times> 'w) outcome" where
  "TickMacroTaskQueue vt q w =
     obind (tick_loop vt (nat (mq_max_tick_per_loop q)) q w) (\<lambda>(q, w).
       if mq_queue q = [] then Inr (q\<lparr>mq_idle_started := False, mq_active := False\<rparr>, w)
       else Inr (q\<lparr>mq_active := True\<rparr>, w))"

text \<open>Iterations of the event loop: the callback runs while the idle handle is started.\<close>

fun idle_ticks ::
  "('t, 'w) MacroTask_methods \<Rightarrow> nat \<Rightarrow> 't MacroTaskQueue \<Rightarrow> 'w \<Rightarrow> ('t MacroTaskQueue \<times> 'w) outcome" where
  "idle_ticks vt 0 q w = Inr (q, w)"
| "idle_ticks vt (Suc n) q w =
     (if mq_idle_started q then obind (TickMacroTaskQueue vt q w) (\<lambda>(q, w). idle_ticks vt n q w) else Inr (q, w))"

definition mq_wf :: "'t MacroTaskQueue \<Rightarrow> bool" where
  "mq_wf q = (mq_active q = mq_idle_started q \<and> mq_active q = (mq_queue q \<noteq> []))"

lemma mq_wf_Create [simp]: "mq_wf (MacroTaskQueue_Create m)"
  by (simp add: mq_wf_def MacroTaskQueue_Create_def)

lemma mq_wf_Enqueue: "mq_wf q \<Longrightarrow> mq_wf (Enqueue t q)"
  by (auto simp: mq_wf_def Enqueue_def Let_def)

lemma mq_wf_Enqueue_all: "mq_wf q \<Longrightarrow> mq_wf (fold Enqueue ts q)"
  by (induction ts arbitrary: q) (auto intro: mq_wf_Enqueue)

lemma Enqueue_queue [simp]: "mq_queue (Enqueue t q) = mq_queue q @ [t]"
  by (simp add: Enqueue_def Let_def)

lemma Enqueue_all_queue [simp]: "mq_queue (fold Enqueue ts q) = mq_queue q @ ts"
  by (induction ts arbitrary: q) auto

lemma Enqueue_max [simp]: "mq_max_tick_per_loop (Enqueue t q) = mq_max_tick_per_loop q"
  by (simp add: Enqueue_def Let_def)

lemma Enqueue_all_max [simp]: "mq_max_tick_per_loop (fold Enqueue ts q) = mq_max_tick_per_loop q"
  by (induction ts arbitrary: q) auto

lemma Enqueue_all_active:
  "mq_active q \<Longrightarrow> mq_active (fold Enqueue ts q) \<and> mq_idle_started (fold Enqueue ts q) = mq_idle_started q"
  by (induction ts arbitrary: q) (auto simp: Enqueue_def Let_def)

text \<open>What a tick leaves of the queue's flags, whatever the tasks do.\<close>

lemma tick_loop_flags:
  "tick_loop vt n q w = Inr (q', w') \<Longrightarrow> mq_active q \<Longrightarrow>
   mq_active q' \<and> mq_idle_started q' = mq_idle_started q \<and> mq_max_tick_per_loop q' = mq_max_tick_per_loop q"
proof (induction vt n q w rule: tick_loop.induct)
  case (2 vt n q w)
  show ?case
  proof (cases "mq_queue q")
    case (Cons task rest)
    with "2.prems"(1) obtain task' w1 where
      t: "OnWorkTick vt task w = Inr (task', w1)" by (auto simp: Let_def outcome_simps)
    show ?thesis
    proof (cases "is_done vt task' \<or> has_error vt task'")
      case True
      with "2.prems"(1) Cons t obtain new w2 where
        d: "OnDone vt task' w1 = Inr (new, w2)" by (auto simp: Let_def outcome_simps)
      show ?thesis
        using "2.IH"(1) [OF Cons refl t refl True d refl] "2.prems" Cons t True d
          Enqueue_all_active [of "q\<lparr>mq_queue := rest\<rparr>" new]
        by (simp add: Let_def)
    next
      case False
      then show ?thesis
        using "2.IH"(2) [OF Cons refl t refl False] "2.prems" Cons t by (simp add: Let_def)
    qed
  qed (use "2.prems" in simp)
qed simp

lemma Tick_wf:
  assumes "TickMacroTaskQueue vt q w = Inr (q', w')" "mq_wf q" "mq_idle_started q"
  shows "mq_wf q' \<and> mq_max_tick_per_loop q' = mq_max_tick_per_loop q"
proof -
  obtain q1 w1 where l: "tick_loop vt (nat (mq_max_tick_per_loop q)) q w = Inr (q1, w1)"
    using assms(1) by (auto simp: TickMacroTaskQueue_def outcome_simps)
  have "mq_active q" using assms(2,3) by (simp add: mq_wf_def)
  from tick_loop_flags [OF l this] assms l show ?thesis
    by (cases "mq_queue q1 = []") (auto simp: TickMacroTaskQueue_def mq_wf_def)
qed

text \<open>
  The contract: in a state that satisfies the invariant the task at the front can be given
  a unit of work and, if that finishes it, be completed; both keep the invariant and
  descend in the well-founded relation.
\<close>

locale macro_task =
  fixes vt :: "('t, 'w) MacroTask_methods"
    and inv :: "'w \<Rightarrow> 't list \<Rightarrow> bool"
    and R :: "(('w \<times> 't list) \<times> ('w \<times> 't list)) set"
  assumes wf_R: "wf R"
    and unit_of_work:
      "inv w (t # q) \<Longrightarrow>
       \<exists>t' w'. OnWorkTick vt t w = Inr (t', w') \<and>
         (if is_done vt t' \<or> has_error vt t'
          then \<exists>new w''. OnDone vt t' w' = Inr (new, w'') \<and> inv w'' (q @ new) \<and>
            ((w'', q @ new), (w, t # q)) \<in> R
          else inv w' (q @ [t']) \<and> ((w', q @ [t']), (w, t # q)) \<in> R)"
begin

lemma tick_loop_progress:
  "inv w (mq_queue q) \<Longrightarrow>
   \<exists>q' w'. tick_loop vt n q w = Inr (q', w') \<and> inv w' (mq_queue q') \<and>
     ((w', mq_queue q'), (w, mq_queue q)) \<in> R\<^sup>* \<and>
     (0 < n \<and> mq_queue q \<noteq> [] \<longrightarrow> ((w', mq_queue q'), (w, mq_queue q)) \<in> R\<^sup>+)"
proof (induction n arbitrary: q w)
  case (Suc n)
  show ?case
  proof (cases "mq_queue q")
    case Nil
    with Suc.prems show ?thesis by simp
  next
    case (Cons t rest)
    obtain t' w1 where t: "OnWorkTick vt t w = Inr (t', w1)"
      and c: "if is_done vt t' \<or> has_error vt t'
          then \<exists>new w''. OnDone vt t' w1 = Inr (new, w'') \<and> inv w'' (rest @ new) \<and>
            ((w'', rest @ new), (w, t # rest)) \<in> R
          else inv w1 (rest @ [t']) \<and> ((w1, rest @ [t']), (w, t # rest)) \<in> R"
      using unit_of_work [of w t rest] Suc.prems unfolding Cons by blast
    show ?thesis
    proof (cases "is_done vt t' \<or> has_error vt t'")
      case True
      with c obtain new w2 where d: "OnDone vt t' w1 = Inr (new, w2)" "inv w2 (rest @ new)"
        "((w2, rest @ new), (w, t # rest)) \<in> R" by auto
      let ?q = "fold Enqueue new (q\<lparr>mq_queue := rest\<rparr>)"
      obtain q' w' where "tick_loop vt n ?q w2 = Inr (q', w')" "inv w' (mq_queue q')"
        "((w', mq_queue q'), (w2, rest @ new)) \<in> R\<^sup>*"
        using Suc.IH [of w2 ?q] d(2) by auto
      moreover from this(3) d(3) have "((w', mq_queue q'), (w, mq_queue q)) \<in> R\<^sup>+"
        unfolding Cons by (rule rtrancl_into_trancl1)
      ultimately show ?thesis using Cons t True d(1)
        by (intro exI [of _ q'] exI [of _ w']) (simp add: trancl_into_rtrancl Let_def)
    next
      case False
      let ?q = "q\<lparr>mq_queue := rest @ [t']\<rparr>"
      from False c have d: "inv w1 (rest @ [t'])" "((w1, rest @ [t']), (w, t # rest)) \<in> R" by auto
      obtain q' w' where "tick_loop vt n ?q w1 = Inr (q', w')" "inv w' (mq_queue q')"
        "((w', mq_queue q'), (w1, rest @ [t'])) \<in> R\<^sup>*"
        using Suc.IH [of w1 ?q] d(1) by auto
      moreover from this(3) d(2) have "((w', mq_queue q'), (w, mq_queue q)) \<in> R\<^sup>+"
        unfolding Cons by (rule rtrancl_into_trancl1)
      ultimately show ?thesis using Cons t False
        by (intro exI [of _ q'] exI [of _ w']) (simp add: trancl_into_rtrancl Let_def)
    qed
  qed
qed simp

lemma Tick_progress:
  assumes "inv w (mq_queue q)"
  shows "\<exists>q' w'. TickMacroTaskQueue vt q w = Inr (q', w') \<and> inv w' (mq_queue q') \<and>
     (0 < mq_max_tick_per_loop q \<and> mq_queue q \<noteq> [] \<longrightarrow> ((w', mq_queue q'), (w, mq_queue q)) \<in> R\<^sup>+)"
proof -
  obtain q' w' where "tick_loop vt (nat (mq_max_tick_per_loop q)) q w = Inr (q', w')" "inv w' (mq_queue q')"
    "0 < mq_max_tick_per_loop q \<and> mq_queue q \<noteq> [] \<longrightarrow> ((w', mq_queue q'), (w, mq_queue q)) \<in> R\<^sup>+"
    using tick_loop_progress [OF assms, of "nat (mq_max_tick_per_loop q)"] by auto
  then show ?thesis by (cases "mq_queue q' = []") (simp_all add: TickMacroTaskQueue_def)
qed

lemma queue_drains:
  assumes "inv w (mq_queue q)" "mq_wf q" "0 < mq_max_tick_per_loop q"
  shows "\<exists>n q' w'. idle_ticks vt n q w = Inr (q', w') \<and> mq_queue q' = [] \<and> \<not> mq_active q' \<and> \<not> mq_idle_started q' \<and>
    inv w' []"
  using wf_trancl [OF wf_R] assms
proof (induction "(w, mq_queue q)" arbitrary: w q rule: wf_induct_rule)
  case less
  show ?case
  proof (cases "mq_queue q = []")
    case True
    then show ?thesis using less.prems by (intro exI [of _ 0]) (auto simp: mq_wf_def)
  next
    case False
    with less.prems have idle: "mq_idle_started q" by (auto simp: mq_wf_def)
    obtain q1 w1 where s: "TickMacroTaskQueue vt q w = Inr (q1, w1)" "inv w1 (mq_queue q1)"
      "((w1, mq_queue q1), (w, mq_queue q)) \<in> R\<^sup>+"
      using Tick_progress [OF less.prems(1)] False less.prems(3) by auto
    have "mq_wf q1" "0 < mq_max_tick_per_loop q1"
      using Tick_wf [OF s(1) less.prems(2) idle] less.prems(3) by auto
    with less.hyps [OF s(3,2)] obtain n q' w' where
      r: "idle_ticks vt n q1 w1 = Inr (q', w')"
        "mq_queue q' = []" "\<not> mq_active q'" "\<not> mq_idle_started q'" "inv w' []"
      by blast
    have "idle_ticks vt (Suc n) q w = Inr (q', w')" using s(1) idle r(1) by simp
    then show ?thesis using r(2-5) by blast
  qed
qed

end

end
