(* ===== verification/Zlib.thy ===== *)
theory Zlib
  imports MacroTaskQueue OrderedMap
begin

text \<open>
  Compression streams: src/src/zlib. A \<open>ZlibWrapper\<close> owns a \<open>z_stream\<close> and a queue of tasks,
  one for each \<open>push\<close> of the script; the tasks run on the macro task queue, one at a time
  for each wrapper.

  The library zlib is the record \<open>zlib\<close>, an argument of the definitions that call it; its
  statuses and flush modes are the integers of zlib.h. A \<open>z_stream\<close> is its internal state,
  the bytes from \<open>next_in\<close> (\<open>avail_in\<close> is their number) and \<open>avail_out\<close>. \<open>ResizableBuffer\<close>
  results are byte lists, \<open>Concat\<close> is appending (theory \<open>ResizableBuffer\<close>). A pointer to a
  task is a number never used before. A script function is a value of an arbitrary type;
  calling it is an effect, and the pushes the script makes before the call returns are
  taken from \<open>zs_script\<close>. A call back with an empty result is the last thing its \<open>push\<close> does,
  so the pushes made inside it are pushes that follow.
\<close>

section \<open>The library\<close>

abbreviation (input) Z_OK :: int where "Z_OK \<equiv> 0"
abbreviation (input) Z_STREAM_END :: int where "Z_STREAM_END \<equiv> 1"
abbreviation (input) Z_NEED_DICT :: int where "Z_NEED_DICT \<equiv> 2"
abbreviation (input) Z_STREAM_ERROR :: int where "Z_STREAM_ERROR \<equiv> - 2"
abbreviation (input) Z_DATA_ERROR :: int where "Z_DATA_ERROR \<equiv> - 3"
abbreviation (input) Z_MEM_ERROR :: int where "Z_MEM_ERROR \<equiv> - 4"
abbreviation (input) Z_BUF_ERROR :: int where "Z_BUF_ERROR \<equiv> - 5"
abbreviation (input) Z_NO_FLUSH :: int where "Z_NO_FLUSH \<equiv> 0"
abbreviation (input) Z_FINISH :: int where "Z_FINISH \<equiv> 4"

text \<open>A call of \<open>deflate\<close> or \<open>inflate\<close>: the new state, the status, how much input it took and what it wrote.\<close>

record 'z zcall =
  zc_state :: 'z
  zc_status :: int
  zc_consumed :: nat
  zc_out :: bytes

record 'z zlib =
  z_zero :: 'z
  deflateInit2 :: "int \<Rightarrow> int \<Rightarrow> int \<Rightarrow> int \<Rightarrow> 'z \<times> int"
  deflate :: "'z \<Rightarrow> int \<Rightarrow> bytes \<Rightarrow> nat \<Rightarrow> 'z zcall"
  deflateEnd :: "'z \<Rightarrow> 'z \<times> int"
  inflateInit2 :: "int \<Rightarrow> 'z \<times> int"
  inflate :: "'z \<Rightarrow> int \<Rightarrow> bytes \<Rightarrow> nat \<Rightarrow> 'z zcall"
  inflateEnd :: "'z \<Rightarrow> 'z \<times> int"
  z_msg :: "'z \<Rightarrow> string"

section \<open>Tasks and wrappers\<close>

record ZlibTask =
  zt_id :: nat
  zt_parent :: nat
  zt_unzip :: bool
  zt_input :: bytes
  zt_prepared :: bool
  zt_out :: bytes
  zt_flush_mode :: int
  zt_is_done :: bool
  zt_is_error :: bool
  zt_error :: string

datatype UnzipFirstTwoBytesParsedStatus = kNonParsed | kFirstParsed | kSecondParsed

abbreviation (input) ZipType_GZIP :: int where "ZipType_GZIP \<equiv> 0"
abbreviation (input) ZIP_TYPE_MAX :: int where "ZIP_TYPE_MAX \<equiv> 2"
abbreviation (input) UnzipType_GUNZIP :: int where "UnzipType_GUNZIP \<equiv> 0"
abbreviation (input) UnzipType_INFLATE :: int where "UnzipType_INFLATE \<equiv> 1"
abbreviation (input) UnzipType_UNZIP :: int where "UnzipType_UNZIP \<equiv> 2"
abbreviation (input) UNZIP_TYPE_MAX :: int where "UNZIP_TYPE_MAX \<equiv> 3"

record ('z, 'cb) ZlibWrapper =
  zw_unzip :: bool
  zw_type :: int
  zw_is_sync :: bool
  zw_window_bits :: int
  zw_stream :: 'z
  zw_next_in :: bytes
  zw_avail_out :: nat
  zw_chunk :: bytes
  zw_task_queue :: "ZlibTask list"
  zw_callback_map :: "(nat, 'cb) omap"
  zw_running :: bool
  zw_errored :: bool
  zw_finished :: bool
  zw_error :: string
  zw_inited :: bool
  zw_ended :: bool
  zw_level :: int
  zw_mem_level :: int
  zw_strategy :: int
  zw_first_two_bytes :: UnzipFirstTwoBytesParsedStatus
  zw_head_task :: "ZlibTask option"

datatype zresult = ZErr string | ZOut bytes

datatype 'cb zeffect = ZE_push nat bytes 'cb | ZE_callback nat 'cb zresult | ZE_throw nat string

datatype zreturn = Ret_none | Ret_buffer bytes | Ret_pair bytes bytes

definition ConvenientArrayBufferStore :: "bytes \<Rightarrow> nat \<Rightarrow> nat \<Rightarrow> bytes outcome" where
  "ConvenientArrayBufferStore array_buffer offset len =
     (if offset + len \<le> length array_buffer then Inr (take len (drop offset array_buffer)) else Inl Out_of_bounds)"

definition ZlibTask_new :: "nat \<Rightarrow> nat \<Rightarrow> bool \<Rightarrow> bytes \<Rightarrow> int \<Rightarrow> ZlibTask" where
  "ZlibTask_new i wrapper unzip input flush_mode =
     \<lparr>zt_id = i, zt_parent = wrapper, zt_unzip = unzip, zt_input = input, zt_prepared = False, zt_out = [],
      zt_flush_mode = flush_mode, zt_is_done = False, zt_is_error = False, zt_error = []\<rparr>"

definition MacroTask_Fail :: "string \<Rightarrow> ZlibTask \<Rightarrow> ZlibTask" where
  "MacroTask_Fail error t = t\<lparr>zt_is_error := True, zt_error := error\<rparr>"

definition MacroTask_Done :: "ZlibTask \<Rightarrow> ZlibTask" where
  "MacroTask_Done t = t\<lparr>zt_is_done := True\<rparr>"

text \<open>\<open>ZipWrapper::DoZlibEnd\<close> and \<open>UnzipWrapper::DoZlibEnd\<close>.\<close>

definition DoZlibEnd :: "'z zlib \<Rightarrow> ('z, 'cb) ZlibWrapper \<Rightarrow> ('z, 'cb) ZlibWrapper outcome" where
  "DoZlibEnd lib wr =
     (case (if zw_unzip wr then inflateEnd lib else deflateEnd lib) (zw_stream wr) of (z, ret) \<Rightarrow>
        obind (CHECK (ret = Z_OK \<or> ret = Z_DATA_ERROR)) (\<lambda>_. Inr (wr\<lparr>zw_stream := z\<rparr>)))"

definition OccurError :: "'z zlib \<Rightarrow> string \<Rightarrow> ('z, 'cb) ZlibWrapper \<Rightarrow> ('z, 'cb) ZlibWrapper outcome" where
  "OccurError lib error wr =
     DoZlibEnd lib (wr\<lparr>zw_running := False, zw_errored := True, zw_error := error, zw_ended := True\<rparr>)"

definition ZlibWrapper_End :: "'z zlib \<Rightarrow> ('z, 'cb) ZlibWrapper \<Rightarrow> ('z, 'cb) ZlibWrapper outcome" where
  "ZlibWrapper_End lib wr =
     DoZlibEnd lib (wr\<lparr>zw_running := False, zw_finished := True, zw_ended := True\<rparr>)"

definition TryTriggerNextTask :: "('z, 'cb) ZlibWrapper \<Rightarrow> ZlibTask list \<times> ('z, 'cb) ZlibWrapper" where
  "TryTriggerNextTask wr =
     (case zw_task_queue wr of
        t # ts \<Rightarrow> ([t], wr\<lparr>zw_task_queue := ts\<rparr>)
      | [] \<Rightarrow> ([], wr\<lparr>zw_running := False\<rparr>))"

definition ClearTaskCallback :: "nat \<Rightarrow> ('z, 'cb) ZlibWrapper \<Rightarrow> ('z, 'cb) ZlibWrapper" where
  "ClearTaskCallback key wr = wr\<lparr>zw_callback_map := omap_erase key (zw_callback_map wr)\<rparr>"

definition DoTaskCallback ::
  "nat \<Rightarrow> nat \<Rightarrow> zresult \<Rightarrow> ('z, 'cb) ZlibWrapper \<Rightarrow> 'cb zeffect list \<times> ('z, 'cb) ZlibWrapper" where
  "DoTaskCallback self key args wr =
     (case omap_find (zw_callback_map wr) key of
        None \<Rightarrow> ([], wr)
      | Some callback \<Rightarrow> ([ZE_callback self callback args], ClearTaskCallback key wr))"

definition Prepare :: "ZlibTask \<Rightarrow> ('z, 'cb) ZlibWrapper \<Rightarrow> ZlibTask \<times> ('z, 'cb) ZlibWrapper" where
  "Prepare t wr = (t\<lparr>zt_prepared := True\<rparr>, wr\<lparr>zw_next_in := zt_input t\<rparr>)"

definition ZlibTask_Done ::
  "'z zlib \<Rightarrow> bool \<Rightarrow> ZlibTask \<Rightarrow> ('z, 'cb) ZlibWrapper \<Rightarrow> (ZlibTask \<times> ('z, 'cb) ZlibWrapper) outcome" where
  "ZlibTask_Done lib all_done t wr =
     obind (if all_done then ZlibWrapper_End lib wr else Inr wr) (\<lambda>wr. Inr (MacroTask_Done t, wr))"

definition ConcatChunkToResult :: "ZlibTask \<Rightarrow> ('z, 'cb) ZlibWrapper \<Rightarrow> ZlibTask outcome" where
  "ConcatChunkToResult t wr =
     obind (CHECK (length (zw_chunk wr) \<ge> zw_avail_out wr)) (\<lambda>_.
       let n = length (zw_chunk wr) - zw_avail_out wr
       in if n = 0 then Inr t else Inr (t\<lparr>zt_out := zt_out t @ take n (zw_chunk wr)\<rparr>))"

text \<open>One call of the library on the wrapper's stream, writing into the chunk buffer.\<close>

definition zlib_call ::
  "('z \<Rightarrow> int \<Rightarrow> bytes \<Rightarrow> nat \<Rightarrow> 'z zcall) \<Rightarrow> int \<Rightarrow> ('z, 'cb) ZlibWrapper \<Rightarrow> int \<times> ('z, 'cb) ZlibWrapper" where
  "zlib_call f flush_mode wr =
     (let r = f (zw_stream wr) flush_mode (zw_next_in wr) (zw_avail_out wr)
      in (zc_status r,
          wr\<lparr>zw_stream := zc_state r, zw_next_in := drop (zc_consumed r) (zw_next_in wr),
             zw_avail_out := zw_avail_out wr - length (zc_out r),
             zw_chunk := zc_out r @ drop (length (zc_out r)) (zw_chunk wr)\<rparr>))"

fun show_nat :: "nat \<Rightarrow> string" where
  "show_nat n = (if n < 10 then [char_of (48 + n)] else show_nat (n div 10) @ [char_of (48 + n mod 10)])"

declare show_nat.simps [simp del]

definition show_int :: "int \<Rightarrow> string" where
  "show_int i = (if i < 0 then ''-'' @ show_nat (nat (- i)) else show_nat (nat i))"

text \<open>The message in the 128-byte buffer.\<close>

definition zlib_failed :: "string \<Rightarrow> int \<Rightarrow> string \<Rightarrow> string" where
  "zlib_failed call status msg =
     take 127 (call @ ''() failed with status '' @ show_int status @ '', '' @ msg @ ''.'')"

text \<open>What follows the call in both \<open>OnWorkTick\<close> methods; \<open>all_done\<close> is the end of the stream.\<close>

definition finish_tick ::
  "'z zlib \<Rightarrow> string \<Rightarrow> bool \<Rightarrow> int \<Rightarrow> ZlibTask \<Rightarrow> ('z, 'cb) ZlibWrapper \<Rightarrow> (ZlibTask \<times> ('z, 'cb) ZlibWrapper) outcome" where
  "finish_tick lib error_msg all_done status t wr =
     (if error_msg \<noteq> [] then Inr (MacroTask_Fail error_msg t, wr)
      else obind (ConcatChunkToResult t wr) (\<lambda>t.
        if all_done then ZlibTask_Done lib True t wr
        else if zw_avail_out wr \<noteq> 0 then ZlibTask_Done lib False t wr
        else obind (CHECK (status = Z_OK)) (\<lambda>_. Inr (t, wr))))"

definition ZipTask_OnWorkTick ::
  "'z zlib \<Rightarrow> ZlibTask \<Rightarrow> ('z, 'cb) ZlibWrapper \<Rightarrow> (ZlibTask \<times> ('z, 'cb) ZlibWrapper) outcome" where
  "ZipTask_OnWorkTick lib t wr =
     (if zw_finished wr then Inr (MacroTask_Fail ''Compression already done.'' t, wr)
      else if zw_errored wr then Inr (MacroTask_Fail ''Compression already failed.'' t, wr)
      else case (if zt_prepared t then (t, wr) else Prepare t wr) of (t, wr) \<Rightarrow>
        (case zlib_call (deflate lib) (zt_flush_mode t) (wr\<lparr>zw_avail_out := length (zw_chunk wr)\<rparr>) of (status, wr) \<Rightarrow>
           let error_msg =
             if status = Z_STREAM_ERROR then ''unexpected end of file.''
             else if status = Z_BUF_ERROR \<or> status = Z_DATA_ERROR \<or> status = Z_MEM_ERROR
             then zlib_failed ''deflate'' status (z_msg lib (zw_stream wr))
             else []
           in finish_tick lib error_msg (status = Z_STREAM_END \<and> zt_flush_mode t = Z_FINISH) status t wr))"

definition UnzipTask_OnWorkTick ::
  "'z zlib \<Rightarrow> ZlibTask \<Rightarrow> ('z, 'cb) ZlibWrapper \<Rightarrow> (ZlibTask \<times> ('z, 'cb) ZlibWrapper) outcome" where
  "UnzipTask_OnWorkTick lib t wr =
     (if zw_finished wr then Inr (MacroTask_Fail ''Uncompression already done.'' t, wr)
      else if zw_errored wr then Inr (MacroTask_Fail ''Uncompression already failed.'' t, wr)
      else case (if zt_prepared t then (t, wr) else Prepare t wr) of (t, wr) \<Rightarrow>
        (case zlib_call (inflate lib) (zt_flush_mode t) (wr\<lparr>zw_avail_out := length (zw_chunk wr)\<rparr>) of (status, wr) \<Rightarrow>
           let status' = if status = Z_NEED_DICT then Z_DATA_ERROR else status;
             error_msg =
               if status' = Z_STREAM_ERROR then ''unexpected end of file.''
               else if status' = Z_DATA_ERROR \<or> status' = Z_MEM_ERROR
               then zlib_failed ''inflate'' status' (z_msg lib (zw_stream wr))
               else []
           in finish_tick lib error_msg (status' = Z_STREAM_END) status' t wr))"

definition ZlibTask_OnWorkTick ::
  "'z zlib \<Rightarrow> ZlibTask \<Rightarrow> ('z, 'cb) ZlibWrapper \<Rightarrow> (ZlibTask \<times> ('z, 'cb) ZlibWrapper) outcome" where
  "ZlibTask_OnWorkTick lib t = (if zt_unzip t then UnzipTask_OnWorkTick lib t else ZipTask_OnWorkTick lib t)"

text \<open>\<open>ZlibTask::OnDone\<close> up to and including the call back; \<open>TryTriggerNextTask\<close> follows it.\<close>

definition ZlibTask_OnDone ::
  "'z zlib \<Rightarrow> ZlibTask \<Rightarrow> ('z, 'cb) ZlibWrapper \<Rightarrow> ('cb zeffect list \<times> ('z, 'cb) ZlibWrapper) outcome" where
  "ZlibTask_OnDone lib t wr =
     (if zt_is_error t
      then obind (if \<not> zw_ended wr then OccurError lib (zt_error t) wr else Inr wr) (\<lambda>wr.
        Inr (DoTaskCallback (zt_parent t) (zt_id t) (ZErr (zt_error t)) wr))
      else Inr (DoTaskCallback (zt_parent t) (zt_id t) (ZOut (zt_out t)) wr))"

section \<open>Wrappers\<close>

text \<open>The script object of options: its three properties, where they are 32-bit integers.\<close>

record zip_options =
  opt_level :: "int option"
  opt_mem_level :: "int option"
  opt_strategy :: "int option"

definition ZlibWrapper_new ::
  "'z zlib \<Rightarrow> nat \<Rightarrow> bool \<Rightarrow> int \<Rightarrow> bool \<Rightarrow> int \<Rightarrow> ('z, 'cb) ZlibWrapper" where
  "ZlibWrapper_new lib pagesize unzip type is_sync window_bits =
     \<lparr>zw_unzip = unzip, zw_type = type, zw_is_sync = is_sync, zw_window_bits = window_bits,
      zw_stream = z_zero lib, zw_next_in = [], zw_avail_out = pagesize, zw_chunk = replicate pagesize 0,
      zw_task_queue = [], zw_callback_map = [], zw_running = False, zw_errored = False, zw_finished = False,
      zw_error = [], zw_inited = False, zw_ended = False, zw_level = 0, zw_mem_level = 0, zw_strategy = 0,
      zw_first_two_bytes = kNonParsed, zw_head_task = None\<rparr>"

definition CHECK_int32 :: "int option \<Rightarrow> int outcome" where
  "CHECK_int32 v = (case v of None \<Rightarrow> Inl Check_failed | Some i \<Rightarrow> Inr i)"

definition ZipWrapper_new ::
  "'z zlib \<Rightarrow> nat \<Rightarrow> int \<Rightarrow> bool \<Rightarrow> int \<Rightarrow> zip_options option \<Rightarrow> ('z, 'cb) ZlibWrapper outcome" where
  "ZipWrapper_new lib pagesize type is_sync window_bits options =
     (case options of
        None \<Rightarrow> Inl Check_failed
      | Some opts \<Rightarrow>
          obind (CHECK_int32 (opt_level opts)) (\<lambda>level.
          obind (CHECK_int32 (opt_mem_level opts)) (\<lambda>mem_level.
          obind (CHECK_int32 (opt_strategy opts)) (\<lambda>strategy.
          Inr ((ZlibWrapper_new lib pagesize False type is_sync window_bits)
                 \<lparr>zw_level := level, zw_mem_level := mem_level, zw_strategy := strategy\<rparr>)))))"

definition UnzipWrapper_new :: "'z zlib \<Rightarrow> nat \<Rightarrow> int \<Rightarrow> bool \<Rightarrow> int \<Rightarrow> ('z, 'cb) ZlibWrapper" where
  "UnzipWrapper_new lib pagesize type is_sync window_bits = ZlibWrapper_new lib pagesize True type is_sync window_bits"

text \<open>\<open>ZlibWrapper::New\<close>: the range error, or the new wrapper.\<close>

definition ZlibWrapper_New ::
  "'z zlib \<Rightarrow> nat \<Rightarrow> bool \<Rightarrow> int \<Rightarrow> bool \<Rightarrow> int \<Rightarrow> zip_options option \<Rightarrow> (string + ('z, 'cb) ZlibWrapper) outcome" where
  "ZlibWrapper_New lib pagesize unzip type is_sync window_bits options =
     (if type \<ge> (if unzip then UNZIP_TYPE_MAX else ZIP_TYPE_MAX)
      then Inr (Inl ''Unsupported compression / uncompression type.'')
      else if unzip then Inr (Inr (UnzipWrapper_new lib pagesize type is_sync window_bits))
      else obind (ZipWrapper_new lib pagesize type is_sync window_bits options) (\<lambda>wr. Inr (Inr wr)))"

definition ZipWrapper_Init :: "'z zlib \<Rightarrow> ('z, 'cb) ZlibWrapper \<Rightarrow> bool \<times> ('z, 'cb) ZlibWrapper" where
  "ZipWrapper_Init lib wr =
     (let window_bits = (if zw_type wr = ZipType_GZIP then zw_window_bits wr + 16 else zw_window_bits wr)
      in case deflateInit2 lib (zw_level wr) window_bits (zw_mem_level wr) (zw_strategy wr) of (z, ret) \<Rightarrow>
           (ret = Z_OK, wr\<lparr>zw_next_in := [], zw_stream := z, zw_inited := True\<rparr>))"

definition UnzipWrapper_Init :: "'z zlib \<Rightarrow> ('z, 'cb) ZlibWrapper \<Rightarrow> bool \<times> ('z, 'cb) ZlibWrapper" where
  "UnzipWrapper_Init lib wr =
     (let window_bits = (if zw_type wr = UnzipType_GUNZIP then zw_window_bits wr + 16 else zw_window_bits wr)
      in case inflateInit2 lib window_bits of (z, ret) \<Rightarrow>
           (ret = Z_OK, wr\<lparr>zw_next_in := [], zw_stream := z, zw_inited := True\<rparr>))"

text \<open>The destructors; the one of \<open>UnzipWrapper\<close> does not clear the call backs.\<close>

definition ZlibWrapper_dtor :: "'z zlib \<Rightarrow> ('z, 'cb) ZlibWrapper \<Rightarrow> ('z, 'cb) ZlibWrapper outcome" where
  "ZlibWrapper_dtor lib wr =
     obind (if zw_inited wr \<and> \<not> zw_ended wr
            then obind (DoZlibEnd lib wr) (\<lambda>wr. Inr (wr\<lparr>zw_ended := True\<rparr>)) else Inr wr) (\<lambda>wr.
       Inr (if zw_unzip wr then wr else wr\<lparr>zw_callback_map := []\<rparr>))"

text \<open>What the script can ask of a wrapper.\<close>

definition ZlibWrapper_IsDone :: "('z, 'cb) ZlibWrapper \<Rightarrow> bool" where
  "ZlibWrapper_IsDone wr = zw_finished wr"

definition ZlibWrapper_HasError :: "('z, 'cb) ZlibWrapper \<Rightarrow> bool" where
  "ZlibWrapper_HasError wr = zw_errored wr"

definition ZlibWrapper_ErrorMessage :: "('z, 'cb) ZlibWrapper \<Rightarrow> string option" where
  "ZlibWrapper_ErrorMessage wr = (if zw_errored wr then Some (zw_error wr) else None)"

section \<open>Push\<close>

text \<open>
  The result of a push: the wrapper, the tasks given to the macro task queue, the effects
  and the value returned to the script.
\<close>

type_synonym ('z, 'cb) push_result = "('z, 'cb) ZlibWrapper \<times> ZlibTask list \<times> 'cb zeffect list \<times> zreturn"

record 'cb push_args =
  pa_wrapper :: nat
  pa_buffer :: bytes
  pa_offset :: nat
  pa_length :: nat
  pa_flush_mode :: int
  pa_callback :: 'cb

definition ReturnEmptyResultSyncOrAsync :: "'cb \<Rightarrow> ZlibTask \<Rightarrow> ('z, 'cb) ZlibWrapper \<Rightarrow> ('z, 'cb) push_result" where
  "ReturnEmptyResultSyncOrAsync callback t wr =
     (if zw_is_sync wr then (ClearTaskCallback (zt_id t) wr, [], [], Ret_buffer [])
      else (ClearTaskCallback (zt_id t) wr, [], [ZE_callback (zt_parent t) callback (ZOut [])], Ret_none))"

text \<open>The end of both \<open>Push\<close> methods on an asynchronous wrapper.\<close>

definition push_async :: "'cb \<Rightarrow> ZlibTask \<Rightarrow> ('z, 'cb) ZlibWrapper \<Rightarrow> ('z, 'cb) push_result" where
  "push_async callback t wr =
     (let heads = (case zw_head_task wr of None \<Rightarrow> [] | Some h \<Rightarrow> [h]);
          wr = wr\<lparr>zw_callback_map := omap_set (zt_id t) callback (zw_callback_map wr),
                  zw_task_queue := zw_task_queue wr @ heads @ [t], zw_head_task := None\<rparr>
      in if zw_running wr then (wr, [], [], Ret_none)
         else (wr\<lparr>zw_running := True, zw_task_queue := List.tl (zw_task_queue wr)\<rparr>, [hd (zw_task_queue wr)], [], Ret_none))"

text \<open>
  \<open>ZipWrapper::Push\<close> and \<open>UnzipWrapper::Push\<close> up to the test of \<open>_is_sync\<close>, in continuation
  style: \<open>ret\<close> takes the result of an early return, \<open>k\<close> is the rest of the method.
\<close>

definition zip_push_prologue ::
  "'z zlib \<Rightarrow> 'cb push_args \<Rightarrow> nat \<Rightarrow> ('z, 'cb) ZlibWrapper \<Rightarrow>
   (('z, 'cb) push_result outcome \<Rightarrow> 'r) \<Rightarrow> (ZlibTask \<Rightarrow> ('z, 'cb) ZlibWrapper \<Rightarrow> 'r) \<Rightarrow> 'r" where
  "zip_push_prologue lib args i wr ret k =
     (case ConvenientArrayBufferStore (pa_buffer args) (pa_offset args) (pa_length args) of
        Inl e \<Rightarrow> ret (Inl e)
      | Inr input \<Rightarrow>
          (let t = ZlibTask_new i (pa_wrapper args) False input (pa_flush_mode args)
           in if input = [] \<and> pa_flush_mode args \<noteq> Z_FINISH
              then ret (Inr (ReturnEmptyResultSyncOrAsync (pa_callback args) t wr))
              else case (if zw_inited wr then (True, wr) else ZipWrapper_Init lib wr) of (ok, wr) \<Rightarrow>
                if \<not> ok then ret (Inr (wr, [], [ZE_throw (pa_wrapper args) ''deflateInit() failed.''], Ret_none))
                else k t wr))"

datatype ('z, 'cb) header_result =
  Header_wait "('z, 'cb) ZlibWrapper" | Header_known "('z, 'cb) ZlibWrapper" | Header_broken

definition unzip_second_byte :: "byte \<Rightarrow> ('z, 'cb) ZlibWrapper \<Rightarrow> ('z, 'cb) ZlibWrapper" where
  "unzip_second_byte b wr =
     wr\<lparr>zw_type := (if b = 0x8b then UnzipType_GUNZIP else UnzipType_INFLATE), zw_first_two_bytes := kSecondParsed\<rparr>"

definition unzip_header :: "ZlibTask \<Rightarrow> ('z, 'cb) ZlibWrapper \<Rightarrow> ('z, 'cb) header_result" where
  "unzip_header t wr =
     (if zw_type wr = UnzipType_UNZIP
      then (case zw_first_two_bytes wr of
              kNonParsed \<Rightarrow>
                if zt_input t ! 0 = 0x1f
                then (if length (zt_input t) = 1
                      then Header_wait (wr\<lparr>zw_first_two_bytes := kFirstParsed, zw_head_task := Some t\<rparr>)
                      else Header_known (unzip_second_byte (zt_input t ! 1) wr))
                else Header_known (wr\<lparr>zw_type := UnzipType_INFLATE\<rparr>)
            | kFirstParsed \<Rightarrow> Header_known (unzip_second_byte (zt_input t ! 0) wr)
            | kSecondParsed \<Rightarrow> Header_broken)
      else Header_known wr)"

definition unzip_push_prologue ::
  "'z zlib \<Rightarrow> 'cb push_args \<Rightarrow> nat \<Rightarrow> ('z, 'cb) ZlibWrapper \<Rightarrow>
   (('z, 'cb) push_result outcome \<Rightarrow> 'r) \<Rightarrow> (ZlibTask \<Rightarrow> ('z, 'cb) ZlibWrapper \<Rightarrow> 'r) \<Rightarrow> 'r" where
  "unzip_push_prologue lib args i wr ret k =
     (case ConvenientArrayBufferStore (pa_buffer args) (pa_offset args) (pa_length args) of
        Inl e \<Rightarrow> ret (Inl e)
      | Inr input \<Rightarrow>
          (let t = ZlibTask_new i (pa_wrapper args) True input (pa_flush_mode args)
           in if input = [] then ret (Inr (ReturnEmptyResultSyncOrAsync (pa_callback args) t wr))
              else case unzip_header t wr of
                Header_wait wr \<Rightarrow> ret (Inr (ReturnEmptyResultSyncOrAsync (pa_callback args) t wr))
              | Header_broken \<Rightarrow> ret (Inl Unreachable_reached)
              | Header_known wr \<Rightarrow>
                  (case (if zw_inited wr then (True, wr) else UnzipWrapper_Init lib wr) of (ok, wr) \<Rightarrow>
                     if \<not> ok then ret (Inr (wr, [], [ZE_throw (pa_wrapper args) ''inflateInit() failed.''], Ret_none))
                     else k t wr)))"

text \<open>The loop of a synchronous push, until the task is done or has failed.\<close>

partial_function (option) run_task ::
  "(ZlibTask \<Rightarrow> ('z, 'cb) ZlibWrapper \<Rightarrow> (ZlibTask \<times> ('z, 'cb) ZlibWrapper) outcome) \<Rightarrow>
   ZlibTask \<Rightarrow> ('z, 'cb) ZlibWrapper \<Rightarrow> (ZlibTask \<times> ('z, 'cb) ZlibWrapper) outcome option" where
  "run_task tick t wr =
     (if zt_is_done t \<or> zt_is_error t then Some (Inr (t, wr))
      else (case tick t wr of Inl e \<Rightarrow> Some (Inl e) | Inr p \<Rightarrow> run_task tick (fst p) (snd p)))"

definition task_error :: "'z zlib \<Rightarrow> ZlibTask \<Rightarrow> ('z, 'cb) ZlibWrapper \<Rightarrow> ('z, 'cb) push_result outcome" where
  "task_error lib t wr =
     obind (if \<not> zw_ended wr then OccurError lib (zt_error t) wr else Inr wr) (\<lambda>wr.
       Inr (wr, [], [ZE_throw (zt_parent t) (zt_error t)], Ret_none))"

definition zip_push_sync :: "'z zlib \<Rightarrow> ZlibTask \<Rightarrow> ('z, 'cb) ZlibWrapper \<Rightarrow> ('z, 'cb) push_result outcome option" where
  "zip_push_sync lib t wr =
     (case run_task (ZipTask_OnWorkTick lib) t wr of
        None \<Rightarrow> None
      | Some (Inl e) \<Rightarrow> Some (Inl e)
      | Some (Inr (t, wr)) \<Rightarrow>
          Some (if zt_is_error t then task_error lib t wr else Inr (wr, [], [], Ret_buffer (zt_out t))))"

definition ZipWrapper_Push ::
  "'z zlib \<Rightarrow> 'cb push_args \<Rightarrow> nat \<Rightarrow> ('z, 'cb) ZlibWrapper \<Rightarrow> ('z, 'cb) push_result outcome option" where
  "ZipWrapper_Push lib args i wr =
     zip_push_prologue lib args i wr Some (\<lambda>t wr.
       if zw_is_sync wr then zip_push_sync lib t wr else Some (Inr (push_async (pa_callback args) t wr)))"

text \<open>
  The synchronous part of \<open>UnzipWrapper::Push\<close>. When a first byte was kept its task runs
  first; what is then released and reported is the buffer and the error of the new task.
\<close>

definition unzip_push_task ::
  "'z zlib \<Rightarrow> bytes option \<Rightarrow> ZlibTask \<Rightarrow> ('z, 'cb) ZlibWrapper \<Rightarrow> ('z, 'cb) push_result outcome option" where
  "unzip_push_task lib first t wr =
     (case run_task (UnzipTask_OnWorkTick lib) t wr of
        None \<Rightarrow> None
      | Some (Inl e) \<Rightarrow> Some (Inl e)
      | Some (Inr (t, wr)) \<Rightarrow>
          Some (if zt_is_error t then task_error lib t wr
                else Inr (wr, [], [], (case first of None \<Rightarrow> Ret_buffer (zt_out t) | Some b \<Rightarrow> Ret_pair b (zt_out t)))))"

definition unzip_push_sync ::
  "'z zlib \<Rightarrow> ZlibTask \<Rightarrow> ('z, 'cb) ZlibWrapper \<Rightarrow> ('z, 'cb) push_result outcome option" where
  "unzip_push_sync lib t wr =
     (case zw_head_task wr of
        None \<Rightarrow> unzip_push_task lib None t wr
      | Some h \<Rightarrow>
          (case run_task (UnzipTask_OnWorkTick lib) h wr of
             None \<Rightarrow> None
           | Some (Inl e) \<Rightarrow> Some (Inl e)
           | Some (Inr (h, wr)) \<Rightarrow>
               if zt_is_error h
               then Some (obind (OccurError lib (zt_error h) wr) (\<lambda>wr.
                 Inr (wr\<lparr>zw_head_task := None\<rparr>, [], [ZE_throw (zt_parent t) (zt_error t)], Ret_none)))
               else unzip_push_task lib (Some (zt_out t)) (t\<lparr>zt_out := []\<rparr>) (wr\<lparr>zw_head_task := None\<rparr>)))"

definition UnzipWrapper_Push ::
  "'z zlib \<Rightarrow> 'cb push_args \<Rightarrow> nat \<Rightarrow> ('z, 'cb) ZlibWrapper \<Rightarrow> ('z, 'cb) push_result outcome option" where
  "UnzipWrapper_Push lib args i wr =
     unzip_push_prologue lib args i wr Some (\<lambda>t wr.
       if zw_is_sync wr then unzip_push_sync lib t wr else Some (Inr (push_async (pa_callback args) t wr)))"

section \<open>The program\<close>

text \<open>
  The asynchronous wrappers of the program, the next unused task pointer, the pushes the
  script makes from inside its coming call backs, and the effects so far.
\<close>

record ('z, 'cb) zworld =
  zs_wrappers :: "('z, 'cb) ZlibWrapper list"
  zs_next :: nat
  zs_script :: "'cb push_args list list"
  zs_effects :: "'cb zeffect list"

definition ZlibWrapper_Push ::
  "'z zlib \<Rightarrow> 'cb push_args \<Rightarrow> ('z, 'cb) zworld \<Rightarrow> (ZlibTask list \<times> ('z, 'cb) zworld) outcome" where
  "ZlibWrapper_Push lib args w =
     (let wr = zs_wrappers w ! pa_wrapper args
      in obind ((if zw_unzip wr then unzip_push_prologue else zip_push_prologue) lib args (zs_next w) wr (\<lambda>r. r)
                (\<lambda>t wr. Inr (push_async (pa_callback args) t wr)))
           (\<lambda>(wr, new, effects, ret).
              Inr (new, w\<lparr>zs_wrappers := (zs_wrappers w)[pa_wrapper args := wr], zs_next := zs_next w + 1,
                          zs_effects := zs_effects w @
                            ZE_push (pa_wrapper args) (take (pa_length args) (drop (pa_offset args) (pa_buffer args)))
                              (pa_callback args) # effects\<rparr>)))"

fun push_all ::
  "'z zlib \<Rightarrow> 'cb push_args list \<Rightarrow> ('z, 'cb) zworld \<Rightarrow> (ZlibTask list \<times> ('z, 'cb) zworld) outcome" where
  "push_all lib [] w = Inr ([], w)"
| "push_all lib (p # ps) w =
     obind (ZlibWrapper_Push lib p w) (\<lambda>(new, w).
     obind (push_all lib ps w) (\<lambda>(new', w). Inr (new @ new', w)))"

text \<open>The call back runs the script, which may push again before \<open>TryTriggerNextTask\<close>.\<close>

definition run_script ::
  "'z zlib \<Rightarrow> 'cb zeffect list \<Rightarrow> ('z, 'cb) zworld \<Rightarrow> (ZlibTask list \<times> ('z, 'cb) zworld) outcome" where
  "run_script lib effects w =
     (if effects = [] then Inr ([], w)
      else case zs_script w of
        [] \<Rightarrow> Inr ([], w)
      | ps # script \<Rightarrow> push_all lib ps (w\<lparr>zs_script := script\<rparr>))"

definition zlib_OnWorkTick ::
  "'z zlib \<Rightarrow> ZlibTask \<Rightarrow> ('z, 'cb) zworld \<Rightarrow> (ZlibTask \<times> ('z, 'cb) zworld) outcome" where
  "zlib_OnWorkTick lib t w =
     obind (ZlibTask_OnWorkTick lib t (zs_wrappers w ! zt_parent t)) (\<lambda>(t', wr).
       Inr (t', w\<lparr>zs_wrappers := (zs_wrappers w)[zt_parent t := wr]\<rparr>))"

definition zlib_OnDone ::
  "'z zlib \<Rightarrow> ZlibTask \<Rightarrow> ('z, 'cb) zworld \<Rightarrow> (ZlibTask list \<times> ('z, 'cb) zworld) outcome" where
  "zlib_OnDone lib t w =
     obind (ZlibTask_OnDone lib t (zs_wrappers w ! zt_parent t)) (\<lambda>(effects, wr).
     obind (run_script lib effects
              (w\<lparr>zs_wrappers := (zs_wrappers w)[zt_parent t := wr], zs_effects := zs_effects w @ effects\<rparr>))
       (\<lambda>(new, w).
          case TryTriggerNextTask (zs_wrappers w ! zt_parent t) of (new', wr) \<Rightarrow>
            Inr (new @ new', w\<lparr>zs_wrappers := (zs_wrappers w)[zt_parent t := wr]\<rparr>)))"

definition zlib_methods :: "'z zlib \<Rightarrow> (ZlibTask, ('z, 'cb) zworld) MacroTask_methods" where
  "zlib_methods lib =
     \<lparr>OnWorkTick = zlib_OnWorkTick lib, is_done = zt_is_done, has_error = zt_is_error, OnDone = zlib_OnDone lib\<rparr>"

end
