(* ===== verification/ZlibStream.thy ===== *)
theory ZlibStream
  imports Zlib
begin

text \<open>
  The compression streams in every order of events: the tasks of a wrapper run one at a
  time in the order of the pushes, the stream takes the pushed bytes in that order, and
  every script function given to a push is called exactly once. The documented behaviour
  of zlib that this rests on is \<open>zlib_contract\<close>.
\<close>

section \<open>What zlib promises\<close>

text \<open>
  Observations of a stream: whether it is initialised and not ended, the input it has
  taken, and a bound of the output it can still produce from a given input.
\<close>

record 'z zview =
  live :: "bool \<Rightarrow> 'z \<Rightarrow> bool"
  fed :: "'z \<Rightarrow> bytes"
  left :: "bool \<Rightarrow> 'z \<Rightarrow> int \<Rightarrow> bytes \<Rightarrow> nat"

definition zlib_init :: "'z zlib \<Rightarrow> 'z zview \<Rightarrow> bool" where
  "zlib_init lib v =
     ((\<forall>a b c d. snd (deflateInit2 lib a b c d) = Z_OK \<and> live v False (fst (deflateInit2 lib a b c d)) \<and>
        fed v (fst (deflateInit2 lib a b c d)) = []) \<and>
      (\<forall>b. snd (inflateInit2 lib b) = Z_OK \<and> live v True (fst (inflateInit2 lib b)) \<and> fed v (fst (inflateInit2 lib b)) = []))"

definition zlib_end :: "'z zlib \<Rightarrow> 'z zview \<Rightarrow> bool" where
  "zlib_end lib v =
     ((\<forall>z. live v False z \<longrightarrow> snd (deflateEnd lib z) \<in> {Z_OK, Z_DATA_ERROR}) \<and>
      (\<forall>z. live v True z \<longrightarrow> snd (inflateEnd lib z) \<in> {Z_OK, Z_DATA_ERROR}))"

text \<open>
  A call takes no more input than there is and writes no more than there is room for. If it
  leaves room without an error or the end of the stream, it has taken all the input; if it
  fills the room without an error, it reports \<open>Z_OK\<close> or the end of the stream, except
  \<open>inflate\<close> with \<open>Z_FINISH\<close>. Only \<open>Z_FINISH\<close> makes \<open>deflate\<close> end the stream.
\<close>

definition zcall_ok :: "'z zview \<Rightarrow> bool \<Rightarrow> ('z \<Rightarrow> int \<Rightarrow> bytes \<Rightarrow> nat \<Rightarrow> 'z zcall) \<Rightarrow> bool" where
  "zcall_ok v unzip f =
     (\<forall>z flush input n. live v unzip z \<longrightarrow>
       (let r = f z flush input n
        in live v unzip (zc_state r) \<and> zc_consumed r \<le> length input \<and> length (zc_out r) \<le> n \<and>
           fed v (zc_state r) = fed v z @ take (zc_consumed r) input \<and>
           (zc_out r \<noteq> [] \<longrightarrow> left v unzip (zc_state r) flush (drop (zc_consumed r) input) < left v unzip z flush input) \<and>
           (zc_status r \<in> {Z_OK, Z_BUF_ERROR} \<and> length (zc_out r) < n \<longrightarrow> zc_consumed r = length input) \<and>
           zc_status r \<in> {Z_OK, Z_STREAM_END, Z_NEED_DICT, Z_STREAM_ERROR, Z_DATA_ERROR, Z_MEM_ERROR, Z_BUF_ERROR} \<and>
           (unzip \<and> flush \<noteq> Z_FINISH \<and> 0 < n \<and> length (zc_out r) = n \<longrightarrow> zc_status r \<noteq> Z_BUF_ERROR) \<and>
           (\<not> unzip \<longrightarrow> zc_status r \<noteq> Z_NEED_DICT \<and> (zc_status r = Z_STREAM_END \<longrightarrow> flush = Z_FINISH))))"

definition zlib_contract :: "'z zlib \<Rightarrow> 'z zview \<Rightarrow> bool" where
  "zlib_contract lib v = (zlib_init lib v \<and> zlib_end lib v \<and> zcall_ok v False (deflate lib) \<and> zcall_ok v True (inflate lib))"

section \<open>One unit of work\<close>

definition pending_in :: "('z, 'cb) ZlibWrapper \<Rightarrow> ZlibTask \<Rightarrow> bytes" where
  "pending_in wr t = (if zt_prepared t then zw_next_in wr else zt_input t)"

text \<open>What \<open>OnWorkTick\<close> does not change.\<close>

definition same_wrapper :: "('z, 'cb) ZlibWrapper \<Rightarrow> ('z, 'cb) ZlibWrapper \<Rightarrow> bool" where
  "same_wrapper wr wr' =
     (zw_unzip wr' = zw_unzip wr \<and> zw_type wr' = zw_type wr \<and> zw_is_sync wr' = zw_is_sync wr \<and>
      length (zw_chunk wr') = length (zw_chunk wr) \<and> zw_task_queue wr' = zw_task_queue wr \<and>
      zw_callback_map wr' = zw_callback_map wr \<and> zw_inited wr' = zw_inited wr \<and>
      zw_first_two_bytes wr' = zw_first_two_bytes wr \<and> zw_head_task wr' = zw_head_task wr)"

definition same_task :: "ZlibTask \<Rightarrow> ZlibTask \<Rightarrow> bool" where
  "same_task t t' =
     (zt_id t' = zt_id t \<and> zt_parent t' = zt_parent t \<and> zt_unzip t' = zt_unzip t \<and> zt_input t' = zt_input t \<and>
      zt_flush_mode t' = zt_flush_mode t)"

definition same_flags :: "('z, 'cb) ZlibWrapper \<Rightarrow> ('z, 'cb) ZlibWrapper \<Rightarrow> bool" where
  "same_flags wr wr' =
     (zw_running wr' = zw_running wr \<and> zw_errored wr' = zw_errored wr \<and> zw_finished wr' = zw_finished wr \<and>
      zw_ended wr' = zw_ended wr)"

text \<open>The four ways a unit of work on a live stream can go.\<close>

definition tick_post :: "'z zview \<Rightarrow> ZlibTask \<Rightarrow> ('z, 'cb) ZlibWrapper \<Rightarrow> ZlibTask \<Rightarrow> ('z, 'cb) ZlibWrapper \<Rightarrow> bool" where
  "tick_post v t wr t' wr' =
     (same_task t t' \<and> same_wrapper wr wr' \<and>
      (same_flags wr wr' \<and> live v (zw_unzip wr) (zw_stream wr') \<and> zt_is_error t'
       \<or> \<not> zt_is_error t' \<and> zt_is_done t' \<and> zw_ended wr' \<and> zw_finished wr' \<and> \<not> zw_running wr'
       \<or> same_flags wr wr' \<and> live v (zw_unzip wr) (zw_stream wr') \<and> \<not> zt_is_error t' \<and> zt_is_done t' \<and>
         fed v (zw_stream wr') = fed v (zw_stream wr) @ pending_in wr t
       \<or> same_flags wr wr' \<and> live v (zw_unzip wr) (zw_stream wr') \<and> \<not> zt_is_error t' \<and> \<not> zt_is_done t' \<and> zt_prepared t' \<and>
         fed v (zw_stream wr') @ pending_in wr' t' = fed v (zw_stream wr) @ pending_in wr t \<and>
         left v (zw_unzip wr) (zw_stream wr') (zt_flush_mode t) (pending_in wr' t')
           < left v (zw_unzip wr) (zw_stream wr) (zt_flush_mode t) (pending_in wr t)))"

lemma DoZlibEnd_live:
  assumes "zlib_contract lib v" "live v (zw_unzip wr) (zw_stream wr)"
  shows "\<exists>z. DoZlibEnd lib wr = Inr (wr\<lparr>zw_stream := z\<rparr>)"
proof -
  obtain z r where "(if zw_unzip wr then inflateEnd lib else deflateEnd lib) (zw_stream wr) = (z, r)"
    by (cases "(if zw_unzip wr then inflateEnd lib else deflateEnd lib) (zw_stream wr)")
  moreover from this have "r = 0 \<or> r = - 3"
    using assms by (auto simp: zlib_contract_def zlib_end_def split: if_splits dest!: spec [where x = "zw_stream wr"])
  ultimately show ?thesis by (auto simp: DoZlibEnd_def)
qed

lemma zlib_failed_nonempty: "zlib_failed call status msg \<noteq> []"
  by (cases call) (simp_all add: zlib_failed_def)

text \<open>The state after the call of the library, as \<open>finish_tick\<close> gets it.\<close>

definition called ::
  "'z zview \<Rightarrow> ZlibTask \<Rightarrow> ('z, 'cb) ZlibWrapper \<Rightarrow> int \<Rightarrow> ZlibTask \<Rightarrow> ('z, 'cb) ZlibWrapper \<Rightarrow> bool" where
  "called v t wr status t' wr' =
     (same_task t t' \<and> same_wrapper wr wr' \<and> same_flags wr wr' \<and> zt_prepared t' \<and>
      zt_is_error t' = zt_is_error t \<and> zt_is_done t' = zt_is_done t \<and>
      live v (zw_unzip wr) (zw_stream wr') \<and> zw_avail_out wr' \<le> length (zw_chunk wr') \<and>
      fed v (zw_stream wr') @ zw_next_in wr' = fed v (zw_stream wr) @ pending_in wr t \<and>
      (zw_avail_out wr' < length (zw_chunk wr') \<longrightarrow>
         left v (zw_unzip wr) (zw_stream wr') (zt_flush_mode t) (zw_next_in wr')
           < left v (zw_unzip wr) (zw_stream wr) (zt_flush_mode t) (pending_in wr t)) \<and>
      (status \<in> {Z_OK, Z_BUF_ERROR} \<and> zw_avail_out wr' \<noteq> 0 \<longrightarrow> zw_next_in wr' = []) \<and>
      status \<in> {Z_OK, Z_STREAM_END, Z_NEED_DICT, Z_STREAM_ERROR, Z_DATA_ERROR, Z_MEM_ERROR, Z_BUF_ERROR} \<and>
      (zw_unzip wr \<and> zt_flush_mode t \<noteq> Z_FINISH \<and> zw_avail_out wr' = 0 \<longrightarrow> status \<noteq> Z_BUF_ERROR) \<and>
      (\<not> zw_unzip wr \<longrightarrow> status \<noteq> Z_NEED_DICT \<and> (status = Z_STREAM_END \<longrightarrow> zt_flush_mode t = Z_FINISH)))"

lemma zlib_call_called:
  assumes "zcall_ok v (zw_unzip wr) f" "live v (zw_unzip wr) (zw_stream wr)" "zw_chunk wr \<noteq> []"
    "(t1, wr1) = (if zt_prepared t then (t, wr) else Prepare t wr)"
    "zlib_call f (zt_flush_mode t1) (wr1\<lparr>zw_avail_out := length (zw_chunk wr1)\<rparr>) = (status, wr2)"
  shows "called v t wr status t1 wr2"
proof -
  have 1: "zw_stream wr1 = zw_stream wr" "zw_next_in wr1 = pending_in wr t" "zw_chunk wr1 = zw_chunk wr"
    "same_task t t1" "same_wrapper wr wr1" "same_flags wr wr1" "zt_prepared t1" "zt_flush_mode t1 = zt_flush_mode t"
    "zt_is_error t1 = zt_is_error t" "zt_is_done t1 = zt_is_done t" "zw_unzip wr1 = zw_unzip wr"
    using assms(4) by (auto simp: Prepare_def pending_in_def same_task_def same_wrapper_def same_flags_def split: if_splits)
  define r where "r = f (zw_stream wr) (zt_flush_mode t) (pending_in wr t) (length (zw_chunk wr))"
  have r: "live v (zw_unzip wr) (zc_state r)" "zc_consumed r \<le> length (pending_in wr t)" "length (zc_out r) \<le> length (zw_chunk wr)"
    "fed v (zc_state r) = fed v (zw_stream wr) @ take (zc_consumed r) (pending_in wr t)"
    "zc_out r \<noteq> [] \<longrightarrow> left v (zw_unzip wr) (zc_state r) (zt_flush_mode t) (drop (zc_consumed r) (pending_in wr t))
       < left v (zw_unzip wr) (zw_stream wr) (zt_flush_mode t) (pending_in wr t)"
    "zc_status r \<in> {Z_OK, Z_BUF_ERROR} \<and> length (zc_out r) < length (zw_chunk wr) \<longrightarrow> zc_consumed r = length (pending_in wr t)"
    "zc_status r \<in> {Z_OK, Z_STREAM_END, Z_NEED_DICT, Z_STREAM_ERROR, Z_DATA_ERROR, Z_MEM_ERROR, Z_BUF_ERROR}"
    "zw_unzip wr \<and> zt_flush_mode t \<noteq> Z_FINISH \<and> 0 < length (zw_chunk wr) \<and> length (zc_out r) = length (zw_chunk wr) \<longrightarrow>
       zc_status r \<noteq> Z_BUF_ERROR"
    "\<not> zw_unzip wr \<longrightarrow> zc_status r \<noteq> Z_NEED_DICT \<and> (zc_status r = Z_STREAM_END \<longrightarrow> zt_flush_mode t = Z_FINISH)"
    using assms(1,2) unfolding zcall_ok_def r_def Let_def by blast+
  have 2: "status = zc_status r" "wr2 = wr1\<lparr>zw_avail_out := length (zw_chunk wr) - length (zc_out r),
      zw_stream := zc_state r, zw_next_in := drop (zc_consumed r) (pending_in wr t),
      zw_chunk := zc_out r @ drop (length (zc_out r)) (zw_chunk wr)\<rparr>"
    using assms(5) 1 by (auto simp: zlib_call_def Let_def r_def)
  have 3: "same_wrapper wr wr2" "same_flags wr wr2"
    using 1(5,6) r(3) 1(3) by (auto simp: 2(2) same_wrapper_def same_flags_def)
  have 4: "zw_avail_out wr2 = length (zw_chunk wr) - length (zc_out r)" "zw_stream wr2 = zc_state r"
    "zw_next_in wr2 = drop (zc_consumed r) (pending_in wr t)" "length (zw_chunk wr2) = length (zw_chunk wr)"
    using r(3) by (auto simp: 2(2))
  show ?thesis
    unfolding called_def 4 2(1) using 1 3 r assms(3) by (simp add: less_diff_conv2)
qed

text \<open>After the call: an error, the end of the stream, all input taken, or a full chunk.\<close>

lemma finish_tick_post:
  assumes "zlib_contract lib v" "called v t wr status t1 wr1" "\<not> zt_is_error t" "\<not> zt_is_done t" "zw_chunk wr \<noteq> []"
    and err: "error_msg = [] \<Longrightarrow> status' = status \<and> status \<in> {Z_OK, Z_STREAM_END, Z_BUF_ERROR} \<and>
        (status = Z_STREAM_END \<longrightarrow> all_done) \<and> (zw_avail_out wr1 = 0 \<longrightarrow> status \<noteq> Z_BUF_ERROR)"
  shows "\<exists>t' wr'. finish_tick lib error_msg all_done status' t1 wr1 = Inr (t', wr') \<and> tick_post v t wr t' wr'"
proof (cases "error_msg = []")
  case False
  then show ?thesis
    using assms(2) by (auto simp: finish_tick_def tick_post_def called_def MacroTask_Fail_def same_task_def)
next
  case True
  have c: "same_task t t1" "same_wrapper wr wr1" "same_flags wr wr1" "zt_prepared t1" "\<not> zt_is_error t1" "\<not> zt_is_done t1"
    "live v (zw_unzip wr) (zw_stream wr1)" "zw_avail_out wr1 \<le> length (zw_chunk wr1)"
    "fed v (zw_stream wr1) @ zw_next_in wr1 = fed v (zw_stream wr) @ pending_in wr t"
    "zw_avail_out wr1 < length (zw_chunk wr1) \<longrightarrow>
         left v (zw_unzip wr) (zw_stream wr1) (zt_flush_mode t) (zw_next_in wr1)
           < left v (zw_unzip wr) (zw_stream wr) (zt_flush_mode t) (pending_in wr t)"
    "status \<in> {Z_OK, Z_BUF_ERROR} \<and> zw_avail_out wr1 \<noteq> 0 \<longrightarrow> zw_next_in wr1 = []"
    using assms(2-4) by (auto simp: called_def)
  have u: "zw_unzip wr1 = zw_unzip wr" "length (zw_chunk wr1) = length (zw_chunk wr)" using c(2) by (auto simp: same_wrapper_def)
  note e = err [OF True]
  obtain t2 where t2: "ConcatChunkToResult t1 wr1 = Inr t2" "same_task t t2" "zt_prepared t2" "\<not> zt_is_error t2" "\<not> zt_is_done t2"
    using c(1,4,5,6,8)
    by (cases "length (zw_chunk wr1) = zw_avail_out wr1") (auto simp: ConcatChunkToResult_def Let_def same_task_def)
  consider (fin) "all_done" | (room) "\<not> all_done" "zw_avail_out wr1 \<noteq> 0" | (full) "\<not> all_done" "zw_avail_out wr1 = 0" by blast
  then show ?thesis
  proof cases
    case fin
    define wr2 where "wr2 = wr1\<lparr>zw_running := False, zw_finished := True, zw_ended := True\<rparr>"
    have "live v (zw_unzip wr2) (zw_stream wr2)" using c(7) u(1) by (simp add: wr2_def)
    then obtain z where "DoZlibEnd lib wr2 = Inr (wr2\<lparr>zw_stream := z\<rparr>)"
      using DoZlibEnd_live [OF assms(1)] by blast
    then have "ZlibTask_Done lib True t2 wr1 = Inr (MacroTask_Done t2, wr2\<lparr>zw_stream := z\<rparr>)"
      by (simp add: ZlibTask_Done_def ZlibWrapper_End_def wr2_def)
    moreover have "tick_post v t wr (MacroTask_Done t2) (wr2\<lparr>zw_stream := z\<rparr>)"
      using t2 c(2) by (simp add: tick_post_def MacroTask_Done_def wr2_def same_task_def same_wrapper_def)
    ultimately show ?thesis using True fin t2(1) by (simp add: finish_tick_def)
  next
    case room
    with c(11) e have "zw_next_in wr1 = []" by auto
    then have "tick_post v t wr (MacroTask_Done t2) wr1"
      using t2 c by (simp add: tick_post_def MacroTask_Done_def same_task_def)
    then show ?thesis using True room t2(1) by (simp add: finish_tick_def ZlibTask_Done_def)
  next
    case full
    with e have s: "status' = 0" by auto
    have "tick_post v t wr t2 wr1"
      using t2 c full u(2) assms(5) by (simp add: tick_post_def pending_in_def)
    then show ?thesis using True full t2(1) s by (simp add: finish_tick_def)
  qed
qed

lemma ended_tick:
  assumes "zw_finished wr \<or> zw_errored wr"
  shows "\<exists>msg. ZlibTask_OnWorkTick lib t wr = Inr (MacroTask_Fail msg t, wr)"
  using assms by (auto simp: ZlibTask_OnWorkTick_def ZipTask_OnWorkTick_def UnzipTask_OnWorkTick_def)

lemma live_tick:
  assumes "zlib_contract lib v" "live v (zw_unzip wr) (zw_stream wr)" "zw_chunk wr \<noteq> []" "zt_unzip t = zw_unzip wr"
    "\<not> zw_finished wr" "\<not> zw_errored wr" "\<not> zt_is_error t" "\<not> zt_is_done t" "zt_unzip t \<Longrightarrow> zt_flush_mode t \<noteq> Z_FINISH"
  shows "\<exists>t' wr'. ZlibTask_OnWorkTick lib t wr = Inr (t', wr') \<and> tick_post v t wr t' wr'"
proof -
  obtain t1 wr1 where p: "(t1, wr1) = (if zt_prepared t then (t, wr) else Prepare t wr)"
    by (cases "if zt_prepared t then (t, wr) else Prepare t wr") auto
  have fm: "zt_flush_mode t1 = zt_flush_mode t" using p by (auto simp: Prepare_def split: if_splits)
  define f where "f = (if zt_unzip t then inflate lib else deflate lib)"
  have f: "zcall_ok v (zw_unzip wr) f" using assms(1,4) by (auto simp: zlib_contract_def f_def)
  obtain status wr2 where call:
    "zlib_call f (zt_flush_mode t1) (wr1\<lparr>zw_avail_out := length (zw_chunk wr1)\<rparr>) = (status, wr2)"
    by (cases "zlib_call f (zt_flush_mode t1) (wr1\<lparr>zw_avail_out := length (zw_chunk wr1)\<rparr>)")
  note c = zlib_call_called [OF f assms(2,3) p call]
  note post = finish_tick_post [OF assms(1) c assms(7,8,3)]
  show ?thesis
  proof (cases "zt_unzip t")
    case True
    then have "zw_unzip wr" using assms(4) by simp
    with c assms(9) [OF True] have st: "status \<in> {0, 1, 2, -2, -3, -4, -5}" "zw_avail_out wr2 = 0 \<longrightarrow> status \<noteq> -5"
      by (auto simp: called_def)
    define st' where "st' = (if status = 2 then - 3 else status)"
    define msg where "msg = (if st' = - 2 then ''unexpected end of file.'' else if st' = - 3 \<or> st' = - 4
      then zlib_failed ''inflate'' st' (z_msg lib (zw_stream wr2)) else [])"
    have eq: "ZlibTask_OnWorkTick lib t wr = finish_tick lib msg (st' = 1) st' t1 wr2"
      using True assms(5,6) call
      by (simp add: ZlibTask_OnWorkTick_def UnzipTask_OnWorkTick_def p [symmetric] f_def Let_def msg_def st'_def)
    have "msg = [] \<Longrightarrow> st' = status \<and> status \<in> {0, 1, - 5} \<and> (status = 1 \<longrightarrow> st' = 1) \<and>
      (zw_avail_out wr2 = 0 \<longrightarrow> status \<noteq> - 5)"
      using st by (auto simp: msg_def st'_def zlib_failed_nonempty split: if_splits)
    then show ?thesis unfolding eq by (rule post)
  next
    case False
    then have "\<not> zw_unzip wr" using assms(4) by simp
    with c have st: "status \<in> {0, 1, -2, -3, -4, -5}" "status = 1 \<longrightarrow> zt_flush_mode t = 4" by (auto simp: called_def)
    define msg where "msg = (if status = - 2 then ''unexpected end of file.''
      else if status = - 5 \<or> status = - 3 \<or> status = - 4
      then zlib_failed ''deflate'' status (z_msg lib (zw_stream wr2)) else [])"
    have eq: "ZlibTask_OnWorkTick lib t wr = finish_tick lib msg (status = 1 \<and> zt_flush_mode t1 = 4) status t1 wr2"
      using False assms(5,6) call
      by (simp add: ZlibTask_OnWorkTick_def ZipTask_OnWorkTick_def p [symmetric] f_def Let_def msg_def)
    have "msg = [] \<Longrightarrow> status = status \<and> status \<in> {0, 1, - 5} \<and> (status = 1 \<longrightarrow> status = 1 \<and> zt_flush_mode t1 = 4) \<and>
      (zw_avail_out wr2 = 0 \<longrightarrow> status \<noteq> - 5)"
      using st fm by (auto simp: msg_def zlib_failed_nonempty split: if_splits)
    then show ?thesis unfolding eq by (rule post)
  qed
qed

section \<open>The invariant of a wrapper\<close>

text \<open>
  \<open>cur\<close> are the tasks of the wrapper on the macro task queue, \<open>busy\<close> says that one more is
  being completed, \<open>pushed\<close> is all that was pushed.
\<close>

definition task_ok :: "nat \<Rightarrow> bool \<Rightarrow> nat \<Rightarrow> ZlibTask \<Rightarrow> bool" where
  "task_ok i unzip next t =
     (zt_parent t = i \<and> zt_unzip t = unzip \<and> \<not> zt_is_done t \<and> \<not> zt_is_error t \<and> zt_id t < next \<and>
      (unzip \<longrightarrow> zt_flush_mode t \<noteq> Z_FINISH))"

definition base_ok :: "('z, 'cb) ZlibWrapper \<Rightarrow> bool" where
  "base_ok wr = (\<not> zw_is_sync wr \<and> zw_chunk wr \<noteq> [] \<and> zw_ended wr = (zw_finished wr \<or> zw_errored wr))"

definition sched_ok :: "bool \<Rightarrow> ('z, 'cb) ZlibWrapper \<Rightarrow> ZlibTask list \<Rightarrow> bool" where
  "sched_ok busy wr cur =
     ((\<not> zw_ended wr \<longrightarrow> length cur + of_bool busy = of_bool (zw_running wr)) \<and>
      (\<not> zw_ended wr \<and> \<not> zw_running wr \<longrightarrow> zw_task_queue wr = []) \<and>
      (zw_task_queue wr \<noteq> [] \<or> zw_running wr \<longrightarrow> cur \<noteq> [] \<or> busy))"

definition tasks_ok :: "nat \<Rightarrow> ('z, 'cb) ZlibWrapper \<Rightarrow> ZlibTask list \<Rightarrow> nat \<Rightarrow> bool" where
  "tasks_ok i wr cur next =
     ((\<forall>t\<in>set cur \<union> set (zw_task_queue wr). task_ok i (zw_unzip wr) next t) \<and>
      (\<forall>t\<in>set (zw_task_queue wr). \<not> zt_prepared t))"

definition map_ok :: "('z, 'cb) ZlibWrapper \<Rightarrow> ZlibTask list \<Rightarrow> bool" where
  "map_ok wr cur =
     (omap_wf (zw_callback_map wr) \<and> fst ` set (zw_callback_map wr) \<subseteq> zt_id ` (set cur \<union> set (zw_task_queue wr)))"

definition feed_ok :: "'z zview \<Rightarrow> ('z, 'cb) ZlibWrapper \<Rightarrow> ZlibTask list \<Rightarrow> bytes \<Rightarrow> bool" where
  "feed_ok v wr cur pushed =
     (\<not> zw_ended wr \<longrightarrow> live v (zw_unzip wr) (zw_stream wr) \<and>
        fed v (zw_stream wr) @ concat (map (pending_in wr) cur) @ concat (map zt_input (zw_task_queue wr)) = pushed)"

definition started_inv ::
  "'z zview \<Rightarrow> bool \<Rightarrow> nat \<Rightarrow> ('z, 'cb) ZlibWrapper \<Rightarrow> ZlibTask list \<Rightarrow> nat \<Rightarrow> bytes \<Rightarrow> bool" where
  "started_inv v busy i wr cur next pushed =
     (base_ok wr \<and> sched_ok busy wr cur \<and> tasks_ok i wr cur next \<and> map_ok wr cur \<and> feed_ok v wr cur pushed)"

definition heads :: "('z, 'cb) ZlibWrapper \<Rightarrow> ZlibTask list" where
  "heads wr = (case zw_head_task wr of None \<Rightarrow> [] | Some h \<Rightarrow> [h])"

definition fresh_base :: "nat \<Rightarrow> ('z, 'cb) ZlibWrapper \<Rightarrow> nat \<Rightarrow> bytes \<Rightarrow> bool" where
  "fresh_base i wr next pushed =
     (base_ok wr \<and> \<not> zw_ended wr \<and> \<not> zw_running wr \<and> zw_task_queue wr = [] \<and> zw_callback_map wr = [] \<and>
      (\<forall>h\<in>set (heads wr). task_ok i (zw_unzip wr) next h \<and> \<not> zt_prepared h) \<and>
      pushed = concat (map zt_input (heads wr)))"

definition fresh_inv :: "nat \<Rightarrow> ('z, 'cb) ZlibWrapper \<Rightarrow> nat \<Rightarrow> bytes \<Rightarrow> bool" where
  "fresh_inv i wr next pushed =
     (fresh_base i wr next pushed \<and>
      (zw_type wr = UnzipType_UNZIP \<and> zw_unzip wr \<longrightarrow>
         zw_first_two_bytes wr = (if zw_head_task wr = None then kNonParsed else kFirstParsed)) \<and>
      (\<not> (zw_type wr = UnzipType_UNZIP \<and> zw_unzip wr) \<longrightarrow> zw_head_task wr = None))"

definition wrapper_inv ::
  "'z zview \<Rightarrow> bool \<Rightarrow> nat \<Rightarrow> ('z, 'cb) ZlibWrapper \<Rightarrow> ZlibTask list \<Rightarrow> nat \<Rightarrow> bytes \<Rightarrow> bool" where
  "wrapper_inv v busy i wr cur next pushed =
     (if zw_inited wr
      then started_inv v busy i wr cur next pushed \<and> zw_head_task wr = None \<and>
        \<not> (zw_type wr = UnzipType_UNZIP \<and> zw_unzip wr)
      else fresh_inv i wr next pushed \<and> cur = [] \<and> \<not> busy)"

lemma task_ok_mono: "task_ok i u next t \<Longrightarrow> next \<le> next' \<Longrightarrow> task_ok i u next' t"
  by (auto simp: task_ok_def)

lemma wrapper_inv_mono:
  assumes "wrapper_inv v busy i wr cur next pushed" "next \<le> next'"
  shows "wrapper_inv v busy i wr cur next' pushed"
  using assms task_ok_mono [OF _ assms(2)]
  by (auto simp: wrapper_inv_def started_inv_def tasks_ok_def fresh_inv_def fresh_base_def split: if_splits)

text \<open>What a push does to the wrapper, as the rest of the program sees it.\<close>

definition push_post ::
  "('z, 'cb) ZlibWrapper \<Rightarrow> 'cb \<Rightarrow> ('z, 'cb) ZlibWrapper \<Rightarrow> ZlibTask list \<Rightarrow> 'cb list \<Rightarrow> bool" where
  "push_post wr callback wr' new called_back =
     (zw_unzip wr' = zw_unzip wr \<and>
      mset (map snd (zw_callback_map wr')) + mset called_back = add_mset callback (mset (map snd (zw_callback_map wr))) \<and>
      length new + length (zw_task_queue wr') + length (heads wr') \<le> Suc (length (zw_task_queue wr) + length (heads wr)) \<and>
      (zw_ended wr \<longrightarrow> zw_ended wr') \<and> (\<not> zw_ended wr \<longrightarrow> zw_inited wr \<longrightarrow> zw_running wr \<longrightarrow> new = []))"

lemma push_async_inv:
  assumes inv: "started_inv v busy i wr cur next pushed"
    and t: "task_ok i (zw_unzip wr) (Suc next) t" "\<not> zt_prepared t" "zt_id t = next"
    and h: "\<forall>h\<in>set (heads wr). task_ok i (zw_unzip wr) next h \<and> \<not> zt_prepared h"
  shows "\<exists>wr' new. push_async callback t wr = (wr', new, [], Ret_none) \<and>
    started_inv v busy i wr' (cur @ new) (Suc next) (pushed @ concat (map zt_input (heads wr)) @ zt_input t) \<and>
    zw_head_task wr' = None \<and> zw_inited wr' = zw_inited wr \<and> zw_type wr' = zw_type wr \<and> zw_ended wr' = zw_ended wr \<and>
    push_post wr callback wr' new [] \<and> set new \<subseteq> set (zw_task_queue wr) \<union> set (heads wr) \<union> {t}"
proof -
  define wr1 where "wr1 = wr\<lparr>zw_callback_map := omap_set (zt_id t) callback (zw_callback_map wr),
    zw_task_queue := zw_task_queue wr @ heads wr @ [t], zw_head_task := None\<rparr>"
  define new where "new = (if zw_running wr then [] else [hd (zw_task_queue wr1)])"
  define wr' where "wr' = (if zw_running wr then wr1
    else wr1\<lparr>zw_running := True, zw_task_queue := List.tl (zw_task_queue wr1)\<rparr>)"
  have q: "new @ zw_task_queue wr' = zw_task_queue wr @ heads wr @ [t]"
    by (simp add: new_def wr'_def wr1_def)
  have p: "push_async callback t wr = (wr', new, [], Ret_none)"
    by (simp add: push_async_def Let_def new_def wr'_def wr1_def heads_def)
  have f: "zw_unzip wr' = zw_unzip wr" "zw_type wr' = zw_type wr" "zw_stream wr' = zw_stream wr" "zw_next_in wr' = zw_next_in wr"
    "zw_ended wr' = zw_ended wr" "zw_inited wr' = zw_inited wr" "zw_running wr'" "zw_head_task wr' = None" "base_ok wr' = base_ok wr"
    "zw_callback_map wr' = omap_set next callback (zw_callback_map wr)"
    using t(3) by (auto simp: wr'_def wr1_def base_ok_def)
  have all_ok: "\<forall>x\<in>set cur \<union> set (zw_task_queue wr @ heads wr @ [t]). task_ok i (zw_unzip wr) (Suc next) x"
    "\<forall>x\<in>set (zw_task_queue wr @ heads wr @ [t]). \<not> zt_prepared x"
    using inv t h by (auto simp: started_inv_def tasks_ok_def intro: task_ok_mono)
  have sub: "set new \<union> set (zw_task_queue wr') = set (zw_task_queue wr @ heads wr @ [t])" using q by (metis set_append)
  have "tasks_ok i wr' (cur @ new) (Suc next)"
    using all_ok sub unfolding tasks_ok_def f(1) by (metis (no_types, lifting) Un_iff set_append)
  moreover have "map_ok wr' (cur @ new)"
  proof -
    have m: "omap_wf (zw_callback_map wr)" "fst ` set (zw_callback_map wr) \<subseteq> zt_id ` (set cur \<union> set (zw_task_queue wr))"
      using inv by (auto simp: started_inv_def map_ok_def)
    have "fst ` set (zw_callback_map wr') = insert next (fst ` set (zw_callback_map wr))"
      using omap_set_keys [of "next" callback "zw_callback_map wr"] by (simp add: f)
    also have "\<dots> \<subseteq> zt_id ` (set cur \<union> (set new \<union> set (zw_task_queue wr')))"
      unfolding sub using m(2) t(3) by auto
    finally show ?thesis using m(1) by (auto simp: map_ok_def f(10) omap_wf_set)
  qed
  moreover have "sched_ok busy wr' (cur @ new)"
    using inv f(5,7) by (auto simp: started_inv_def sched_ok_def new_def split: if_splits)
  moreover have "feed_ok v wr' (cur @ new) (pushed @ concat (map zt_input (heads wr)) @ zt_input t)"
  proof (cases "zw_ended wr")
    case False
    have pe: "pending_in wr' = pending_in wr" by (rule ext) (simp add: pending_in_def f)
    have np: "\<forall>x\<in>set new. pending_in wr' x = zt_input x" using all_ok(2) sub by (auto simp: pending_in_def)
    have "concat (map (pending_in wr') new) @ concat (map zt_input (zw_task_queue wr')) = concat (map zt_input (new @ zw_task_queue wr'))"
      using np by (simp cong: map_cong)
    also have "\<dots> = concat (map zt_input (zw_task_queue wr)) @ concat (map zt_input (heads wr)) @ zt_input t"
      by (simp add: q)
    finally have "concat (map (pending_in wr') (cur @ new)) @ concat (map zt_input (zw_task_queue wr')) =
      concat (map (pending_in wr) cur) @ concat (map zt_input (zw_task_queue wr)) @ concat (map zt_input (heads wr)) @ zt_input t"
      using pe by simp
    moreover from inv False have "live v (zw_unzip wr) (zw_stream wr)"
      "fed v (zw_stream wr) @ concat (map (pending_in wr) cur) @ concat (map zt_input (zw_task_queue wr)) = pushed"
      by (auto simp: started_inv_def feed_ok_def)
    ultimately show ?thesis using False by (simp add: feed_ok_def f)
  qed (simp add: feed_ok_def f)
  ultimately have "started_inv v busy i wr' (cur @ new) (Suc next) (pushed @ concat (map zt_input (heads wr)) @ zt_input t)"
    using inv f(9) by (simp add: started_inv_def)
  moreover have "push_post wr callback wr' new []"
  proof -
    have "omap_find (zw_callback_map wr) next = None"
      using inv by (auto simp: started_inv_def map_ok_def tasks_ok_def task_ok_def omap_find_def map_of_eq_None_iff
          dest!: subsetD)
    moreover have "length new + length (zw_task_queue wr') = Suc (length (zw_task_queue wr) + length (heads wr))"
      using arg_cong [OF q, of length] by simp
    moreover have "heads wr' = []" by (simp add: heads_def f)
    ultimately show ?thesis
      using omap_set_fresh_values [of "zw_callback_map wr" "next" callback] by (simp add: push_post_def f) (simp add: new_def)
  qed
  moreover have "set new \<subseteq> set (zw_task_queue wr) \<union> set (heads wr) \<union> {t}" using sub by auto
  ultimately show ?thesis using p f by blast
qed

definition args_ok :: "('z, 'cb) ZlibWrapper \<Rightarrow> 'cb push_args \<Rightarrow> bool" where
  "args_ok wr args =
     (pa_offset args + pa_length args \<le> length (pa_buffer args) \<and> (zw_unzip wr \<longrightarrow> pa_flush_mode args \<noteq> Z_FINISH))"

definition args_input :: "'cb push_args \<Rightarrow> bytes" where
  "args_input args = take (pa_length args) (drop (pa_offset args) (pa_buffer args))"

fun called_back :: "'cb zeffect list \<Rightarrow> 'cb list" where
  "called_back [] = []"
| "called_back (ZE_callback i cb r # es) = cb # called_back es"
| "called_back (_ # es) = called_back es"

text \<open>Outcome of a push on a wrapper: nothing aborts and the invariant is kept.\<close>

definition push_ok ::
  "'z zview \<Rightarrow> bool \<Rightarrow> nat \<Rightarrow> ('z, 'cb) ZlibWrapper \<Rightarrow> ZlibTask list \<Rightarrow> nat \<Rightarrow> bytes \<Rightarrow> 'cb push_args \<Rightarrow>
   ('z, 'cb) push_result outcome \<Rightarrow> bool" where
  "push_ok v busy i wr cur next pushed args r =
     (\<exists>wr' new effects ret. r = Inr (wr', new, effects, ret) \<and>
        wrapper_inv v busy i wr' (cur @ new) (Suc next) (pushed @ args_input args) \<and>
        push_post wr (pa_callback args) wr' new (called_back effects) \<and> (\<forall>t\<in>set new. zt_parent t = i) \<and>
        (\<forall>e\<in>set effects. \<exists>r. e = ZE_callback i (pa_callback args) r))"

lemma map_key_fresh:
  assumes "wrapper_inv v busy i wr cur next pushed" "next \<le> k"
  shows "omap_find (zw_callback_map wr) k = None"
proof (cases "zw_inited wr")
  case True
  with assms(1) have "fst ` set (zw_callback_map wr) \<subseteq> zt_id ` (set cur \<union> set (zw_task_queue wr))"
    "\<forall>t\<in>set cur \<union> set (zw_task_queue wr). zt_id t < next"
    by (auto simp: wrapper_inv_def started_inv_def map_ok_def tasks_ok_def task_ok_def)
  with assms(2) have "x \<in> fst ` set (zw_callback_map wr) \<Longrightarrow> x < k" for x by force
  then have "k \<notin> fst ` set (zw_callback_map wr)" by blast
  then show ?thesis by (simp add: omap_find_def map_of_eq_None_iff)
next
  case False
  with assms(1) show ?thesis by (simp add: wrapper_inv_def fresh_inv_def fresh_base_def)
qed

lemma ClearTaskCallback_absent:
  "omap_find (zw_callback_map wr) k = None \<Longrightarrow> ClearTaskCallback k wr = wr"
  by (simp add: ClearTaskCallback_def omap_erase_absent)

text \<open>An empty result: the function is called at once.\<close>

lemma ReturnEmpty_ok:
  assumes "wrapper_inv v busy i wr' cur (Suc next) (pushed @ args_input args)" "zt_id t = next" "zt_parent t = i"
    "\<not> zw_is_sync wr'" "omap_find (zw_callback_map wr') next = None"
    "push_post wr (pa_callback args) wr' [] [pa_callback args]"
  shows "push_ok v busy i wr cur next pushed args (Inr (ReturnEmptyResultSyncOrAsync (pa_callback args) t wr'))"
  using assms by (auto simp: push_ok_def ReturnEmptyResultSyncOrAsync_def ClearTaskCallback_absent)

text \<open>The stream is initialised and the task goes to the queue.\<close>

lemma push_started_ok:
  assumes inv: "started_inv v busy i wr1 cur next pushed1" "zw_inited wr1" "\<not> (zw_type wr1 = 2 \<and> zw_unzip wr1)"
    and t: "task_ok i (zw_unzip wr1) (Suc next) t" "\<not> zt_prepared t" "zt_id t = next" "zt_input t = args_input args"
    and h: "\<forall>h\<in>set (heads wr1). task_ok i (zw_unzip wr1) next h \<and> \<not> zt_prepared h"
    and p: "pushed = pushed1 @ concat (map zt_input (heads wr1))"
    and same: "zw_unzip wr1 = zw_unzip wr" "zw_callback_map wr1 = zw_callback_map wr" "zw_task_queue wr1 = zw_task_queue wr"
      "heads wr1 = heads wr" "zw_ended wr1 = zw_ended wr" "zw_running wr1 = zw_running wr"
  shows "push_ok v busy i wr cur next pushed args (Inr (push_async (pa_callback args) t wr1))"
proof -
  obtain wr' new where a: "push_async (pa_callback args) t wr1 = (wr', new, [], Ret_none)"
    "started_inv v busy i wr' (cur @ new) (Suc next) (pushed1 @ concat (map zt_input (heads wr1)) @ zt_input t)"
    "zw_head_task wr' = None" "zw_inited wr' = zw_inited wr1" "zw_type wr' = zw_type wr1"
    "push_post wr1 (pa_callback args) wr' new []" "set new \<subseteq> set (zw_task_queue wr1) \<union> set (heads wr1) \<union> {t}"
    using push_async_inv [OF inv(1) t(1-3) h, of "pa_callback args"] by blast
  have u: "zw_unzip wr' = zw_unzip wr1" using a(6) by (simp add: push_post_def)
  have "\<forall>x\<in>set new. zt_parent x = i"
    using a(7) inv(1) t(1) h by (auto simp: started_inv_def tasks_ok_def task_ok_def)
  moreover have "wrapper_inv v busy i wr' (cur @ new) (Suc next) (pushed @ args_input args)"
    using a(2-5) u inv(2,3) by (simp add: wrapper_inv_def p t(4))
  moreover have "push_post wr (pa_callback args) wr' new []"
    using a(6) inv(2) by (auto simp: push_post_def same)
  ultimately show ?thesis using a(1) by (simp add: push_ok_def)
qed

lemma init_started:
  assumes "fresh_base i wr next pushed" "zlib_contract lib v"
    "(ok, wr1) = (if zw_unzip wr then UnzipWrapper_Init lib wr else ZipWrapper_Init lib wr)"
  shows "ok \<and> started_inv v False i wr1 [] next [] \<and> zw_inited wr1 \<and> zw_type wr1 = zw_type wr \<and> heads wr1 = heads wr \<and>
    zw_unzip wr1 = zw_unzip wr \<and> zw_callback_map wr1 = zw_callback_map wr \<and> zw_task_queue wr1 = zw_task_queue wr \<and>
    zw_ended wr1 = zw_ended wr \<and> zw_running wr1 = zw_running wr"
proof -
  define wb where "wb = (if zw_type wr = 0 then zw_window_bits wr + 16 else zw_window_bits wr)"
  define r where "r = (if zw_unzip wr then inflateInit2 lib wb
    else deflateInit2 lib (zw_level wr) wb (zw_mem_level wr) (zw_strategy wr))"
  have z: "live v (zw_unzip wr) (fst r)" "fed v (fst r) = []" "snd r = 0"
    using assms(2) by (simp_all add: zlib_contract_def zlib_init_def r_def)
  have wr1: "wr1 = wr\<lparr>zw_next_in := [], zw_stream := fst r, zw_inited := True\<rparr>" "ok = (snd r = 0)"
    using assms(3) by (simp_all add: UnzipWrapper_Init_def ZipWrapper_Init_def Let_def r_def wb_def case_prod_beta split: if_splits)
  have "started_inv v False i wr1 [] next []"
    using assms(1) z
    by (simp add: wr1 started_inv_def fresh_inv_def fresh_base_def base_ok_def sched_ok_def tasks_ok_def map_ok_def feed_ok_def)
  then show ?thesis using z(3) by (simp add: wr1 heads_def)
qed

lemma args_ok_input: "args_ok wr args \<Longrightarrow>
   ConvenientArrayBufferStore (pa_buffer args) (pa_offset args) (pa_length args) = Inr (args_input args)"
  by (simp add: args_ok_def ConvenientArrayBufferStore_def args_input_def)

lemma new_task_ok:
  assumes "args_ok wr args"
  shows "task_ok i (zw_unzip wr) (Suc next) (ZlibTask_new next i (zw_unzip wr) (args_input args) (pa_flush_mode args))"
  using assms by (simp add: task_ok_def ZlibTask_new_def args_ok_def)

lemma empty_push_post:
  "zw_callback_map wr' = zw_callback_map wr \<Longrightarrow> zw_task_queue wr' = zw_task_queue wr \<Longrightarrow> zw_unzip wr' = zw_unzip wr \<Longrightarrow>
   length (heads wr') \<le> Suc (length (heads wr)) \<Longrightarrow> zw_ended wr' = zw_ended wr \<Longrightarrow> push_post wr cb wr' [] [cb]"
  by (simp add: push_post_def)

lemma wrapper_inv_async: "wrapper_inv v busy i wr cur next pushed \<Longrightarrow> \<not> zw_is_sync wr"
  by (auto simp: wrapper_inv_def started_inv_def fresh_inv_def fresh_base_def base_ok_def split: if_splits)

lemma zip_push_ok:
  assumes inv: "wrapper_inv v busy i wr cur next pushed" and c: "zlib_contract lib v"
    and a: "args_ok wr args" "pa_wrapper args = i" and u: "\<not> zw_unzip wr"
  shows "push_ok v busy i wr cur next pushed args
    (zip_push_prologue lib args next wr (\<lambda>r. r) (\<lambda>t wr. Inr (push_async (pa_callback args) t wr)))"
proof -
  define t where "t = ZlibTask_new next i False (args_input args) (pa_flush_mode args)"
  have t: "task_ok i (zw_unzip wr) (Suc next) t" "\<not> zt_prepared t" "zt_id t = next" "zt_input t = args_input args" "zt_parent t = i"
    using new_task_ok [OF a(1)] u by (simp_all add: t_def ZlibTask_new_def)
  consider (empty) "args_input args = []" "pa_flush_mode args \<noteq> 4"
    | (inited) "zw_inited wr" "\<not> (args_input args = [] \<and> pa_flush_mode args \<noteq> 4)"
    | (fresh) "\<not> zw_inited wr" "\<not> (args_input args = [] \<and> pa_flush_mode args \<noteq> 4)" by blast
  then show ?thesis
  proof cases
    case empty
    have "push_ok v busy i wr cur next pushed args (Inr (ReturnEmptyResultSyncOrAsync (pa_callback args) t wr))"
      using empty wrapper_inv_mono [OF inv, of "Suc next"] wrapper_inv_async [OF inv] map_key_fresh [OF inv]
      by (intro ReturnEmpty_ok t empty_push_post) simp_all
    then show ?thesis using empty by (simp add: zip_push_prologue_def args_ok_input [OF a(1)] a(2) t_def)
  next
    case inited
    then have "started_inv v busy i wr cur next pushed" "heads wr = []"
      using inv by (auto simp: wrapper_inv_def heads_def)
    then have "push_ok v busy i wr cur next pushed args (Inr (push_async (pa_callback args) t wr))"
      using inited(1) u by (intro push_started_ok [OF _ _ _ t(1-4)]) auto
    then show ?thesis using inited by (auto simp: zip_push_prologue_def args_ok_input [OF a(1)] a(2) t_def)
  next
    case fresh
    obtain ok wr1 where i: "(ok, wr1) = ZipWrapper_Init lib wr" by (cases "ZipWrapper_Init lib wr") auto
    have f: "fresh_base i wr next pushed" "cur = []" "\<not> busy" "zw_head_task wr = None"
      using inv fresh u by (auto simp: wrapper_inv_def fresh_inv_def)
    note s = init_started [OF f(1) c, of ok wr1, simplified u if_False, OF i]
    have "heads wr = []" "pushed = []" using f(1,4) by (auto simp: fresh_base_def heads_def)
    with s f(2,3) u t have "push_ok v busy i wr cur next pushed args (Inr (push_async (pa_callback args) t wr1))"
      by (intro push_started_ok) auto
    then show ?thesis
      using fresh s by (auto simp: zip_push_prologue_def args_ok_input [OF a(1)] a(2) t_def i [symmetric])
  qed
qed

text \<open>The first bytes of an \<open>UNZIP\<close> stream: the header is known, or the byte is kept.\<close>

lemma unzip_header_started:
  "wrapper_inv v busy i wr cur next pushed \<Longrightarrow> zw_inited wr \<Longrightarrow> zw_unzip wr \<Longrightarrow> unzip_header t wr = Header_known wr"
  by (auto simp: wrapper_inv_def unzip_header_def)

lemma unzip_header_fresh:
  assumes inv: "fresh_inv i wr next pushed" and u: "zw_unzip wr" "\<not> zw_inited wr"
    and t: "task_ok i True (Suc next) t" "\<not> zt_prepared t" "zt_input t \<noteq> []"
  shows "(\<exists>wr1. unzip_header t wr = Header_known wr1 \<and> fresh_base i wr1 next pushed \<and> zw_type wr1 \<noteq> 2 \<and>
      heads wr1 = heads wr \<and> zw_unzip wr1 = zw_unzip wr \<and> zw_callback_map wr1 = zw_callback_map wr \<and>
      zw_task_queue wr1 = zw_task_queue wr \<and> zw_ended wr1 = zw_ended wr \<and> zw_running wr1 = zw_running wr \<and> \<not> zw_inited wr1) \<or>
    (\<exists>wr1. unzip_header t wr = Header_wait wr1 \<and> fresh_inv i wr1 (Suc next) (pushed @ zt_input t) \<and>
      heads wr = [] \<and> heads wr1 = [t] \<and> zw_unzip wr1 = zw_unzip wr \<and> zw_callback_map wr1 = zw_callback_map wr \<and>
      zw_task_queue wr1 = zw_task_queue wr \<and> zw_ended wr1 = zw_ended wr \<and> \<not> zw_inited wr1 \<and> \<not> zw_is_sync wr1)"
proof (cases "zw_type wr = 2")
  case False
  then show ?thesis using inv u by (auto simp: unzip_header_def fresh_inv_def)
next
  case True
  show ?thesis
  proof (cases "zw_head_task wr")
    case None
    with inv u True have n: "zw_first_two_bytes wr = kNonParsed" by (simp add: fresh_inv_def)
    consider "zt_input t ! 0 \<noteq> 0x1f" | "zt_input t ! 0 = 0x1f" "length (zt_input t) \<noteq> 1"
      | "zt_input t ! 0 = 0x1f" "length (zt_input t) = 1" by blast
    then show ?thesis
      using inv u True None n t
      by cases (auto simp: unzip_header_def unzip_second_byte_def fresh_inv_def fresh_base_def heads_def base_ok_def)
  next
    case (Some h)
    with inv u True have "zw_first_two_bytes wr = kFirstParsed" by (simp add: fresh_inv_def)
    then show ?thesis
      using inv u True Some
      by (auto simp: unzip_header_def unzip_second_byte_def fresh_inv_def fresh_base_def heads_def base_ok_def)
  qed
qed

lemma unzip_push_ok:
  assumes inv: "wrapper_inv v busy i wr cur next pushed" and c: "zlib_contract lib v"
    and a: "args_ok wr args" "pa_wrapper args = i" and u: "zw_unzip wr"
  shows "push_ok v busy i wr cur next pushed args
    (unzip_push_prologue lib args next wr (\<lambda>r. r) (\<lambda>t wr. Inr (push_async (pa_callback args) t wr)))"
proof -
  define t where "t = ZlibTask_new next i True (args_input args) (pa_flush_mode args)"
  have t: "task_ok i (zw_unzip wr) (Suc next) t" "\<not> zt_prepared t" "zt_id t = next" "zt_input t = args_input args" "zt_parent t = i"
    using new_task_ok [OF a(1)] u by (simp_all add: t_def ZlibTask_new_def)
  note unfold = unzip_push_prologue_def args_ok_input [OF a(1)] a(2) t_def [symmetric] Let_def
  consider (empty) "args_input args = []" | (inited) "zw_inited wr" "args_input args \<noteq> []"
    | (fresh) "\<not> zw_inited wr" "args_input args \<noteq> []" by blast
  then show ?thesis
  proof cases
    case empty
    have "push_ok v busy i wr cur next pushed args (Inr (ReturnEmptyResultSyncOrAsync (pa_callback args) t wr))"
      using empty wrapper_inv_mono [OF inv, of "Suc next"] wrapper_inv_async [OF inv] map_key_fresh [OF inv]
      by (intro ReturnEmpty_ok t empty_push_post) simp_all
    then show ?thesis using empty by (simp add: unzip_push_prologue_def args_ok_input [OF a(1)] a(2) t_def)
  next
    case inited
    then have s: "started_inv v busy i wr cur next pushed" "heads wr = []" "zw_type wr \<noteq> 2"
      using inv u by (auto simp: wrapper_inv_def heads_def)
    then have "push_ok v busy i wr cur next pushed args (Inr (push_async (pa_callback args) t wr))"
      using inited(1) u by (intro push_started_ok [OF _ _ _ t(1-4)]) auto
    then show ?thesis using inited unzip_header_started [OF inv inited(1) u] by (simp add: unfold)
  next
    case fresh
    have f: "fresh_inv i wr next pushed" "cur = []" "\<not> busy" using inv fresh by (auto simp: wrapper_inv_def)
    have t': "zt_input t \<noteq> []" using fresh t(4) by simp
    show ?thesis
      using unzip_header_fresh [OF f(1) u fresh(1) t(1) [unfolded u [THEN eqTrueI]] t(2) t']
    proof (elim disjE exE conjE)
      fix wr1
      assume h: "unzip_header t wr = Header_known wr1" "fresh_base i wr1 next pushed" "zw_type wr1 \<noteq> 2"
        "heads wr1 = heads wr" "zw_unzip wr1 = zw_unzip wr" "zw_callback_map wr1 = zw_callback_map wr"
        "zw_task_queue wr1 = zw_task_queue wr" "zw_ended wr1 = zw_ended wr" "zw_running wr1 = zw_running wr" "\<not> zw_inited wr1"
      obtain ok wr2 where i: "(ok, wr2) = UnzipWrapper_Init lib wr1" by (cases "UnzipWrapper_Init lib wr1") auto
      have s: "ok \<and> started_inv v False i wr2 [] next [] \<and> zw_inited wr2 \<and> zw_type wr2 = zw_type wr1 \<and> heads wr2 = heads wr1 \<and>
        zw_unzip wr2 = zw_unzip wr1 \<and> zw_callback_map wr2 = zw_callback_map wr1 \<and> zw_task_queue wr2 = zw_task_queue wr1 \<and>
        zw_ended wr2 = zw_ended wr1 \<and> zw_running wr2 = zw_running wr1"
        using init_started [OF h(2) c, of ok wr2] i h(5) u by simp
      have "push_ok v busy i wr cur next pushed args (Inr (push_async (pa_callback args) t wr2))"
        using s h f t h(2) [unfolded fresh_base_def] by (intro push_started_ok [where ?pushed1.0 = "[]"]) auto
      then show ?thesis using fresh h(1,10) s by (simp add: unfold i [symmetric])
    next
      fix wr1
      assume h: "unzip_header t wr = Header_wait wr1" "fresh_inv i wr1 (Suc next) (pushed @ zt_input t)"
        "heads wr = []" "heads wr1 = [t]" "zw_unzip wr1 = zw_unzip wr" "zw_callback_map wr1 = zw_callback_map wr"
        "zw_task_queue wr1 = zw_task_queue wr" "zw_ended wr1 = zw_ended wr" "\<not> zw_inited wr1" "\<not> zw_is_sync wr1"
      have "push_ok v busy i wr cur next pushed args (Inr (ReturnEmptyResultSyncOrAsync (pa_callback args) t wr1))"
        using h f t map_key_fresh [OF inv] by (intro ReturnEmpty_ok empty_push_post) (auto simp: wrapper_inv_def)
      then show ?thesis using fresh h(1) by (simp add: unfold)
    qed
  qed
qed

text \<open>Completing a task: the next one is triggered.\<close>

lemma TryTriggerNextTask_inv:
  assumes inv: "wrapper_inv v True i wr cur next pushed" and tr: "TryTriggerNextTask wr = (new, wr')"
  shows "wrapper_inv v False i wr' (cur @ new) next pushed \<and> (\<forall>t\<in>set new. zt_parent t = i) \<and>
    length new + length (zw_task_queue wr') = length (zw_task_queue wr) \<and> heads wr' = heads wr \<and>
    zw_unzip wr' = zw_unzip wr \<and> zw_callback_map wr' = zw_callback_map wr"
proof (cases "zw_task_queue wr")
  case Nil
  then have tr': "new = []" "wr' = wr\<lparr>zw_running := False\<rparr>" using tr by (auto simp: TryTriggerNextTask_def)
  have pe: "pending_in wr' = pending_in wr" by (rule ext) (simp add: pending_in_def tr')
  have i: "zw_inited wr" "started_inv v True i wr cur next pushed" using inv by (auto simp: wrapper_inv_def split: if_splits)
  have "sched_ok False wr' cur" using i(2) Nil unfolding started_inv_def sched_ok_def by (cases "zw_running wr") (simp_all add: tr')
  moreover have "base_ok wr'" "tasks_ok i wr' cur next" "map_ok wr' cur" "feed_ok v wr' cur pushed"
    using i(2) unfolding started_inv_def base_ok_def tasks_ok_def map_ok_def feed_ok_def pe by (simp_all add: tr')
  ultimately have "started_inv v False i wr' cur next pushed" by (simp add: started_inv_def)
  then show ?thesis using inv i(1) Nil by (simp add: wrapper_inv_def tr' heads_def)
next
  case (Cons t ts)
  have tr': "new = [t]" "wr' = wr\<lparr>zw_task_queue := ts\<rparr>" using tr Cons by (auto simp: TryTriggerNextTask_def)
  have pe: "pending_in wr' = pending_in wr" by (rule ext) (simp add: pending_in_def tr')
  have i: "zw_inited wr" "started_inv v True i wr cur next pushed" using inv by (auto simp: wrapper_inv_def split: if_splits)
  then have "\<not> zt_prepared t" "zt_parent t = i" using Cons by (auto simp: started_inv_def tasks_ok_def task_ok_def)
  moreover from this have "feed_ok v wr' (cur @ new) pushed"
    using i(2) Cons by (simp add: started_inv_def feed_ok_def pe) (simp add: tr' pending_in_def)
  moreover have "base_ok wr'" "sched_ok False wr' (cur @ new)" "tasks_ok i wr' (cur @ new) next" "map_ok wr' (cur @ new)"
    using i(2) Cons unfolding started_inv_def base_ok_def sched_ok_def tasks_ok_def map_ok_def
    by (simp_all add: tr') auto
  ultimately have "started_inv v False i wr' (cur @ new) next pushed" by (simp add: started_inv_def)
  then show ?thesis using inv i(1) Cons \<open>zt_parent t = i\<close> by (simp add: wrapper_inv_def tr' heads_def)
qed

lemma map_erase_keys: "fst ` set (omap_erase k m) = fst ` set m - {k}"
  by (auto simp: omap_erase_def)

text \<open>The call back of a completed task: its entry leaves the map, and the function is called if there was one.\<close>

lemma DoTaskCallback_inv:
  assumes "base_ok wr" "sched_ok True wr cur" "tasks_ok i wr cur next" "feed_ok v wr cur pushed" "omap_wf (zw_callback_map wr)"
    "fst ` set (zw_callback_map wr) \<subseteq> insert key (zt_id ` (set cur \<union> set (zw_task_queue wr)))"
    "zw_inited wr" "zw_head_task wr = None" "\<not> (zw_type wr = 2 \<and> zw_unzip wr)"
    "DoTaskCallback i key res wr = (effects, wr')"
  shows "wrapper_inv v True i wr' cur next pushed \<and>
    mset (map snd (zw_callback_map wr')) + mset (called_back effects) = mset (map snd (zw_callback_map wr)) \<and>
    zw_task_queue wr' = zw_task_queue wr \<and> zw_unzip wr' = zw_unzip wr \<and> heads wr' = heads wr \<and>
    (\<forall>e\<in>set effects. \<exists>cb r. e = ZE_callback i cb r)"
proof (cases "omap_find (zw_callback_map wr) key")
  case None
  then have "key \<notin> fst ` set (zw_callback_map wr)" by (simp add: omap_find_def map_of_eq_None_iff)
  with assms(6) have "map_ok wr cur" using assms(5) by (auto simp: map_ok_def)
  then show ?thesis using assms None by (simp add: DoTaskCallback_def wrapper_inv_def started_inv_def)
next
  case (Some cb)
  then have e: "effects = [ZE_callback i cb res]" "wr' = wr\<lparr>zw_callback_map := omap_erase key (zw_callback_map wr)\<rparr>"
    using assms(10) by (auto simp: DoTaskCallback_def ClearTaskCallback_def)
  have pe: "pending_in wr' = pending_in wr" by (rule ext) (simp add: pending_in_def e)
  have "map_ok wr' cur"
    using assms(5,6) by (auto simp: map_ok_def e omap_wf_erase map_erase_keys)
  moreover have "base_ok wr'" "sched_ok True wr' cur" "tasks_ok i wr' cur next" "feed_ok v wr' cur pushed"
    using assms(1-4) unfolding base_ok_def sched_ok_def tasks_ok_def feed_ok_def pe by (simp_all add: e)
  ultimately have "started_inv v True i wr' cur next pushed" by (simp add: started_inv_def)
  then show ?thesis
    using assms(7-9) omap_erase_values [OF assms(5) Some] by (simp add: wrapper_inv_def e heads_def)
qed

lemma inv_cur_started:
  assumes "wrapper_inv v busy i wr (t # cur) next pushed"
  shows "zw_inited wr" "started_inv v busy i wr (t # cur) next pushed" "zw_head_task wr = None" "\<not> (zw_type wr = 2 \<and> zw_unzip wr)"
  using assms by (auto simp: wrapper_inv_def split: if_splits)

text \<open>
  Completion of a task, from the state its last unit of work leaves: the stream has ended,
  or it goes on and has taken all of the task's input, or it is ended by the error.
\<close>

lemma OnDone_inv:
  assumes inv: "wrapper_inv v False i wr (t # cur) next pushed" and c: "zlib_contract lib v"
    and same: "same_task t t'" "same_wrapper wr wr'" "base_ok wr'" and e: "zw_ended wr \<Longrightarrow> wr' = wr"
    and st: "zw_ended wr' \<Longrightarrow> \<not> zw_ended wr \<Longrightarrow> \<not> zw_running wr'"
      "\<not> zw_ended wr' \<Longrightarrow> zw_running wr' = zw_running wr \<and> live v (zw_unzip wr) (zw_stream wr')"
      "\<not> zw_ended wr' \<Longrightarrow> zt_is_error t' \<or> fed v (zw_stream wr') = fed v (zw_stream wr) @ pending_in wr t"
  shows "\<exists>effects wr''. ZlibTask_OnDone lib t' wr' = Inr (effects, wr'') \<and> wrapper_inv v True i wr'' cur next pushed \<and>
    mset (map snd (zw_callback_map wr'')) + mset (called_back effects) = mset (map snd (zw_callback_map wr)) \<and>
    zw_task_queue wr'' = zw_task_queue wr \<and> zw_unzip wr'' = zw_unzip wr \<and> heads wr'' = heads wr \<and>
    (\<forall>e\<in>set effects. \<exists>cb r. e = ZE_callback i cb r)"
proof -
  note s = inv_cur_started [OF inv]
  define res where "res = (if zt_is_error t' then ZErr (zt_error t') else ZOut (zt_out t'))"
  have w: "zw_unzip wr' = zw_unzip wr" "zw_type wr' = zw_type wr" "zw_task_queue wr' = zw_task_queue wr"
    "zw_callback_map wr' = zw_callback_map wr" "zw_inited wr' = zw_inited wr" "zw_head_task wr' = zw_head_task wr"
    using same(2) by (auto simp: same_wrapper_def)
  have s2: "sched_ok False wr (t # cur)" "tasks_ok i wr (t # cur) next" "map_ok wr (t # cur)" "feed_ok v wr (t # cur) pushed"
    using s(2) by (auto simp: started_inv_def)
  have t: "zt_parent t' = i" "zt_id t' = zt_id t" using same(1) s2(2) by (auto simp: same_task_def tasks_ok_def task_ok_def)
  obtain wr1 where wr1: "(if zt_is_error t' \<and> \<not> zw_ended wr' then OccurError lib (zt_error t') wr' else Inr wr') = Inr wr1"
    and f: "zw_unzip wr1 = zw_unzip wr" "zw_type wr1 = zw_type wr" "zw_task_queue wr1 = zw_task_queue wr"
    "zw_callback_map wr1 = zw_callback_map wr" "zw_inited wr1 = zw_inited wr" "zw_head_task wr1 = zw_head_task wr" "base_ok wr1"
    and e1: "\<not> zw_ended wr1 \<Longrightarrow> \<not> zw_ended wr' \<and> \<not> zt_is_error t' \<and> wr1 = wr'"
      "zw_ended wr1 \<Longrightarrow> \<not> zw_ended wr \<Longrightarrow> \<not> zw_running wr1" "zw_ended wr \<Longrightarrow> wr1 = wr"
  proof (cases "zt_is_error t' \<and> \<not> zw_ended wr'")
    case True
    define wr0 where "wr0 = wr'\<lparr>zw_running := False, zw_errored := True, zw_error := zt_error t', zw_ended := True\<rparr>"
    have "live v (zw_unzip wr0) (zw_stream wr0)" using st(2) True w(1) by (simp add: wr0_def)
    then obtain z where "DoZlibEnd lib wr0 = Inr (wr0\<lparr>zw_stream := z\<rparr>)" using DoZlibEnd_live [OF c] by blast
    then have "OccurError lib (zt_error t') wr' = Inr (wr0\<lparr>zw_stream := z\<rparr>)" by (simp add: OccurError_def wr0_def)
    then show ?thesis
      using True w same(3) e by (intro that [of "wr0\<lparr>zw_stream := z\<rparr>"]) (auto simp: wr0_def base_ok_def)
  next
    case False
    then show ?thesis using w same(3) e st(1) by (intro that [of wr']) auto
  qed
  obtain effects wr'' where cb: "DoTaskCallback i (zt_id t) res wr1 = (effects, wr'')"
    by (cases "DoTaskCallback i (zt_id t) res wr1")
  have "ZlibTask_OnDone lib t' wr' = Inr (effects, wr'')"
    using wr1 cb t by (auto simp: ZlibTask_OnDone_def res_def split: if_splits)
  moreover have "sched_ok True wr1 cur"
    using s2(1) e1 st(2) f(3) by (cases "zw_ended wr"; cases "zw_ended wr1") (auto simp: sched_ok_def)
  moreover have "tasks_ok i wr1 cur next" using s2(2) by (simp add: tasks_ok_def f)
  moreover have "omap_wf (zw_callback_map wr1)"
    "fst ` set (zw_callback_map wr1) \<subseteq> insert (zt_id t) (zt_id ` (set cur \<union> set (zw_task_queue wr1)))"
    using s2(3) by (auto simp: map_ok_def f)
  moreover have "feed_ok v wr1 cur pushed"
  proof (cases "zw_ended wr1")
    case False
    have ne: "\<not> zw_ended wr" using False e e1(1) by auto
    then have "cur = []" using s2(1) by (cases cur; cases "zw_running wr") (auto simp: sched_ok_def)
    then show ?thesis using False e1(1) st(2,3) s2(4) ne by (auto simp: feed_ok_def f w)
  qed (simp add: feed_ok_def)
  ultimately show ?thesis
    using DoTaskCallback_inv [OF f(7) _ _ _ _ _ _ _ _ cb, of cur "next" v pushed] s f by (auto simp: heads_def)
qed

text \<open>One unit of work on a wrapper, completion included.\<close>

lemma wrapper_unit:
  assumes inv: "wrapper_inv v False i wr (t # cur) next pushed" and c: "zlib_contract lib v"
  shows "\<exists>t' wr'. ZlibTask_OnWorkTick lib t wr = Inr (t', wr') \<and> same_task t t' \<and>
    (if zt_is_done t' \<or> zt_is_error t'
     then \<exists>effects wr''. ZlibTask_OnDone lib t' wr' = Inr (effects, wr'') \<and> wrapper_inv v True i wr'' cur next pushed \<and>
       mset (map snd (zw_callback_map wr'')) + mset (called_back effects) = mset (map snd (zw_callback_map wr)) \<and>
       zw_task_queue wr'' = zw_task_queue wr \<and> zw_unzip wr'' = zw_unzip wr \<and> heads wr'' = heads wr \<and>
       (\<forall>e\<in>set effects. \<exists>cb r. e = ZE_callback i cb r)
     else cur = [] \<and> \<not> zw_ended wr \<and> wrapper_inv v False i wr' [t'] next pushed \<and> same_wrapper wr wr' \<and>
       left v (zw_unzip wr') (zw_stream wr') (zt_flush_mode t') (pending_in wr' t')
         < left v (zw_unzip wr) (zw_stream wr) (zt_flush_mode t) (pending_in wr t))"
proof (cases "zw_ended wr")
  case True
  note s = inv_cur_started [OF inv]
  from True s(2) have "zw_finished wr \<or> zw_errored wr" by (simp add: started_inv_def base_ok_def)
  then obtain msg where m: "ZlibTask_OnWorkTick lib t wr = Inr (MacroTask_Fail msg t, wr)" using ended_tick by blast
  have "same_task t (MacroTask_Fail msg t)" "zt_is_error (MacroTask_Fail msg t)" "same_wrapper wr wr" "base_ok wr"
    using s(2) by (auto simp: MacroTask_Fail_def same_task_def same_wrapper_def started_inv_def)
  with OnDone_inv [OF inv c, of "MacroTask_Fail msg t" wr] True m show ?thesis by simp
next
  case False
  note s = inv_cur_started [OF inv]
  have b: "base_ok wr" "sched_ok False wr (t # cur)" "tasks_ok i wr (t # cur) next" "map_ok wr (t # cur)" "feed_ok v wr (t # cur) pushed"
    using s(2) by (auto simp: started_inv_def)
  have cur: "cur = []" using False b(2) by (cases cur; cases "zw_running wr") (auto simp: sched_ok_def)
  have t: "task_ok i (zw_unzip wr) next t" using b(3) by (simp add: tasks_ok_def)
  obtain t' wr' where tick: "ZlibTask_OnWorkTick lib t wr = Inr (t', wr')" and post: "tick_post v t wr t' wr'"
    using live_tick [OF c, of wr t] b(1,5) t False by (auto simp: base_ok_def feed_ok_def task_ok_def)
  have same: "same_task t t'" "same_wrapper wr wr'" using post by (auto simp: tick_post_def)
  have base: "base_ok wr'"
    using b(1) post by (auto simp: tick_post_def base_ok_def same_wrapper_def same_flags_def simp flip: length_greater_0_conv)
  show ?thesis
  proof (cases "zt_is_done t' \<or> zt_is_error t'")
    case True
    have "\<exists>effects wr''. ZlibTask_OnDone lib t' wr' = Inr (effects, wr'') \<and> wrapper_inv v True i wr'' cur next pushed \<and>
       mset (map snd (zw_callback_map wr'')) + mset (called_back effects) = mset (map snd (zw_callback_map wr)) \<and>
       zw_task_queue wr'' = zw_task_queue wr \<and> zw_unzip wr'' = zw_unzip wr \<and> heads wr'' = heads wr \<and>
       (\<forall>e\<in>set effects. \<exists>cb r. e = ZE_callback i cb r)"
      using True False post by (intro OnDone_inv [OF inv c same base]) (auto simp: tick_post_def same_flags_def)
    then show ?thesis using tick same(1) True by simp
  next
    case nd: False
    then have p: "same_flags wr wr'" "live v (zw_unzip wr) (zw_stream wr')"
      "fed v (zw_stream wr') @ pending_in wr' t' = fed v (zw_stream wr) @ pending_in wr t"
      "left v (zw_unzip wr) (zw_stream wr') (zt_flush_mode t) (pending_in wr' t')
         < left v (zw_unzip wr) (zw_stream wr) (zt_flush_mode t) (pending_in wr t)"
      using post by (auto simp: tick_post_def)
    have w: "zw_unzip wr' = zw_unzip wr" "zw_type wr' = zw_type wr" "zw_task_queue wr' = zw_task_queue wr"
      "zw_callback_map wr' = zw_callback_map wr" "zw_inited wr' = zw_inited wr" "zw_head_task wr' = zw_head_task wr"
      "zw_ended wr' = zw_ended wr" "zw_running wr' = zw_running wr"
      using same(2) p(1) by (auto simp: same_wrapper_def same_flags_def)
    have "sched_ok False wr' [t']" "tasks_ok i wr' [t'] next" "map_ok wr' [t']"
      using b(2-4) cur nd same(1) unfolding sched_ok_def tasks_ok_def map_ok_def w task_ok_def same_task_def by simp_all
    moreover have "feed_ok v wr' [t'] pushed"
      using b(5) p(2,3) False cur unfolding feed_ok_def w by (simp add: append_assoc [symmetric] del: append_assoc)
    ultimately have "started_inv v False i wr' [t'] next pushed" using base by (simp add: started_inv_def)
    then have "wrapper_inv v False i wr' [t'] next pushed" using s w by (simp add: wrapper_inv_def)
    then show ?thesis using tick same nd p(4) w(1) cur False by (simp add: same_task_def)
  qed
qed

end
