(* ===== verification/ZlibWorld.thy ===== *)
theory ZlibWorld
  imports ZlibStream
begin

text \<open>
  All compression streams of a program together with the macro task queue: the invariant
  of the whole state, that the tasks satisfy the contract \<open>macro_task\<close> of the queue, and
  the properties this gives.
\<close>

section \<open>The invariant\<close>

definition tasks_of :: "nat \<Rightarrow> ZlibTask list \<Rightarrow> ZlibTask list" where
  "tasks_of i ts = filter (\<lambda>t. zt_parent t = i) ts"

fun pushed_bytes :: "nat \<Rightarrow> 'cb zeffect list \<Rightarrow> bytes" where
  "pushed_bytes i [] = []"
| "pushed_bytes i (ZE_push j b cb # es) = (if j = i then b else []) @ pushed_bytes i es"
| "pushed_bytes i (_ # es) = pushed_bytes i es"

fun pushed_callbacks :: "'cb zeffect list \<Rightarrow> 'cb list" where
  "pushed_callbacks [] = []"
| "pushed_callbacks (ZE_push j b cb # es) = cb # pushed_callbacks es"
| "pushed_callbacks (_ # es) = pushed_callbacks es"

lemma pushed_bytes_append [simp]: "pushed_bytes i (es @ fs) = pushed_bytes i es @ pushed_bytes i fs"
  by (induction i es rule: pushed_bytes.induct) auto

lemma pushed_callbacks_append [simp]: "pushed_callbacks (es @ fs) = pushed_callbacks es @ pushed_callbacks fs"
  by (induction es rule: pushed_callbacks.induct) auto

lemma called_back_append [simp]: "called_back (es @ fs) = called_back es @ called_back fs"
  by (induction es rule: called_back.induct) auto

lemma tasks_of_simps [simp]:
  "tasks_of i [] = []" "tasks_of i (ts @ us) = tasks_of i ts @ tasks_of i us"
  "tasks_of i (t # ts) = (if zt_parent t = i then t # tasks_of i ts else tasks_of i ts)"
  by (simp_all add: tasks_of_def)

lemma tasks_of_all: "\<forall>t\<in>set ts. zt_parent t = j \<Longrightarrow> tasks_of i ts = (if i = j then ts else [])"
  by (induction ts) auto

definition script_ok :: "('z, 'cb) ZlibWrapper list \<Rightarrow> 'cb push_args list \<Rightarrow> bool" where
  "script_ok wrs ps = (\<forall>p\<in>set ps. pa_wrapper p < length wrs \<and> args_ok (wrs ! pa_wrapper p) p)"

definition waiting :: "('z, 'cb) ZlibWrapper list \<Rightarrow> 'cb multiset" where
  "waiting wrs = sum_list (map (\<lambda>wr. mset (map snd (zw_callback_map wr))) wrs)"

text \<open>\<open>b\<close> is the wrapper one of whose tasks is being completed, if any.\<close>

definition world_inv :: "'z zview \<Rightarrow> nat option \<Rightarrow> ('z, 'cb) zworld \<Rightarrow> ZlibTask list \<Rightarrow> bool" where
  "world_inv v b w ts =
     ((\<forall>i < length (zs_wrappers w).
        wrapper_inv v (b = Some i) i (zs_wrappers w ! i) (tasks_of i ts) (zs_next w) (pushed_bytes i (zs_effects w))) \<and>
      (\<forall>t\<in>set ts. zt_parent t < length (zs_wrappers w)) \<and>
      (\<forall>ps\<in>set (zs_script w). script_ok (zs_wrappers w) ps) \<and>
      (\<forall>i \<ge> length (zs_wrappers w). pushed_bytes i (zs_effects w) = []) \<and>
      mset (called_back (zs_effects w)) + waiting (zs_wrappers w) = mset (pushed_callbacks (zs_effects w)))"

lemma world_invD:
  assumes "world_inv v b w ts"
  shows "i < length (zs_wrappers w) \<Longrightarrow>
      wrapper_inv v (b = Some i) i (zs_wrappers w ! i) (tasks_of i ts) (zs_next w) (pushed_bytes i (zs_effects w))"
    and "t \<in> set ts \<Longrightarrow> zt_parent t < length (zs_wrappers w)"
    and "ps \<in> set (zs_script w) \<Longrightarrow> script_ok (zs_wrappers w) ps"
    and "mset (called_back (zs_effects w)) + waiting (zs_wrappers w) = mset (pushed_callbacks (zs_effects w))"
    and "length (zs_wrappers w) \<le> i \<Longrightarrow> pushed_bytes i (zs_effects w) = []"
  using assms by (auto simp: world_inv_def)

lemma sum_list_update_add:
  fixes f :: "'a \<Rightarrow> 'b :: comm_monoid_add"
  assumes "i < length xs" "f y + c = f (xs ! i) + d"
  shows "sum_list (map f (xs[i := y])) + c = sum_list (map f xs) + d"
  using assms
proof (induction xs arbitrary: i)
  case (Cons x xs)
  then show ?case
  proof (cases i)
    case 0
    then show ?thesis using Cons.prems by (simp add: ac_simps) (metis add.assoc add.commute)
  next
    case (Suc j)
    then show ?thesis using Cons.IH [of j] Cons.prems by (simp add: add.assoc)
  qed
qed simp

lemma waiting_update:
  assumes "i < length wrs"
    "mset (map snd (zw_callback_map wr)) + c = mset (map snd (zw_callback_map (wrs ! i))) + d"
  shows "waiting (wrs[i := wr]) + c = waiting wrs + d"
  unfolding waiting_def by (rule sum_list_update_add) (use assms in auto)

lemma script_ok_update:
  assumes "script_ok wrs ps" "zw_unzip wr = zw_unzip (wrs ! i)"
  shows "script_ok (wrs[i := wr]) ps"
proof -
  have "zw_unzip (wrs[i := wr] ! j) = zw_unzip (wrs ! j)" for j
    using assms(2) by (cases "i < length wrs"; cases "j = i") (auto simp: list_update_beyond)
  then show ?thesis using assms(1) by (simp add: script_ok_def args_ok_def)
qed

text \<open>Work left: tasks and pushes not yet made, then what the running tasks still have to write.\<close>

definition wrapper_tasks :: "('z, 'cb) ZlibWrapper \<Rightarrow> nat" where
  "wrapper_tasks wr = length (zw_task_queue wr) + length (heads wr)"

definition tasks_left :: "('z, 'cb) zworld \<Rightarrow> ZlibTask list \<Rightarrow> nat" where
  "tasks_left w ts = length ts + sum_list (map wrapper_tasks (zs_wrappers w)) + sum_list (map length (zs_script w))"

definition output_left :: "'z zview \<Rightarrow> ('z, 'cb) zworld \<Rightarrow> ZlibTask list \<Rightarrow> nat" where
  "output_left v w ts =
     sum_list (map (\<lambda>t. let wr = zs_wrappers w ! zt_parent t
       in if zw_ended wr then 0 else left v (zw_unzip wr) (zw_stream wr) (zt_flush_mode t) (pending_in wr t)) ts)"

definition zlib_order :: "'z zview \<Rightarrow> ((('z, 'cb) zworld \<times> ZlibTask list) \<times> ('z, 'cb) zworld \<times> ZlibTask list) set" where
  "zlib_order v = inv_image (less_than <*lex*> less_than) (\<lambda>(w, ts). (tasks_left w ts, output_left v w ts))"

lemma zlib_order_wf: "wf (zlib_order v)"
  by (auto simp: zlib_order_def intro!: wf_inv_image wf_lex_prod)

lemma wrapper_tasks_update:
  assumes "i < length wrs" "wrapper_tasks wr + c = wrapper_tasks (wrs ! i) + d"
  shows "sum_list (map wrapper_tasks (wrs[i := wr])) + c = sum_list (map wrapper_tasks wrs) + d"
  by (rule sum_list_update_add) (use assms in auto)

section \<open>Pushes\<close>

lemma ZlibWrapper_Push_inv:
  assumes inv: "world_inv v b w ts" and c: "zlib_contract lib v"
    and a: "pa_wrapper p < length (zs_wrappers w)" "args_ok (zs_wrappers w ! pa_wrapper p) p"
  shows "\<exists>new w'. ZlibWrapper_Push lib p w = Inr (new, w') \<and> world_inv v b w' (ts @ new) \<and>
    length (zs_wrappers w') = length (zs_wrappers w) \<and> zs_script w' = zs_script w \<and>
    (\<forall>i < length (zs_wrappers w). zw_unzip (zs_wrappers w' ! i) = zw_unzip (zs_wrappers w ! i)) \<and>
    tasks_left w' (ts @ new) \<le> Suc (tasks_left w ts)"
proof -
  define i where "i = pa_wrapper p"
  define wr where "wr = zs_wrappers w ! i"
  have wi: "wrapper_inv v (b = Some i) i wr (tasks_of i ts) (zs_next w) (pushed_bytes i (zs_effects w))"
    using world_invD(1) [OF inv] a(1) by (simp add: i_def wr_def)
  define r where "r = (if zw_unzip wr then unzip_push_prologue else zip_push_prologue) lib p (zs_next w) wr (\<lambda>r. r)
    (\<lambda>t wr. Inr (push_async (pa_callback p) t wr))"
  have "push_ok v (b = Some i) i wr (tasks_of i ts) (zs_next w) (pushed_bytes i (zs_effects w)) p r"
    using zip_push_ok [OF wi c _ i_def [symmetric]] unzip_push_ok [OF wi c _ i_def [symmetric]] a(2)
    by (simp add: r_def i_def [symmetric] wr_def [symmetric])
  then obtain wr' new effects ret where r: "r = Inr (wr', new, effects, ret)"
    and wi': "wrapper_inv v (b = Some i) i wr' (tasks_of i ts @ new) (Suc (zs_next w)) (pushed_bytes i (zs_effects w) @ args_input p)"
    and post: "push_post wr (pa_callback p) wr' new (called_back effects)" "\<forall>t\<in>set new. zt_parent t = i"
    and eff: "\<forall>e\<in>set effects. \<exists>r. e = ZE_callback i (pa_callback p) r"
    by (auto simp: push_ok_def)
  define w' where "w' = w\<lparr>zs_wrappers := (zs_wrappers w)[i := wr'], zs_next := zs_next w + 1,
    zs_effects := zs_effects w @ ZE_push i (args_input p) (pa_callback p) # effects\<rparr>"
  have push: "ZlibWrapper_Push lib p w = Inr (new, w')"
    using r unfolding ZlibWrapper_Push_def Let_def i_def [symmetric] wr_def [symmetric] r_def [symmetric]
    by (simp add: w'_def args_input_def)
  have pe: "pushed_bytes j effects = []" "pushed_callbacks effects = []" for j
    using eff by (induction effects) auto
  have len: "i < length (zs_wrappers w)" using a(1) by (simp add: i_def)
  have u: "zw_unzip wr' = zw_unzip wr" using post(1) by (simp add: push_post_def)
  have "world_inv v b w' (ts @ new)"
    unfolding world_inv_def
  proof (intro conjI allI impI ballI)
    fix j
    assume j: "j < length (zs_wrappers w')"
    show "wrapper_inv v (b = Some j) j (zs_wrappers w' ! j) (tasks_of j (ts @ new)) (zs_next w') (pushed_bytes j (zs_effects w'))"
    proof (cases "j = i")
      case True
      then show ?thesis using wi' len pe by (simp add: w'_def tasks_of_all [OF post(2)])
    next
      case False
      have "wrapper_inv v (b = Some j) j (zs_wrappers w ! j) (tasks_of j ts) (Suc (zs_next w)) (pushed_bytes j (zs_effects w))"
        using world_invD(1) [OF inv, of j] j by (auto simp: w'_def intro: wrapper_inv_mono)
      then show ?thesis using False pe by (simp add: w'_def tasks_of_all [OF post(2)])
    qed
  next
    show "t \<in> set (ts @ new) \<Longrightarrow> zt_parent t < length (zs_wrappers w')" for t
      using world_invD(2) [OF inv] post(2) len by (auto simp: w'_def)
  next
    show "ps \<in> set (zs_script w') \<Longrightarrow> script_ok (zs_wrappers w') ps" for ps
      using world_invD(3) [OF inv] u by (auto simp: w'_def wr_def intro!: script_ok_update)
  next
    show "length (zs_wrappers w') \<le> j \<Longrightarrow> pushed_bytes j (zs_effects w') = []" for j
      using world_invD(5) [OF inv, of j] pe len by (auto simp: w'_def)
  next
    have "waiting ((zs_wrappers w)[i := wr']) + mset (called_back effects) = waiting (zs_wrappers w) + {#pa_callback p#}"
      using post(1) len by (intro waiting_update) (auto simp: push_post_def wr_def)
    then show "mset (called_back (zs_effects w')) + waiting (zs_wrappers w') = mset (pushed_callbacks (zs_effects w'))"
      using world_invD(4) [OF inv] pe by (simp add: w'_def ac_simps) (metis add.assoc add_mset_add_single union_commute)
  qed
  moreover have "tasks_left w' (ts @ new) \<le> Suc (tasks_left w ts)"
  proof -
    have le: "length new + wrapper_tasks wr' \<le> Suc (wrapper_tasks wr)"
      using post(1) by (simp add: push_post_def wrapper_tasks_def)
    have "sum_list (map wrapper_tasks ((zs_wrappers w)[i := wr'])) + wrapper_tasks wr =
        sum_list (map wrapper_tasks (zs_wrappers w)) + wrapper_tasks wr'"
      using len by (intro wrapper_tasks_update) (auto simp: wr_def)
    with le show ?thesis by (simp add: tasks_left_def w'_def)
  qed
  ultimately show ?thesis
    using push u len by (auto simp: w'_def nth_list_update wr_def)
qed

lemma push_all_inv:
  assumes "world_inv v b w ts" "zlib_contract lib v" "script_ok (zs_wrappers w) ps"
  shows "\<exists>new w'. push_all lib ps w = Inr (new, w') \<and> world_inv v b w' (ts @ new) \<and>
    length (zs_wrappers w') = length (zs_wrappers w) \<and> tasks_left w' (ts @ new) \<le> length ps + tasks_left w ts"
  using assms(1,3)
proof (induction ps arbitrary: w ts)
  case (Cons p ps)
  obtain new w1 where p: "ZlibWrapper_Push lib p w = Inr (new, w1)" "world_inv v b w1 (ts @ new)"
    "length (zs_wrappers w1) = length (zs_wrappers w)"
    "\<forall>i < length (zs_wrappers w). zw_unzip (zs_wrappers w1 ! i) = zw_unzip (zs_wrappers w ! i)"
    "tasks_left w1 (ts @ new) \<le> Suc (tasks_left w ts)"
    using ZlibWrapper_Push_inv [OF Cons.prems(1) assms(2), of p] Cons.prems(2) by (auto simp: script_ok_def)
  have "script_ok (zs_wrappers w1) ps" using Cons.prems(2) p(3,4) by (auto simp: script_ok_def args_ok_def)
  with Cons.IH [OF p(2)] obtain new' w2 where "push_all lib ps w1 = Inr (new', w2)" "world_inv v b w2 ((ts @ new) @ new')"
    "length (zs_wrappers w2) = length (zs_wrappers w1)"
    "tasks_left w2 ((ts @ new) @ new') \<le> length ps + tasks_left w1 (ts @ new)" by blast
  then show ?case using p(1,3,5) by simp
qed simp

lemma run_script_inv:
  assumes inv: "world_inv v b w ts" and c: "zlib_contract lib v"
  shows "\<exists>new w'. run_script lib effects w = Inr (new, w') \<and> world_inv v b w' (ts @ new) \<and>
    length (zs_wrappers w') = length (zs_wrappers w) \<and> tasks_left w' (ts @ new) \<le> tasks_left w ts"
proof (cases "effects = [] \<or> zs_script w = []")
  case True
  then show ?thesis using inv by (auto simp: run_script_def)
next
  case False
  then obtain ps script where s: "zs_script w = ps # script" by (cases "zs_script w") auto
  define w1 where "w1 = w\<lparr>zs_script := script\<rparr>"
  have "world_inv v b w1 ts" "script_ok (zs_wrappers w1) ps" using inv s by (auto simp: world_inv_def w1_def)
  from push_all_inv [OF this(1) c this(2)] show ?thesis
    using False s by (auto simp: run_script_def w1_def tasks_left_def)
qed

section \<open>One unit of work\<close>

text \<open>Replacing one wrapper of a world.\<close>

lemma world_inv_replace:
  assumes inv: "world_inv v b w ts" and i: "i < length (zs_wrappers w)"
    and wi: "wrapper_inv v (b' = Some i) i wr (tasks_of i ts') (zs_next w) (pushed_bytes i (zs_effects w))"
    and b: "\<And>j. j \<noteq> i \<Longrightarrow> (b' = Some j) = (b = Some j)" and u: "zw_unzip wr = zw_unzip (zs_wrappers w ! i)"
    and ts: "\<And>j. j \<noteq> i \<Longrightarrow> tasks_of j ts' = tasks_of j ts" "\<forall>t\<in>set ts'. zt_parent t < length (zs_wrappers w)"
    and cb: "mset (map snd (zw_callback_map wr)) + mset (called_back effects) = mset (map snd (zw_callback_map (zs_wrappers w ! i)))"
    and eff: "\<forall>e\<in>set effects. \<exists>cb r. e = ZE_callback i cb r"
  shows "world_inv v b' (w\<lparr>zs_wrappers := (zs_wrappers w)[i := wr], zs_effects := zs_effects w @ effects\<rparr>) ts'"
proof -
  have pe: "pushed_bytes j effects = []" "pushed_callbacks effects = []" for j
    using eff by (induction effects) auto
  have "waiting ((zs_wrappers w)[i := wr]) + mset (called_back effects) = waiting (zs_wrappers w) + {#}"
    using cb i by (intro waiting_update) auto
  then have "waiting (zs_wrappers w) = waiting ((zs_wrappers w)[i := wr]) + mset (called_back effects)" by simp
  then have w: "mset (called_back (zs_effects w @ effects)) + waiting ((zs_wrappers w)[i := wr]) = mset (pushed_callbacks (zs_effects w))"
    unfolding world_invD(4) [OF inv, symmetric] by (simp add: ac_simps)
  show ?thesis
    unfolding world_inv_def
  proof (intro conjI allI impI ballI)
    fix j
    assume "j < length (zs_wrappers (w\<lparr>zs_wrappers := (zs_wrappers w)[i := wr], zs_effects := zs_effects w @ effects\<rparr>))"
    then show "wrapper_inv v (b' = Some j) j
        (zs_wrappers (w\<lparr>zs_wrappers := (zs_wrappers w)[i := wr], zs_effects := zs_effects w @ effects\<rparr>) ! j) (tasks_of j ts')
        (zs_next (w\<lparr>zs_wrappers := (zs_wrappers w)[i := wr], zs_effects := zs_effects w @ effects\<rparr>))
        (pushed_bytes j (zs_effects (w\<lparr>zs_wrappers := (zs_wrappers w)[i := wr], zs_effects := zs_effects w @ effects\<rparr>)))"
      using world_invD(1) [OF inv, of j] wi pe b ts(1) by (cases "j = i") simp_all
  next
    show "ps \<in> set (zs_script (w\<lparr>zs_wrappers := (zs_wrappers w)[i := wr], zs_effects := zs_effects w @ effects\<rparr>)) \<Longrightarrow>
        script_ok (zs_wrappers (w\<lparr>zs_wrappers := (zs_wrappers w)[i := wr], zs_effects := zs_effects w @ effects\<rparr>)) ps" for ps
      using world_invD(3) [OF inv] u by (auto intro: script_ok_update)
  qed (use world_invD(5) [OF inv] ts(2) w pe in auto)
qed

lemma TryTrigger_world:
  assumes inv: "world_inv v (Some i) w ts" and i: "i < length (zs_wrappers w)"
    and tr: "TryTriggerNextTask (zs_wrappers w ! i) = (new, wr)"
  shows "world_inv v None (w\<lparr>zs_wrappers := (zs_wrappers w)[i := wr]\<rparr>) (ts @ new) \<and>
    tasks_left (w\<lparr>zs_wrappers := (zs_wrappers w)[i := wr]\<rparr>) (ts @ new) = tasks_left w ts"
proof -
  have "wrapper_inv v True i (zs_wrappers w ! i) (tasks_of i ts) (zs_next w) (pushed_bytes i (zs_effects w))"
    using world_invD(1) [OF inv i] by simp
  note t = TryTriggerNextTask_inv [OF this tr]
  have "world_inv v None (w\<lparr>zs_wrappers := (zs_wrappers w)[i := wr], zs_effects := zs_effects w @ []\<rparr>) (ts @ new)"
    using t tasks_of_all [of new i] world_invD(2) [OF inv] i by (intro world_inv_replace [OF inv i]) auto
  moreover have "sum_list (map wrapper_tasks ((zs_wrappers w)[i := wr])) + length new = sum_list (map wrapper_tasks (zs_wrappers w)) + 0"
    using t i by (intro wrapper_tasks_update) (auto simp: wrapper_tasks_def)
  ultimately show ?thesis by (simp add: tasks_left_def)
qed

lemma output_left_other:
  assumes "\<forall>t\<in>set ts. zt_parent t \<noteq> i"
  shows "output_left v (w\<lparr>zs_wrappers := (zs_wrappers w)[i := wr]\<rparr>) ts = output_left v w ts"
  using assms unfolding output_left_def by (intro arg_cong [of _ _ sum_list] map_cong refl) auto

lemma zlib_unit_of_work:
  assumes c: "zlib_contract lib v" and inv: "world_inv v None w (t # q)"
  shows "\<exists>t' w'. zlib_OnWorkTick lib t w = Inr (t', w') \<and>
    (if zt_is_done t' \<or> zt_is_error t'
     then \<exists>new w''. zlib_OnDone lib t' w' = Inr (new, w'') \<and> world_inv v None w'' (q @ new) \<and>
       ((w'', q @ new), (w, t # q)) \<in> zlib_order v
     else world_inv v None w' (q @ [t']) \<and> ((w', q @ [t']), (w, t # q)) \<in> zlib_order v)"
proof -
  define i where "i = zt_parent t"
  define wr where "wr = zs_wrappers w ! i"
  have i: "i < length (zs_wrappers w)" using world_invD(2) [OF inv, of t] by (simp add: i_def)
  have wi: "wrapper_inv v False i wr (t # tasks_of i q) (zs_next w) (pushed_bytes i (zs_effects w))"
    using world_invD(1) [OF inv i] by (simp add: wr_def i_def)
  have par: "\<forall>x\<in>set q. zt_parent x < length (zs_wrappers w)" using world_invD(2) [OF inv] by auto
  obtain t' wr' where tick: "ZlibTask_OnWorkTick lib t wr = Inr (t', wr')" and st: "same_task t t'" and
    post: "if zt_is_done t' \<or> zt_is_error t'
     then \<exists>effects wr''. ZlibTask_OnDone lib t' wr' = Inr (effects, wr'') \<and>
       wrapper_inv v True i wr'' (tasks_of i q) (zs_next w) (pushed_bytes i (zs_effects w)) \<and>
       mset (map snd (zw_callback_map wr'')) + mset (called_back effects) = mset (map snd (zw_callback_map wr)) \<and>
       zw_task_queue wr'' = zw_task_queue wr \<and> zw_unzip wr'' = zw_unzip wr \<and> heads wr'' = heads wr \<and>
       (\<forall>e\<in>set effects. \<exists>cb r. e = ZE_callback i cb r)
     else tasks_of i q = [] \<and> \<not> zw_ended wr \<and> wrapper_inv v False i wr' [t'] (zs_next w) (pushed_bytes i (zs_effects w)) \<and>
       same_wrapper wr wr' \<and>
       left v (zw_unzip wr') (zw_stream wr') (zt_flush_mode t') (pending_in wr' t')
         < left v (zw_unzip wr) (zw_stream wr) (zt_flush_mode t) (pending_in wr t)"
    using wrapper_unit [OF wi c] by blast
  define w1 where "w1 = w\<lparr>zs_wrappers := (zs_wrappers w)[i := wr']\<rparr>"
  have t: "zlib_OnWorkTick lib t w = Inr (t', w1)"
    using tick by (simp add: zlib_OnWorkTick_def i_def [symmetric] wr_def [symmetric] w1_def)
  have pt: "zt_parent t' = i" using st by (simp add: same_task_def i_def)
  show ?thesis
  proof (cases "zt_is_done t' \<or> zt_is_error t'")
    case True
    with post obtain effects wr'' where d: "ZlibTask_OnDone lib t' wr' = Inr (effects, wr'')"
      "wrapper_inv v True i wr'' (tasks_of i q) (zs_next w) (pushed_bytes i (zs_effects w))"
      "mset (map snd (zw_callback_map wr'')) + mset (called_back effects) = mset (map snd (zw_callback_map wr))"
      "zw_task_queue wr'' = zw_task_queue wr" "zw_unzip wr'' = zw_unzip wr" "heads wr'' = heads wr"
      "\<forall>e\<in>set effects. \<exists>cb r. e = ZE_callback i cb r" by auto
    define w2 where "w2 = w\<lparr>zs_wrappers := (zs_wrappers w)[i := wr''], zs_effects := zs_effects w @ effects\<rparr>"
    have inv2: "world_inv v (Some i) w2 q"
      unfolding w2_def using d par by (intro world_inv_replace [OF inv i]) (auto simp: i_def wr_def)
    have "sum_list (map wrapper_tasks ((zs_wrappers w)[i := wr''])) + 0 = sum_list (map wrapper_tasks (zs_wrappers w)) + 0"
      using d i by (intro wrapper_tasks_update) (auto simp: wrapper_tasks_def wr_def)
    then have left2: "tasks_left w (t # q) = Suc (tasks_left w2 q)" by (simp add: tasks_left_def w2_def)
    obtain new w3 where s: "run_script lib effects w2 = Inr (new, w3)" "world_inv v (Some i) w3 (q @ new)"
      "length (zs_wrappers w3) = length (zs_wrappers w2)" "tasks_left w3 (q @ new) \<le> tasks_left w2 q"
      using run_script_inv [OF inv2 c] by blast
    have i3: "i < length (zs_wrappers w3)" using s(3) i by (simp add: w2_def)
    obtain new' wr4 where tr: "TryTriggerNextTask (zs_wrappers w3 ! i) = (new', wr4)"
      by (cases "TryTriggerNextTask (zs_wrappers w3 ! i)")
    define w4 where "w4 = w3\<lparr>zs_wrappers := (zs_wrappers w3)[i := wr4]\<rparr>"
    note fin = TryTrigger_world [OF s(2) i3 tr, folded w4_def]
    have "w1\<lparr>zs_wrappers := (zs_wrappers w1)[i := wr''], zs_effects := zs_effects w1 @ effects\<rparr> = w2"
      by (simp add: w1_def w2_def)
    then have "zlib_OnDone lib t' w1 = Inr (new @ new', w4)"
      using d(1) s(1) tr i by (simp add: zlib_OnDone_def pt w4_def) (simp add: w1_def)
    moreover have "((w4, q @ new @ new'), (w, t # q)) \<in> zlib_order v"
      using fin left2 s(4) by (simp add: zlib_order_def)
    ultimately show ?thesis using t True fin by simp
  next
    case False
    with post have n: "tasks_of i q = []" "\<not> zw_ended wr"
      "wrapper_inv v False i wr' [t'] (zs_next w) (pushed_bytes i (zs_effects w))" "same_wrapper wr wr'"
      "left v (zw_unzip wr') (zw_stream wr') (zt_flush_mode t') (pending_in wr' t')
         < left v (zw_unzip wr) (zw_stream wr) (zt_flush_mode t) (pending_in wr t)" by auto
    have "world_inv v None (w\<lparr>zs_wrappers := (zs_wrappers w)[i := wr'], zs_effects := zs_effects w @ []\<rparr>) (q @ [t'])"
      using n par i pt by (intro world_inv_replace [OF inv i]) (auto simp: i_def wr_def same_wrapper_def)
    then have inv1: "world_inv v None w1 (q @ [t'])" by (simp add: w1_def)
    have "sum_list (map wrapper_tasks ((zs_wrappers w)[i := wr'])) + 0 = sum_list (map wrapper_tasks (zs_wrappers w)) + 0"
      using n(4) i by (intro wrapper_tasks_update) (auto simp: wrapper_tasks_def same_wrapper_def heads_def wr_def)
    then have "tasks_left w1 (q @ [t']) = tasks_left w (t # q)" by (simp add: tasks_left_def w1_def)
    moreover have "output_left v w1 (q @ [t']) < output_left v w (t # q)"
    proof -
      have "\<forall>x\<in>set q. zt_parent x \<noteq> i" using n(1) by (auto simp: tasks_of_def filter_empty_conv)
      then have "output_left v w1 q = output_left v w q" unfolding w1_def by (rule output_left_other)
      then show ?thesis using n(2,5) i pt by (simp add: output_left_def Let_def w1_def i_def [symmetric] wr_def [symmetric])
    qed
    ultimately show ?thesis using t False inv1 by (simp add: zlib_order_def)
  qed
qed

interpretation zlib_tasks: macro_task "zlib_methods lib" "\<lambda>w ts. zlib_contract lib v \<and> world_inv v None w ts" "zlib_order v"
  for lib :: "'z zlib" and v :: "'z zview"
proof unfold_locales
  show "wf (zlib_order v)" by (rule zlib_order_wf)
next
  fix w :: "('z, 'a) zworld" and t q
  assume inv: "zlib_contract lib v \<and> world_inv v None w (t # q)"
  show "\<exists>t' w'. OnWorkTick (zlib_methods lib) t w = Inr (t', w') \<and>
      (if is_done (zlib_methods lib) t' \<or> has_error (zlib_methods lib) t'
       then \<exists>new w''. OnDone (zlib_methods lib) t' w' = Inr (new, w'') \<and> (zlib_contract lib v \<and> world_inv v None w'' (q @ new)) \<and>
         ((w'', q @ new), (w, t # q)) \<in> zlib_order v
       else (zlib_contract lib v \<and> world_inv v None w' (q @ [t'])) \<and> ((w', q @ [t']), (w, t # q)) \<in> zlib_order v)"
    using zlib_unit_of_work [of lib v w t q] inv by (simp add: zlib_methods_def inv [THEN conjunct1] cong: if_cong split del: if_split)
qed

section \<open>Every order of events\<close>

text \<open>
  The script creates asynchronous wrappers, pushes, and hands the loop an iteration in
  which its call backs push what \<open>script\<close> says.
\<close>

inductive zlib_step ::
  "'z zlib \<Rightarrow> nat \<Rightarrow> ZlibTask MacroTaskQueue \<times> ('z, 'cb) zworld \<Rightarrow> ZlibTask MacroTaskQueue \<times> ('z, 'cb) zworld \<Rightarrow> bool"
  for lib pagesize where
  new_wrapper:
    "ZlibWrapper_New lib pagesize unzip type False window_bits options = Inr (Inr wr) \<Longrightarrow>
     zlib_step lib pagesize (q, w) (q, w\<lparr>zs_wrappers := zs_wrappers w @ [wr]\<rparr>)"
| push:
    "pa_wrapper p < length (zs_wrappers w) \<Longrightarrow> args_ok (zs_wrappers w ! pa_wrapper p) p \<Longrightarrow>
     ZlibWrapper_Push lib p w = Inr (new, w') \<Longrightarrow> zlib_step lib pagesize (q, w) (fold Enqueue new q, w')"
| iteration:
    "mq_idle_started q \<Longrightarrow> \<forall>ps\<in>set script. script_ok (zs_wrappers w) ps \<Longrightarrow>
     TickMacroTaskQueue (zlib_methods lib) q (w\<lparr>zs_script := script\<rparr>) = Inr (q', w') \<Longrightarrow>
     zlib_step lib pagesize (q, w) (q', w'\<lparr>zs_script := []\<rparr>)"

definition zlib_start :: "int \<Rightarrow> ZlibTask MacroTaskQueue \<times> ('z, 'cb) zworld" where
  "zlib_start max_tick =
     (MacroTaskQueue_Create max_tick, \<lparr>zs_wrappers = [], zs_next = 0, zs_script = [], zs_effects = []\<rparr>)"

definition zlib_inv :: "'z zlib \<Rightarrow> 'z zview \<Rightarrow> nat \<Rightarrow> int \<Rightarrow> ZlibTask MacroTaskQueue \<times> ('z, 'cb) zworld \<Rightarrow> bool" where
  "zlib_inv lib v pagesize max_tick s =
     (zlib_contract lib v \<and> 0 < pagesize \<longrightarrow>
        mq_wf (fst s) \<and> mq_max_tick_per_loop (fst s) = max_tick \<and> zs_script (snd s) = [] \<and>
        world_inv v None (snd s) (mq_queue (fst s)))"

lemma new_wrapper_fresh:
  assumes "ZlibWrapper_New lib pagesize unzip type False window_bits options = Inr (Inr wr)" "0 < pagesize"
  shows "\<not> zw_inited wr" "fresh_inv i wr next []" "zw_callback_map wr = []"
  using assms
  by (auto simp: ZlibWrapper_New_def UnzipWrapper_new_def ZipWrapper_new_def ZlibWrapper_new_def fresh_inv_def fresh_base_def
      base_ok_def heads_def outcome_simps CHECK_int32_def split: if_splits option.splits)

lemma world_inv_new:
  assumes "world_inv v None w ts" "\<not> zw_inited wr" "fresh_inv (length (zs_wrappers w)) wr (zs_next w) []" "zw_callback_map wr = []"
    "zs_script w = []"
  shows "world_inv v None (w\<lparr>zs_wrappers := zs_wrappers w @ [wr]\<rparr>) ts"
proof -
  have "tasks_of (length (zs_wrappers w)) ts = []"
    using world_invD(2) [OF assms(1)] by (fastforce simp: tasks_of_def filter_empty_conv)
  then show ?thesis
    using assms by (auto simp: world_inv_def nth_append less_Suc_eq wrapper_inv_def waiting_def)
qed

lemma world_inv_script:
  "world_inv v b w ts \<Longrightarrow> \<forall>ps\<in>set script. script_ok (zs_wrappers w) ps \<Longrightarrow> world_inv v b (w\<lparr>zs_script := script\<rparr>) ts"
  by (simp add: world_inv_def)

interpretation zlib_sys: invariant_system "\<lambda>s. s = zlib_start max_tick" "zlib_step lib pagesize" "zlib_inv lib v pagesize max_tick"
  for lib :: "'z zlib" and v :: "'z zview" and pagesize max_tick
proof unfold_locales
  fix s :: "ZlibTask MacroTaskQueue \<times> ('z, 'cb) zworld"
  assume "s = zlib_start max_tick"
  then show "zlib_inv lib v pagesize max_tick s"
    by (simp add: zlib_start_def zlib_inv_def world_inv_def waiting_def) (simp add: MacroTaskQueue_Create_def)
next
  fix s t :: "ZlibTask MacroTaskQueue \<times> ('z, 'cb) zworld"
  assume inv: "zlib_inv lib v pagesize max_tick s" and step: "zlib_step lib pagesize s t"
  show "zlib_inv lib v pagesize max_tick t"
    unfolding zlib_inv_def
  proof (intro impI)
    assume c: "zlib_contract lib v \<and> 0 < pagesize"
    with inv have i: "mq_wf (fst s)" "mq_max_tick_per_loop (fst s) = max_tick" "zs_script (snd s) = []"
      "world_inv v None (snd s) (mq_queue (fst s))" by (auto simp: zlib_inv_def)
    show "mq_wf (fst t) \<and> mq_max_tick_per_loop (fst t) = max_tick \<and> zs_script (snd t) = [] \<and>
        world_inv v None (snd t) (mq_queue (fst t))"
      using step
    proof cases
      case (new_wrapper unzip type window_bits options wr q w)
      note f = new_wrapper_fresh [OF new_wrapper(3) c [THEN conjunct2]]
      have "world_inv v None (w\<lparr>zs_wrappers := zs_wrappers w @ [wr]\<rparr>) (mq_queue q)"
        using i new_wrapper by (intro world_inv_new f) auto
      then show ?thesis using i new_wrapper by simp
    next
      case (push p w new w' q)
      obtain "world_inv v None w' (mq_queue q @ new)" "zs_script w' = zs_script w"
        using ZlibWrapper_Push_inv [of v None w "mq_queue q" lib p] push i(4) c by auto
      then show ?thesis using push i by (simp add: mq_wf_Enqueue_all)
    next
      case (iteration q script w q' w')
      have "world_inv v None (w\<lparr>zs_script := script\<rparr>) (mq_queue q)"
        using iteration i(4) by (auto intro: world_inv_script)
      then have "world_inv v None w' (mq_queue q')"
        using zlib_tasks.Tick_progress [of lib v "w\<lparr>zs_script := script\<rparr>" q] iteration c by auto
      then show ?thesis
        using Tick_wf [OF iteration(5)] iteration(1-3) i world_inv_script [of v None w' "mq_queue q'" "[]"] by auto
    qed
  qed
qed

lemma wrapper_inv_idle:
  assumes "wrapper_inv v False i wr [] next pushed"
  shows "zw_callback_map wr = [] \<and> zw_task_queue wr = []"
  using assms by (auto simp: wrapper_inv_def started_inv_def sched_ok_def map_ok_def fresh_inv_def fresh_base_def split: if_splits)

lemma waiting_none: "\<forall>wr\<in>set wrs. zw_callback_map wr = [] \<Longrightarrow> waiting wrs = {#}"
  by (induction wrs) (auto simp: waiting_def)

lemma world_inv_idle:
  assumes "world_inv v None w []"
  shows "mset (called_back (zs_effects w)) = mset (pushed_callbacks (zs_effects w))"
proof -
  have "zw_callback_map wr = []" if "wr \<in> set (zs_wrappers w)" for wr
    using that world_invD(1) [OF assms] wrapper_inv_idle by (fastforce simp: in_set_conv_nth)
  then have "waiting (zs_wrappers w) = {#}" by (simp add: waiting_none)
  then show ?thesis using world_invD(4) [OF assms] by simp
qed



section \<open>A library that behaves as documented\<close>

text \<open>The stored format, for the witnesses: bytes are passed on unchanged.\<close>

datatype stored = Stored_null | Stored bytes bytes

definition stored_call :: "bool \<Rightarrow> stored \<Rightarrow> int \<Rightarrow> bytes \<Rightarrow> nat \<Rightarrow> stored zcall" where
  "stored_call unzip z flush input n =
     (case z of
        Stored_null \<Rightarrow> \<lparr>zc_state = Stored_null, zc_status = Z_STREAM_ERROR, zc_consumed = 0, zc_out = []\<rparr>
      | Stored taken rest \<Rightarrow>
          \<lparr>zc_state = Stored (taken @ input) (drop n (rest @ input)),
           zc_status = (if \<not> unzip \<and> flush = Z_FINISH \<and> length (rest @ input) \<le> n then Z_STREAM_END
                        else if rest @ input = [] then Z_BUF_ERROR else Z_OK),
           zc_consumed = length input, zc_out = take n (rest @ input)\<rparr>)"

definition stored_end :: "stored \<Rightarrow> stored \<times> int" where
  "stored_end z = (Stored_null, if z = Stored_null then Z_STREAM_ERROR else Z_OK)"

definition stored_zlib :: "stored zlib" where
  "stored_zlib =
     \<lparr>z_zero = Stored_null, deflateInit2 = (\<lambda>_ _ _ _. (Stored [] [], Z_OK)), deflate = stored_call False,
      deflateEnd = stored_end, inflateInit2 = (\<lambda>_. (Stored [] [], Z_OK)), inflate = stored_call True,
      inflateEnd = stored_end, z_msg = (\<lambda>_. ''(null)'')\<rparr>"

definition stored_view :: "stored zview" where
  "stored_view =
     \<lparr>live = (\<lambda>_ z. z \<noteq> Stored_null), fed = (\<lambda>z. case z of Stored_null \<Rightarrow> [] | Stored taken _ \<Rightarrow> taken),
      left = (\<lambda>_ z _ input. length input + (case z of Stored_null \<Rightarrow> 0 | Stored _ rest \<Rightarrow> length rest))\<rparr>"

lemma stored_call_ok: "zcall_ok stored_view unzip (stored_call unzip)"
  unfolding zcall_ok_def
proof (intro allI impI)
  fix z flush input n
  assume "live stored_view unzip z"
  then obtain taken rest where z: "z = Stored taken rest" by (cases z) (auto simp: stored_view_def)
  show "let r = stored_call unzip z flush input n
    in live stored_view unzip (zc_state r) \<and> zc_consumed r \<le> length input \<and> length (zc_out r) \<le> n \<and>
      fed stored_view (zc_state r) = fed stored_view z @ take (zc_consumed r) input \<and>
      (zc_out r \<noteq> [] \<longrightarrow> left stored_view unzip (zc_state r) flush (drop (zc_consumed r) input) < left stored_view unzip z flush input) \<and>
      (zc_status r \<in> {Z_OK, Z_BUF_ERROR} \<and> length (zc_out r) < n \<longrightarrow> zc_consumed r = length input) \<and>
      zc_status r \<in> {Z_OK, Z_STREAM_END, Z_NEED_DICT, Z_STREAM_ERROR, Z_DATA_ERROR, Z_MEM_ERROR, Z_BUF_ERROR} \<and>
      (unzip \<and> flush \<noteq> Z_FINISH \<and> 0 < n \<and> length (zc_out r) = n \<longrightarrow> zc_status r \<noteq> Z_BUF_ERROR) \<and>
      (\<not> unzip \<longrightarrow> zc_status r \<noteq> Z_NEED_DICT \<and> (zc_status r = Z_STREAM_END \<longrightarrow> flush = Z_FINISH))"
    by (cases "rest @ input"; auto simp: z stored_call_def stored_view_def Let_def split: if_splits) (cases rest; auto)
qed

lemma stored_contract: "zlib_contract stored_zlib stored_view"
  using stored_call_ok [of True] stored_call_ok [of False]
  by (auto simp: zlib_contract_def zlib_init_def zlib_end_def stored_zlib_def stored_end_def)
    (simp_all add: stored_view_def)

definition example_wrapper :: "(stored, string) ZlibWrapper" where
  "example_wrapper = UnzipWrapper_new stored_zlib 2 1 False 15"

definition example_push :: "string push_args" where
  "example_push = \<lparr>pa_wrapper = 0, pa_buffer = [7, 8, 9], pa_offset = 0, pa_length = 3, pa_flush_mode = Z_NO_FLUSH,
     pa_callback = ''f''\<rparr>"

definition example_task :: ZlibTask where
  "example_task = ZlibTask_new 0 0 True [7, 8, 9] Z_NO_FLUSH"

definition example_zworld :: "(stored, string) zworld" where
  "example_zworld =
     \<lparr>zs_wrappers = [example_wrapper\<lparr>zw_stream := Stored [] [], zw_inited := True, zw_running := True,
        zw_callback_map := [(0, ''f'')]\<rparr>], zs_next = 1, zs_script = [], zs_effects = [ZE_push 0 [7, 8, 9] ''f'']\<rparr>"

definition example_queue :: "ZlibTask MacroTaskQueue" where
  "example_queue = \<lparr>mq_max_tick_per_loop = 5, mq_active = True, mq_idle_started = True, mq_queue = [example_task]\<rparr>"

lemma example_zlib_reachable: "(zlib_step stored_zlib 2)\<^sup>*\<^sup>* (zlib_start 5) (example_queue, example_zworld)"
proof -
  let ?w = "\<lparr>zs_wrappers = [example_wrapper], zs_next = 0, zs_script = [], zs_effects = []\<rparr>"
  have "ZlibWrapper_New stored_zlib 2 True 1 False 15 None = Inr (Inr example_wrapper)"
    by (simp add: ZlibWrapper_New_def example_wrapper_def)
  from zlib_step.new_wrapper [OF this, of "MacroTaskQueue_Create 5" "snd (zlib_start 5)"]
  have 1: "zlib_step stored_zlib 2 (zlib_start 5) (MacroTaskQueue_Create 5, ?w)"
    by (simp add: zlib_start_def)
  have p: "ZlibWrapper_Push stored_zlib example_push ?w = Inr ([example_task], example_zworld)"
    by (simp add: ZlibWrapper_Push_def example_push_def example_wrapper_def UnzipWrapper_new_def ZlibWrapper_new_def
        unzip_push_prologue_def ConvenientArrayBufferStore_def unzip_header_def UnzipWrapper_Init_def stored_zlib_def
        push_async_def example_task_def example_zworld_def ZlibTask_new_def)
  have "zlib_step stored_zlib 2 (MacroTaskQueue_Create 5, ?w) (fold Enqueue [example_task] (MacroTaskQueue_Create 5), example_zworld)"
    by (rule zlib_step.push [OF _ _ p])
      (simp_all add: example_push_def args_ok_def example_wrapper_def UnzipWrapper_new_def ZlibWrapper_new_def)
  moreover have "fold Enqueue [example_task] (MacroTaskQueue_Create 5) = example_queue"
    by (simp add: Enqueue_def MacroTaskQueue_Create_def example_queue_def)
  ultimately show ?thesis using 1 by (metis (no_types) converse_rtranclp_into_rtranclp rtranclp.rtrancl_refl)
qed



section \<open>The format of an \<open>UNZIP\<close> stream\<close>

text \<open>What the first bytes of the whole input decide; \<open>UNZIP\<close> while they do not.\<close>

fun unzip_format :: "bytes \<Rightarrow> int" where
  "unzip_format [] = UnzipType_UNZIP"
| "unzip_format [a] = (if a = 0x1f then UnzipType_UNZIP else UnzipType_INFLATE)"
| "unzip_format (a # b # _) = (if a = 0x1f \<and> b = 0x8b then UnzipType_GUNZIP else UnzipType_INFLATE)"

definition header_state :: "bytes \<Rightarrow> ('z, 'cb) ZlibWrapper \<Rightarrow> bool" where
  "header_state input wr =
     (zw_unzip wr \<and> \<not> zw_is_sync wr \<and> zw_type wr = unzip_format input \<and>
      (input = [] \<longrightarrow> zw_first_two_bytes wr = kNonParsed) \<and> (input = [0x1f] \<longrightarrow> zw_first_two_bytes wr = kFirstParsed))"

lemma unzip_format_append: "unzip_format input \<noteq> 2 \<Longrightarrow> unzip_format (input @ b) = unzip_format input"
  by (cases input rule: unzip_format.cases; cases b) auto

lemma unzip_format_waits: "unzip_format input = 2 \<longleftrightarrow> input = [] \<or> input = [0x1f]"
  by (cases input rule: unzip_format.cases) auto

lemma unzip_header_state:
  assumes "header_state input wr" "zt_input t = b" "b \<noteq> []"
  shows "(\<exists>wr'. unzip_header t wr = Header_known wr' \<and> header_state (input @ b) wr') \<or>
    (\<exists>wr'. unzip_header t wr = Header_wait wr' \<and> header_state (input @ b) wr')"
proof -
  obtain x xs where b: "b = x # xs" using assms(3) by (cases b) auto
  consider "unzip_format input \<noteq> 2" | "input = []" | "input = [0x1f]" using unzip_format_waits by blast
  then show ?thesis
  proof cases
    case 1
    then show ?thesis
      using assms(1) unzip_format_waits [of "input @ b"] unzip_format_append [of input b]
      by (auto simp: unzip_header_def header_state_def)
  next
    case 2
    then show ?thesis
      using assms(1,2) b by (cases xs) (auto simp: unzip_header_def header_state_def unzip_second_byte_def)
  next
    case 3
    then show ?thesis
      using assms(1,2) b by (auto simp: unzip_header_def header_state_def unzip_second_byte_def)
  qed
qed

lemma header_state_cong:
  "zw_unzip wr' = zw_unzip wr \<Longrightarrow> zw_is_sync wr' = zw_is_sync wr \<Longrightarrow> zw_type wr' = zw_type wr \<Longrightarrow>
   zw_first_two_bytes wr' = zw_first_two_bytes wr \<Longrightarrow> header_state input wr' = header_state input wr"
  by (simp add: header_state_def)

lemma unzip_push_header:
  assumes "header_state input wr" "ConvenientArrayBufferStore (pa_buffer p) (pa_offset p) (pa_length p) = Inr b"
  shows "\<exists>wr' new effects ret. unzip_push_prologue lib p n wr (\<lambda>r. r) (\<lambda>t wr. Inr (push_async (pa_callback p) t wr)) =
      Inr (wr', new, effects, ret) \<and> header_state (input @ b) wr'"
proof (cases "b = []")
  case True
  then show ?thesis
    using assms by (auto simp: unzip_push_prologue_def ReturnEmptyResultSyncOrAsync_def ClearTaskCallback_def Let_def header_state_def)
next
  case False
  define t where "t = ZlibTask_new n (pa_wrapper p) True b (pa_flush_mode p)"
  have t: "zt_input t = b" by (simp add: t_def ZlibTask_new_def)
  from unzip_header_state [OF assms(1) t False] show ?thesis
  proof (elim disjE exE conjE)
    fix wr1
    assume h: "unzip_header t wr = Header_known wr1" "header_state (input @ b) wr1"
    obtain ok wr2 where i: "(if zw_inited wr1 then (True, wr1) else UnzipWrapper_Init lib wr1) = (ok, wr2)"
      by (cases "if zw_inited wr1 then (True, wr1) else UnzipWrapper_Init lib wr1")
    have h2: "header_state (input @ b) wr2"
      using i h(2) by (auto simp: UnzipWrapper_Init_def Let_def header_state_def split: if_splits prod.splits)
    show ?thesis
      using False assms(2) h i h2
      by (auto simp: unzip_push_prologue_def t_def [symmetric] push_async_def Let_def header_state_def)
  next
    fix wr1
    assume "unzip_header t wr = Header_wait wr1" "header_state (input @ b) wr1"
    then show ?thesis
      using False assms(2)
      by (auto simp: unzip_push_prologue_def t_def [symmetric] ReturnEmptyResultSyncOrAsync_def ClearTaskCallback_def Let_def header_state_def)
  qed
qed

lemma push_all_header:
  assumes "header_state input (zs_wrappers w ! i)" "i < length (zs_wrappers w)"
    "\<forall>p\<in>set ps. pa_wrapper p = i \<and> pa_offset p + pa_length p \<le> length (pa_buffer p)"
  shows "\<exists>new w'. push_all lib ps w = Inr (new, w') \<and> i < length (zs_wrappers w') \<and>
    header_state (input @ concat (map args_input ps)) (zs_wrappers w' ! i)"
  using assms
proof (induction ps arbitrary: input w)
  case (Cons p ps)
  have p: "pa_wrapper p = i" "ConvenientArrayBufferStore (pa_buffer p) (pa_offset p) (pa_length p) = Inr (args_input p)"
    using Cons.prems(3) by (simp_all add: ConvenientArrayBufferStore_def args_input_def)
  have u: "zw_unzip (zs_wrappers w ! i)" using Cons.prems(1) by (simp add: header_state_def)
  obtain wr' new effects ret where r:
    "unzip_push_prologue lib p (zs_next w) (zs_wrappers w ! i) (\<lambda>r. r) (\<lambda>t wr. Inr (push_async (pa_callback p) t wr)) =
      Inr (wr', new, effects, ret)" "header_state (input @ args_input p) wr'"
    using unzip_push_header [OF Cons.prems(1) p(2)] by blast
  obtain w1 where w1: "ZlibWrapper_Push lib p w = Inr (new, w1)" "zs_wrappers w1 = (zs_wrappers w)[i := wr']"
    using r(1) u by (simp add: ZlibWrapper_Push_def p(1))
  show ?case
    using Cons.IH [of "input @ args_input p" w1] Cons.prems(2,3) r(2) w1 by auto
qed simp

text \<open>
  C21: the format of an \<open>UNZIP\<close> stream does not depend on how the input is cut. Whatever
  the sizes of the pushes, empty ones included, and whether or not the library can be
  initialised, afterwards the wrapper has the format that the first two bytes of all the
  input decide, and no push aborts.
\<close>

theorem unzip_format_any_cut:
  assumes "ZlibWrapper_New lib pagesize True UnzipType_UNZIP False window_bits options = Inr (Inr wr)"
    "\<forall>p\<in>set ps. pa_wrapper p = 0 \<and> pa_offset p + pa_length p \<le> length (pa_buffer p)"
  shows "\<exists>new w'. push_all lib ps \<lparr>zs_wrappers = [wr], zs_next = n, zs_script = [], zs_effects = []\<rparr> = Inr (new, w') \<and>
    zw_type (zs_wrappers w' ! 0) = unzip_format (concat (map args_input ps))"
proof -
  have "header_state [] wr"
    using assms(1) by (auto simp: ZlibWrapper_New_def UnzipWrapper_new_def ZlibWrapper_new_def header_state_def)
  with push_all_header [of "[]" "\<lparr>zs_wrappers = [wr], zs_next = n, zs_script = [], zs_effects = []\<rparr>" 0 ps lib] assms(2)
  show ?thesis by (auto simp: header_state_def)
qed

theorem unzip_format_any_cut_witness:
  "\<exists>new w'. push_all stored_zlib
      [example_push\<lparr>pa_buffer := [0x1f], pa_length := 1\<rparr>, example_push\<lparr>pa_buffer := [0x8b, 8], pa_length := 2\<rparr>]
      \<lparr>zs_wrappers = [UnzipWrapper_new stored_zlib 2 UnzipType_UNZIP False 15], zs_next = 0, zs_script = [], zs_effects = []\<rparr> =
      Inr (new, w') \<and>
    zw_type (zs_wrappers w' ! 0) = UnzipType_GUNZIP"
  using unzip_format_any_cut [of stored_zlib 2 15 None "UnzipWrapper_new stored_zlib 2 UnzipType_UNZIP False 15"
      "[example_push\<lparr>pa_buffer := [0x1f], pa_length := 1\<rparr>, example_push\<lparr>pa_buffer := [0x8b, 8], pa_length := 2\<rparr>]" 0]
  by (simp add: ZlibWrapper_New_def example_push_def args_input_def)

section \<open>Failures\<close>


definition refusing_zlib :: "stored zlib" where
  "refusing_zlib = stored_zlib\<lparr>deflateInit2 := (\<lambda>_ _ _ _. (Stored_null, Z_STREAM_ERROR))\<rparr>"


text \<open>
  C26: \<open>Z_FINISH\<close> on an \<open>Unzip\<close> stream can take the process down. zlib documents that
  \<open>inflate\<close> with \<open>Z_FINISH\<close> returns \<open>Z_BUF_ERROR\<close> when the output does not fit; as soon as
  the output of a push fills the chunk buffer in this way, the unit of work ends in a failed
  check instead of going on with the next chunk.
\<close>

theorem unzip_finish_aborts:
  assumes "\<not> zw_finished wr" "\<not> zw_errored wr" "\<not> zt_prepared t" "zt_flush_mode t = Z_FINISH"
    "zc_status (inflate lib (zw_stream wr) Z_FINISH (zt_input t) (length (zw_chunk wr))) = Z_BUF_ERROR"
    "length (zc_out (inflate lib (zw_stream wr) Z_FINISH (zt_input t) (length (zw_chunk wr)))) = length (zw_chunk wr)"
  shows "UnzipTask_OnWorkTick lib t wr = Inl Check_failed"
  using assms
  by (simp add: UnzipTask_OnWorkTick_def Prepare_def zlib_call_def Let_def finish_tick_def ConcatChunkToResult_def CHECK_def)

definition finishing_zlib :: "stored zlib" where
  "finishing_zlib = stored_zlib\<lparr>inflate := (\<lambda>z flush input n.
     (stored_call True z flush input n)\<lparr>zc_status := (if length input \<le> n then Z_STREAM_END else Z_BUF_ERROR)\<rparr>)\<rparr>"

theorem unzip_finish_aborts_witness:
  "UnzipTask_OnWorkTick finishing_zlib (example_task\<lparr>zt_flush_mode := Z_FINISH\<rparr>) (zs_wrappers example_zworld ! 0) = Inl Check_failed"
  by (rule unzip_finish_aborts)
    (simp_all add: finishing_zlib_def stored_call_def example_zworld_def example_wrapper_def UnzipWrapper_new_def
      ZlibWrapper_new_def example_task_def ZlibTask_new_def stored_zlib_def)

text \<open>
  C27: compressed output that ends with a full chunk is lost. \<open>deflate\<close> reports
  \<open>Z_BUF_ERROR\<close>, which zlib documents as not fatal, when it is called without input and has
  nothing left to write. If the output of a push fills the chunk buffer exactly, the task
  asks for the next chunk, takes that report for a failure, and with it fails the push and
  ends the stream; the script gets an error in place of the bytes that were written.
\<close>

theorem zip_exact_chunk_fails:
  assumes "\<not> zw_finished wr" "\<not> zw_errored wr" "\<not> zw_ended wr" "\<not> zw_unzip wr" "\<not> zt_prepared t" "\<not> zt_is_error t" "\<not> zt_is_done t"
    and chunk: "zw_chunk wr \<noteq> []"
    and first: "deflate lib (zw_stream wr) (zt_flush_mode t) (zt_input t) (length (zw_chunk wr)) =
      \<lparr>zc_state = z1, zc_status = Z_OK, zc_consumed = length (zt_input t), zc_out = out\<rparr>" "length out = length (zw_chunk wr)"
    and second: "deflate lib z1 (zt_flush_mode t) [] (length (zw_chunk wr)) =
      \<lparr>zc_state = z2, zc_status = Z_BUF_ERROR, zc_consumed = 0, zc_out = []\<rparr>"
    and ends: "snd (deflateEnd lib z2) = Z_OK"
  shows "\<exists>t1 wr1 t2 wr2 effects wr3. ZipTask_OnWorkTick lib t wr = Inr (t1, wr1) \<and> \<not> zt_is_done t1 \<and> \<not> zt_is_error t1 \<and>
    zt_out t1 = zt_out t @ out \<and> ZipTask_OnWorkTick lib t1 wr1 = Inr (t2, wr2) \<and> zt_is_error t2 \<and>
    ZlibTask_OnDone lib t2 wr2 = Inr (effects, wr3) \<and> zw_errored wr3 \<and>
    (\<forall>e\<in>set effects. \<exists>cb. e = ZE_callback (zt_parent t) cb (ZErr (zlib_failed ''deflate'' Z_BUF_ERROR (z_msg lib z2))))"
proof -
  define t1 where "t1 = t\<lparr>zt_prepared := True, zt_out := zt_out t @ out\<rparr>"
  define wr1 where "wr1 = wr\<lparr>zw_next_in := [], zw_avail_out := 0, zw_stream := z1, zw_chunk := out\<rparr>"
  have 1: "ZipTask_OnWorkTick lib t wr = Inr (t1, wr1)"
    using assms
    by (simp add: ZipTask_OnWorkTick_def Prepare_def zlib_call_def Let_def finish_tick_def ConcatChunkToResult_def t1_def wr1_def)
  define msg where "msg = zlib_failed ''deflate'' (- 5) (z_msg lib z2)"
  define t2 where "t2 = MacroTask_Fail msg t1"
  define wr2 where "wr2 = wr1\<lparr>zw_avail_out := length out, zw_stream := z2\<rparr>"
  have 2: "ZipTask_OnWorkTick lib t1 wr1 = Inr (t2, wr2)"
    using assms
    by (simp add: ZipTask_OnWorkTick_def zlib_call_def Let_def finish_tick_def t1_def wr1_def t2_def wr2_def msg_def
        zlib_failed_nonempty)
  define wr3 where "wr3 = wr2\<lparr>zw_running := False, zw_errored := True, zw_error := msg, zw_ended := True,
    zw_stream := fst (deflateEnd lib z2)\<rparr>"
  have "OccurError lib msg wr2 = Inr wr3"
    using assms by (simp add: OccurError_def DoZlibEnd_def wr1_def wr2_def wr3_def case_prod_beta)
  then have 3: "ZlibTask_OnDone lib t2 wr2 = Inr (DoTaskCallback (zt_parent t) (zt_id t) (ZErr msg) wr3)"
    using assms(3) by (simp add: ZlibTask_OnDone_def t2_def t1_def wr2_def wr1_def MacroTask_Fail_def)
  obtain effects wr4 where d: "DoTaskCallback (zt_parent t) (zt_id t) (ZErr msg) wr3 = (effects, wr4)"
    by (cases "DoTaskCallback (zt_parent t) (zt_id t) (ZErr msg) wr3")
  then have "zw_errored wr4" "\<forall>e\<in>set effects. \<exists>cb. e = ZE_callback (zt_parent t) cb (ZErr msg)"
    by (auto simp: DoTaskCallback_def ClearTaskCallback_def wr3_def split: option.splits)
  then show ?thesis
    using 1 2 3 d assms(6,7) by (auto simp: t1_def t2_def MacroTask_Fail_def msg_def)
qed

theorem zip_exact_chunk_fails_witness:
  "\<exists>t1 wr1 t2 wr2 effects wr3.
    ZipTask_OnWorkTick stored_zlib (ZlibTask_new 0 0 False [7, 8] Z_NO_FLUSH)
      ((ZlibWrapper_new stored_zlib 2 False 1 False 15 :: (stored, string) ZlibWrapper)\<lparr>zw_stream := Stored [] [], zw_inited := True\<rparr>) =
      Inr (t1, wr1) \<and> \<not> zt_is_done t1 \<and> \<not> zt_is_error t1 \<and> zt_out t1 = [7, 8] \<and>
    ZipTask_OnWorkTick stored_zlib t1 wr1 = Inr (t2, wr2) \<and> zt_is_error t2 \<and>
    ZlibTask_OnDone stored_zlib t2 wr2 = Inr (effects, wr3) \<and> zw_errored wr3 \<and>
    (\<forall>e\<in>set effects. \<exists>cb. e = ZE_callback 0 cb (ZErr (zlib_failed ''deflate'' Z_BUF_ERROR ''(null)'')))"
  using zip_exact_chunk_fails [of "(ZlibWrapper_new stored_zlib 2 False 1 False 15)\<lparr>zw_stream := Stored [] [], zw_inited := True\<rparr>"
      "ZlibTask_new 0 0 False [7, 8] Z_NO_FLUSH" stored_zlib "Stored [7, 8] []" "[7, 8]" "Stored [7, 8] []"]
  by (simp add: stored_zlib_def stored_call_def stored_end_def ZlibWrapper_new_def ZlibTask_new_def)

end
