(* ===== verification/Base64.thy ===== *)
theory Base64
  imports Prelude
begin

text \<open>
  The base64 codec of src/deps/modp_b64: the tables of modp_b64_data.h (little endian), the
  encoder and the decoder with their stores into the destination, and the two functions on
  \<open>std::string\<close>. The specification is RFC 4648: groups of three bytes as four digits of a
  64-letter alphabet, padded with \<open>=\<close>.
\<close>

section \<open>Tables\<close>

definition e0 :: bytes where
  "e0 = map (of_nat \<circ> of_char)
    (''AAAABBBBCCCCDDDDEEEEFFFFGGGGHHHHIIIIJJJJKKKKLLLLMMMMNNNNOOOOPPPP'' @
     ''QQQQRRRRSSSSTTTTUUUUVVVVWWWWXXXXYYYYZZZZaaaabbbbccccddddeeeeffff'' @
     ''gggghhhhiiiijjjjkkkkllllmmmmnnnnooooppppqqqqrrrrssssttttuuuuvvvv'' @
     ''wwwwxxxxyyyyzzzz0000111122223333444455556666777788889999++++////'')"

definition e1 :: bytes where
  "e1 = map (of_nat \<circ> of_char)
    (''ABCDEFGHIJKLMNOPQRSTUVWXYZabcdefghijklmnopqrstuvwxyz0123456789+/'' @
     ''ABCDEFGHIJKLMNOPQRSTUVWXYZabcdefghijklmnopqrstuvwxyz0123456789+/'' @
     ''ABCDEFGHIJKLMNOPQRSTUVWXYZabcdefghijklmnopqrstuvwxyz0123456789+/'' @
     ''ABCDEFGHIJKLMNOPQRSTUVWXYZabcdefghijklmnopqrstuvwxyz0123456789+/'')"

definition e2 :: bytes where
  "e2 = map (of_nat \<circ> of_char)
    (''ABCDEFGHIJKLMNOPQRSTUVWXYZabcdefghijklmnopqrstuvwxyz0123456789+/'' @
     ''ABCDEFGHIJKLMNOPQRSTUVWXYZabcdefghijklmnopqrstuvwxyz0123456789+/'' @
     ''ABCDEFGHIJKLMNOPQRSTUVWXYZabcdefghijklmnopqrstuvwxyz0123456789+/'' @
     ''ABCDEFGHIJKLMNOPQRSTUVWXYZabcdefghijklmnopqrstuvwxyz0123456789+/'')"

definition d0 :: "u32 list" where
  "d0 =
    [0x01ffffff, 0x01ffffff, 0x01ffffff, 0x01ffffff, 0x01ffffff, 0x01ffffff, 0x01ffffff, 0x01ffffff,
     0x01ffffff, 0x01ffffff, 0x01ffffff, 0x01ffffff, 0x01ffffff, 0x01ffffff, 0x01ffffff, 0x01ffffff,
     0x01ffffff, 0x01ffffff, 0x01ffffff, 0x01ffffff, 0x01ffffff, 0x01ffffff, 0x01ffffff, 0x01ffffff,
     0x01ffffff, 0x01ffffff, 0x01ffffff, 0x01ffffff, 0x01ffffff, 0x01ffffff, 0x01ffffff, 0x01ffffff,
     0x01ffffff, 0x01ffffff, 0x01ffffff, 0x01ffffff, 0x01ffffff, 0x01ffffff, 0x01ffffff, 0x01ffffff,
     0x01ffffff, 0x01ffffff, 0x01ffffff, 0x000000f8, 0x01ffffff, 0x01ffffff, 0x01ffffff, 0x000000fc,
     0x000000d0, 0x000000d4, 0x000000d8, 0x000000dc, 0x000000e0, 0x000000e4, 0x000000e8, 0x000000ec,
     0x000000f0, 0x000000f4, 0x01ffffff, 0x01ffffff, 0x01ffffff, 0x01ffffff, 0x01ffffff, 0x01ffffff,
     0x01ffffff, 0x00000000, 0x00000004, 0x00000008, 0x0000000c, 0x00000010, 0x00000014, 0x00000018,
     0x0000001c, 0x00000020, 0x00000024, 0x00000028, 0x0000002c, 0x00000030, 0x00000034, 0x00000038,
     0x0000003c, 0x00000040, 0x00000044, 0x00000048, 0x0000004c, 0x00000050, 0x00000054, 0x00000058,
     0x0000005c, 0x00000060, 0x00000064, 0x01ffffff, 0x01ffffff, 0x01ffffff, 0x01ffffff, 0x01ffffff,
     0x01ffffff, 0x00000068, 0x0000006c, 0x00000070, 0x00000074, 0x00000078, 0x0000007c, 0x00000080,
     0x00000084, 0x00000088, 0x0000008c, 0x00000090, 0x00000094, 0x00000098, 0x0000009c, 0x000000a0,
     0x000000a4, 0x000000a8, 0x000000ac, 0x000000b0, 0x000000b4, 0x000000b8, 0x000000bc, 0x000000c0,
     0x000000c4, 0x000000c8, 0x000000cc, 0x01ffffff, 0x01ffffff, 0x01ffffff, 0x01ffffff, 0x01ffffff,
     0x01ffffff, 0x01ffffff, 0x01ffffff, 0x01ffffff, 0x01ffffff, 0x01ffffff, 0x01ffffff, 0x01ffffff,
     0x01ffffff, 0x01ffffff, 0x01ffffff, 0x01ffffff, 0x01ffffff, 0x01ffffff, 0x01ffffff, 0x01ffffff,
     0x01ffffff, 0x01ffffff, 0x01ffffff, 0x01ffffff, 0x01ffffff, 0x01ffffff, 0x01ffffff, 0x01ffffff,
     0x01ffffff, 0x01ffffff, 0x01ffffff, 0x01ffffff, 0x01ffffff, 0x01ffffff, 0x01ffffff, 0x01ffffff,
     0x01ffffff, 0x01ffffff, 0x01ffffff, 0x01ffffff, 0x01ffffff, 0x01ffffff, 0x01ffffff, 0x01ffffff,
     0x01ffffff, 0x01ffffff, 0x01ffffff, 0x01ffffff, 0x01ffffff, 0x01ffffff, 0x01ffffff, 0x01ffffff,
     0x01ffffff, 0x01ffffff, 0x01ffffff, 0x01ffffff, 0x01ffffff, 0x01ffffff, 0x01ffffff, 0x01ffffff,
     0x01ffffff, 0x01ffffff, 0x01ffffff, 0x01ffffff, 0x01ffffff, 0x01ffffff, 0x01ffffff, 0x01ffffff,
     0x01ffffff, 0x01ffffff, 0x01ffffff, 0x01ffffff, 0x01ffffff, 0x01ffffff, 0x01ffffff, 0x01ffffff,
     0x01ffffff, 0x01ffffff, 0x01ffffff, 0x01ffffff, 0x01ffffff, 0x01ffffff, 0x01ffffff, 0x01ffffff,
     0x01ffffff, 0x01ffffff, 0x01ffffff, 0x01ffffff, 0x01ffffff, 0x01ffffff, 0x01ffffff, 0x01ffffff,
     0x01ffffff, 0x01ffffff, 0x01ffffff, 0x01ffffff, 0x01ffffff, 0x01ffffff, 0x01ffffff, 0x01ffffff,
     0x01ffffff, 0x01ffffff, 0x01ffffff, 0x01ffffff, 0x01ffffff, 0x01ffffff, 0x01ffffff, 0x01ffffff,
     0x01ffffff, 0x01ffffff, 0x01ffffff, 0x01ffffff, 0x01ffffff, 0x01ffffff, 0x01ffffff, 0x01ffffff,
     0x01ffffff, 0x01ffffff, 0x01ffffff, 0x01ffffff, 0x01ffffff, 0x01ffffff, 0x01ffffff, 0x01ffffff,
     0x01ffffff, 0x01ffffff, 0x01ffffff, 0x01ffffff, 0x01ffffff, 0x01ffffff, 0x01ffffff, 0x01ffffff]"

definition d1 :: "u32 list" where
  "d1 =
    [0x01ffffff, 0x01ffffff, 0x01ffffff, 0x01ffffff, 0x01ffffff, 0x01ffffff, 0x01ffffff, 0x01ffffff,
     0x01ffffff, 0x01ffffff, 0x01ffffff, 0x01ffffff, 0x01ffffff, 0x01ffffff, 0x01ffffff, 0x01ffffff,
     0x01ffffff, 0x01ffffff, 0x01ffffff, 0x01ffffff, 0x01ffffff, 0x01ffffff, 0x01ffffff, 0x01ffffff,
     0x01ffffff, 0x01ffffff, 0x01ffffff, 0x01ffffff, 0x01ffffff, 0x01ffffff, 0x01ffffff, 0x01ffffff,
     0x01ffffff, 0x01ffffff, 0x01ffffff, 0x01ffffff, 0x01ffffff, 0x01ffffff, 0x01ffffff, 0x01ffffff,
     0x01ffffff, 0x01ffffff, 0x01ffffff, 0x0000e003, 0x01ffffff, 0x01ffffff, 0x01ffffff, 0x0000f003,
     0x00004003, 0x00005003, 0x00006003, 0x00007003, 0x00008003, 0x00009003, 0x0000a003, 0x0000b003,
     0x0000c003, 0x0000d003, 0x01ffffff, 0x01ffffff, 0x01ffffff, 0x01ffffff, 0x01ffffff, 0x01ffffff,
     0x01ffffff, 0x00000000, 0x00001000, 0x00002000, 0x00003000, 0x00004000, 0x00005000, 0x00006000,
     0x00007000, 0x00008000, 0x00009000, 0x0000a000, 0x0000b000, 0x0000c000, 0x0000d000, 0x0000e000,
     0x0000f000, 0x00000001, 0x00001001, 0x00002001, 0x00003001, 0x00004001, 0x00005001, 0x00006001,
     0x00007001, 0x00008001, 0x00009001, 0x01ffffff, 0x01ffffff, 0x01ffffff, 0x01ffffff, 0x01ffffff,
     0x01ffffff, 0x0000a001, 0x0000b001, 0x0000c001, 0x0000d001, 0x0000e001, 0x0000f001, 0x00000002,
     0x00001002, 0x00002002, 0x00003002, 0x00004002, 0x00005002, 0x00006002, 0x00007002, 0x00008002,
     0x00009002, 0x0000a002, 0x0000b002, 0x0000c002, 0x0000d002, 0x0000e002, 0x0000f002, 0x00000003,
     0x00001003, 0x00002003, 0x00003003, 0x01ffffff, 0x01ffffff, 0x01ffffff, 0x01ffffff, 0x01ffffff,
     0x01ffffff, 0x01ffffff, 0x01ffffff, 0x01ffffff, 0x01ffffff, 0x01ffffff, 0x01ffffff, 0x01ffffff,
     0x01ffffff, 0x01ffffff, 0x01ffffff, 0x01ffffff, 0x01ffffff, 0x01ffffff, 0x01ffffff, 0x01ffffff,
     0x01ffffff, 0x01ffffff, 0x01ffffff, 0x01ffffff, 0x01ffffff, 0x01ffffff, 0x01ffffff, 0x01ffffff,
     0x01ffffff, 0x01ffffff, 0x01ffffff, 0x01ffffff, 0x01ffffff, 0x01ffffff, 0x01ffffff, 0x01ffffff,
     0x01ffffff, 0x01ffffff, 0x01ffffff, 0x01ffffff, 0x01ffffff, 0x01ffffff, 0x01ffffff, 0x01ffffff,
     0x01ffffff, 0x01ffffff, 0x01ffffff, 0x01ffffff, 0x01ffffff, 0x01ffffff, 0x01ffffff, 0x01ffffff,
     0x01ffffff, 0x01ffffff, 0x01ffffff, 0x01ffffff, 0x01ffffff, 0x01ffffff, 0x01ffffff, 0x01ffffff,
     0x01ffffff, 0x01ffffff, 0x01ffffff, 0x01ffffff, 0x01ffffff, 0x01ffffff, 0x01ffffff, 0x01ffffff,
     0x01ffffff, 0x01ffffff, 0x01ffffff, 0x01ffffff, 0x01ffffff, 0x01ffffff, 0x01ffffff, 0x01ffffff,
     0x01ffffff, 0x01ffffff, 0x01ffffff, 0x01ffffff, 0x01ffffff, 0x01ffffff, 0x01ffffff, 0x01ffffff,
     0x01ffffff, 0x01ffffff, 0x01ffffff, 0x01ffffff, 0x01ffffff, 0x01ffffff, 0x01ffffff, 0x01ffffff,
     0x01ffffff, 0x01ffffff, 0x01ffffff, 0x01ffffff, 0x01ffffff, 0x01ffffff, 0x01ffffff, 0x01ffffff,
     0x01ffffff, 0x01ffffff, 0x01ffffff, 0x01ffffff, 0x01ffffff, 0x01ffffff, 0x01ffffff, 0x01ffffff,
     0x01ffffff, 0x01ffffff, 0x01ffffff, 0x01ffffff, 0x01ffffff, 0x01ffffff, 0x01ffffff, 0x01ffffff,
     0x01ffffff, 0x01ffffff, 0x01ffffff, 0x01ffffff, 0x01ffffff, 0x01ffffff, 0x01ffffff, 0x01ffffff,
     0x01ffffff, 0x01ffffff, 0x01ffffff, 0x01ffffff, 0x01ffffff, 0x01ffffff, 0x01ffffff, 0x01ffffff]"

definition d2 :: "u32 list" where
  "d2 =
    [0x01ffffff, 0x01ffffff, 0x01ffffff, 0x01ffffff, 0x01ffffff, 0x01ffffff, 0x01ffffff, 0x01ffffff,
     0x01ffffff, 0x01ffffff, 0x01ffffff, 0x01ffffff, 0x01ffffff, 0x01ffffff, 0x01ffffff, 0x01ffffff,
     0x01ffffff, 0x01ffffff, 0x01ffffff, 0x01ffffff, 0x01ffffff, 0x01ffffff, 0x01ffffff, 0x01ffffff,
     0x01ffffff, 0x01ffffff, 0x01ffffff, 0x01ffffff, 0x01ffffff, 0x01ffffff, 0x01ffffff, 0x01ffffff,
     0x01ffffff, 0x01ffffff, 0x01ffffff, 0x01ffffff, 0x01ffffff, 0x01ffffff, 0x01ffffff, 0x01ffffff,
     0x01ffffff, 0x01ffffff, 0x01ffffff, 0x00800f00, 0x01ffffff, 0x01ffffff, 0x01ffffff, 0x00c00f00,
     0x00000d00, 0x00400d00, 0x00800d00, 0x00c00d00, 0x00000e00, 0x00400e00, 0x00800e00, 0x00c00e00,
     0x00000f00, 0x00400f00, 0x01ffffff, 0x01ffffff, 0x01ffffff, 0x01ffffff, 0x01ffffff, 0x01ffffff,
     0x01ffffff, 0x00000000, 0x00400000, 0x00800000, 0x00c00000, 0x00000100, 0x00400100, 0x00800100,
     0x00c00100, 0x00000200, 0x00400200, 0x00800200, 0x00c00200, 0x00000300, 0x00400300, 0x00800300,
     0x00c00300, 0x00000400, 0x00400400, 0x00800400, 0x00c00400, 0x00000500, 0x00400500, 0x00800500,
     0x00c00500, 0x00000600, 0x00400600, 0x01ffffff, 0x01ffffff, 0x01ffffff, 0x01ffffff, 0x01ffffff,
     0x01ffffff, 0x00800600, 0x00c00600, 0x00000700, 0x00400700, 0x00800700, 0x00c00700, 0x00000800,
     0x00400800, 0x00800800, 0x00c00800, 0x00000900, 0x00400900, 0x00800900, 0x00c00900, 0x00000a00,
     0x00400a00, 0x00800a00, 0x00c00a00, 0x00000b00, 0x00400b00, 0x00800b00, 0x00c00b00, 0x00000c00,
     0x00400c00, 0x00800c00, 0x00c00c00, 0x01ffffff, 0x01ffffff, 0x01ffffff, 0x01ffffff, 0x01ffffff,
     0x01ffffff, 0x01ffffff, 0x01ffffff, 0x01ffffff, 0x01ffffff, 0x01ffffff, 0x01ffffff, 0x01ffffff,
     0x01ffffff, 0x01ffffff, 0x01ffffff, 0x01ffffff, 0x01ffffff, 0x01ffffff, 0x01ffffff, 0x01ffffff,
     0x01ffffff, 0x01ffffff, 0x01ffffff, 0x01ffffff, 0x01ffffff, 0x01ffffff, 0x01ffffff, 0x01ffffff,
     0x01ffffff, 0x01ffffff, 0x01ffffff, 0x01ffffff, 0x01ffffff, 0x01ffffff, 0x01ffffff, 0x01ffffff,
     0x01ffffff, 0x01ffffff, 0x01ffffff, 0x01ffffff, 0x01ffffff, 0x01ffffff, 0x01ffffff, 0x01ffffff,
     0x01ffffff, 0x01ffffff, 0x01ffffff, 0x01ffffff, 0x01ffffff, 0x01ffffff, 0x01ffffff, 0x01ffffff,
     0x01ffffff, 0x01ffffff, 0x01ffffff, 0x01ffffff, 0x01ffffff, 0x01ffffff, 0x01ffffff, 0x01ffffff,
     0x01ffffff, 0x01ffffff, 0x01ffffff, 0x01ffffff, 0x01ffffff, 0x01ffffff, 0x01ffffff, 0x01ffffff,
     0x01ffffff, 0x01ffffff, 0x01ffffff, 0x01ffffff, 0x01ffffff, 0x01ffffff, 0x01ffffff, 0x01ffffff,
     0x01ffffff, 0x01ffffff, 0x01ffffff, 0x01ffffff, 0x01ffffff, 0x01ffffff, 0x01ffffff, 0x01ffffff,
     0x01ffffff, 0x01ffffff, 0x01ffffff, 0x01ffffff, 0x01ffffff, 0x01ffffff, 0x01ffffff, 0x01ffffff,
     0x01ffffff, 0x01ffffff, 0x01ffffff, 0x01ffffff, 0x01ffffff, 0x01ffffff, 0x01ffffff, 0x01ffffff,
     0x01ffffff, 0x01ffffff, 0x01ffffff, 0x01ffffff, 0x01ffffff, 0x01ffffff, 0x01ffffff, 0x01ffffff,
     0x01ffffff, 0x01ffffff, 0x01ffffff, 0x01ffffff, 0x01ffffff, 0x01ffffff, 0x01ffffff, 0x01ffffff,
     0x01ffffff, 0x01ffffff, 0x01ffffff, 0x01ffffff, 0x01ffffff, 0x01ffffff, 0x01ffffff, 0x01ffffff,
     0x01ffffff, 0x01ffffff, 0x01ffffff, 0x01ffffff, 0x01ffffff, 0x01ffffff, 0x01ffffff, 0x01ffffff]"

definition d3 :: "u32 list" where
  "d3 =
    [0x01ffffff, 0x01ffffff, 0x01ffffff, 0x01ffffff, 0x01ffffff, 0x01ffffff, 0x01ffffff, 0x01ffffff,
     0x01ffffff, 0x01ffffff, 0x01ffffff, 0x01ffffff, 0x01ffffff, 0x01ffffff, 0x01ffffff, 0x01ffffff,
     0x01ffffff, 0x01ffffff, 0x01ffffff, 0x01ffffff, 0x01ffffff, 0x01ffffff, 0x01ffffff, 0x01ffffff,
     0x01ffffff, 0x01ffffff, 0x01ffffff, 0x01ffffff, 0x01ffffff, 0x01ffffff, 0x01ffffff, 0x01ffffff,
     0x01ffffff, 0x01ffffff, 0x01ffffff, 0x01ffffff, 0x01ffffff, 0x01ffffff, 0x01ffffff, 0x01ffffff,
     0x01ffffff, 0x01ffffff, 0x01ffffff, 0x003e0000, 0x01ffffff, 0x01ffffff, 0x01ffffff, 0x003f0000,
     0x00340000, 0x00350000, 0x00360000, 0x00370000, 0x00380000, 0x00390000, 0x003a0000, 0x003b0000,
     0x003c0000, 0x003d0000, 0x01ffffff, 0x01ffffff, 0x01ffffff, 0x01ffffff, 0x01ffffff, 0x01ffffff,
     0x01ffffff, 0x00000000, 0x00010000, 0x00020000, 0x00030000, 0x00040000, 0x00050000, 0x00060000,
     0x00070000, 0x00080000, 0x00090000, 0x000a0000, 0x000b0000, 0x000c0000, 0x000d0000, 0x000e0000,
     0x000f0000, 0x00100000, 0x00110000, 0x00120000, 0x00130000, 0x00140000, 0x00150000, 0x00160000,
     0x00170000, 0x00180000, 0x00190000, 0x01ffffff, 0x01ffffff, 0x01ffffff, 0x01ffffff, 0x01ffffff,
     0x01ffffff, 0x001a0000, 0x001b0000, 0x001c0000, 0x001d0000, 0x001e0000, 0x001f0000, 0x00200000,
     0x00210000, 0x00220000, 0x00230000, 0x00240000, 0x00250000, 0x00260000, 0x00270000, 0x00280000,
     0x00290000, 0x002a0000, 0x002b0000, 0x002c0000, 0x002d0000, 0x002e0000, 0x002f0000, 0x00300000,
     0x00310000, 0x00320000, 0x00330000, 0x01ffffff, 0x01ffffff, 0x01ffffff, 0x01ffffff, 0x01ffffff,
     0x01ffffff, 0x01ffffff, 0x01ffffff, 0x01ffffff, 0x01ffffff, 0x01ffffff, 0x01ffffff, 0x01ffffff,
     0x01ffffff, 0x01ffffff, 0x01ffffff, 0x01ffffff, 0x01ffffff, 0x01ffffff, 0x01ffffff, 0x01ffffff,
     0x01ffffff, 0x01ffffff, 0x01ffffff, 0x01ffffff, 0x01ffffff, 0x01ffffff, 0x01ffffff, 0x01ffffff,
     0x01ffffff, 0x01ffffff, 0x01ffffff, 0x01ffffff, 0x01ffffff, 0x01ffffff, 0x01ffffff, 0x01ffffff,
     0x01ffffff, 0x01ffffff, 0x01ffffff, 0x01ffffff, 0x01ffffff, 0x01ffffff, 0x01ffffff, 0x01ffffff,
     0x01ffffff, 0x01ffffff, 0x01ffffff, 0x01ffffff, 0x01ffffff, 0x01ffffff, 0x01ffffff, 0x01ffffff,
     0x01ffffff, 0x01ffffff, 0x01ffffff, 0x01ffffff, 0x01ffffff, 0x01ffffff, 0x01ffffff, 0x01ffffff,
     0x01ffffff, 0x01ffffff, 0x01ffffff, 0x01ffffff, 0x01ffffff, 0x01ffffff, 0x01ffffff, 0x01ffffff,
     0x01ffffff, 0x01ffffff, 0x01ffffff, 0x01ffffff, 0x01ffffff, 0x01ffffff, 0x01ffffff, 0x01ffffff,
     0x01ffffff, 0x01ffffff, 0x01ffffff, 0x01ffffff, 0x01ffffff, 0x01ffffff, 0x01ffffff, 0x01ffffff,
     0x01ffffff, 0x01ffffff, 0x01ffffff, 0x01ffffff, 0x01ffffff, 0x01ffffff, 0x01ffffff, 0x01ffffff,
     0x01ffffff, 0x01ffffff, 0x01ffffff, 0x01ffffff, 0x01ffffff, 0x01ffffff, 0x01ffffff, 0x01ffffff,
     0x01ffffff, 0x01ffffff, 0x01ffffff, 0x01ffffff, 0x01ffffff, 0x01ffffff, 0x01ffffff, 0x01ffffff,
     0x01ffffff, 0x01ffffff, 0x01ffffff, 0x01ffffff, 0x01ffffff, 0x01ffffff, 0x01ffffff, 0x01ffffff,
     0x01ffffff, 0x01ffffff, 0x01ffffff, 0x01ffffff, 0x01ffffff, 0x01ffffff, 0x01ffffff, 0x01ffffff,
     0x01ffffff, 0x01ffffff, 0x01ffffff, 0x01ffffff, 0x01ffffff, 0x01ffffff, 0x01ffffff, 0x01ffffff]"

definition CHARPAD :: byte where
  "CHARPAD = 61"

definition BADCHAR :: u32 where
  "BADCHAR = 0x01FFFFFF"

section \<open>Encoder\<close>

text \<open>The two index expressions, after promotion of the bytes to \<open>int\<close>.\<close>

definition index_12 :: "byte \<Rightarrow> byte \<Rightarrow> nat" where
  "index_12 t1 t2 = (push_bit 4 (unat t1 AND 0x03) OR (drop_bit 4 (unat t2) AND 0x0F))"

definition index_23 :: "byte \<Rightarrow> byte \<Rightarrow> nat" where
  "index_23 t2 t3 = (push_bit 2 (unat t2 AND 0x0F) OR (drop_bit 6 (unat t3) AND 0x03))"

function encode_loop :: "bytes \<Rightarrow> nat \<Rightarrow> bytes \<Rightarrow> nat \<Rightarrow> nat \<Rightarrow> (bytes \<times> nat \<times> nat) outcome" where
  "encode_loop dest p str i len =
     (if len > 2 \<and> i < len - 2
      then obind (mem_read str i) (\<lambda>t1. obind (mem_read str (i + 1)) (\<lambda>t2. obind (mem_read str (i + 2)) (\<lambda>t3.
           obind (mem_write dest p [e0 ! unat t1, e1 ! index_12 t1 t2, e1 ! index_23 t2 t3, e2 ! unat t3]) (\<lambda>dest.
           encode_loop dest (p + 4) str (i + 3) len))))
      else Inr (dest, p, i))"
  by pat_completeness auto
termination by (relation "measure (\<lambda>(dest, p, str, i, len). len - i)") auto

declare encode_loop.simps [simp del]

definition modp_b64_encode :: "bytes \<Rightarrow> bytes \<Rightarrow> nat \<Rightarrow> (nat \<times> bytes) outcome" where
  "modp_b64_encode dest str len =
     obind (encode_loop dest 0 str 0 len) (\<lambda>(dest, p, i).
     obind (if len - i = 0 then Inr (dest, p)
            else if len - i = 1
            then obind (mem_read str i) (\<lambda>t1.
              obind (mem_write dest p [e0 ! unat t1, e1 ! push_bit 4 (unat t1 AND 0x03), CHARPAD, CHARPAD]) (\<lambda>dest.
              Inr (dest, p + 4)))
            else obind (mem_read str i) (\<lambda>t1. obind (mem_read str (i + 1)) (\<lambda>t2.
              obind (mem_write dest p [e0 ! unat t1, e1 ! index_12 t1 t2, e2 ! push_bit 2 (unat t2 AND 0x0F), CHARPAD]) (\<lambda>dest.
              Inr (dest, p + 4)))))
       (\<lambda>(dest, p). obind (mem_write dest p [0]) (\<lambda>dest. Inr (p, dest))))"

section \<open>Decoder\<close>

definition byte_at :: "nat \<Rightarrow> u32 \<Rightarrow> byte" where
  "byte_at k x = ucast (drop_bit (8 * k) x)"

text \<open>The loop over the complete chunks: the destination, and the two pointers unless a character was bad.\<close>

fun decode_loop :: "nat \<Rightarrow> bytes \<Rightarrow> nat \<Rightarrow> bytes \<Rightarrow> nat \<Rightarrow> (bytes \<times> (nat \<times> nat) option) outcome" where
  "decode_loop 0 dest p src y = Inr (dest, Some (p, y))"
| "decode_loop (Suc n) dest p src y =
     obind (mem_read src y) (\<lambda>y0. obind (mem_read src (y + 1)) (\<lambda>y1.
     obind (mem_read src (y + 2)) (\<lambda>y2. obind (mem_read src (y + 3)) (\<lambda>y3.
       let x = d0 ! unat y0 OR d1 ! unat y1 OR d2 ! unat y2 OR d3 ! unat y3
       in if x \<ge> BADCHAR then Inr (dest, None)
          else obind (mem_write dest p [byte_at 0 x, byte_at 1 x, byte_at 2 x]) (\<lambda>dest.
               decode_loop n dest (p + 3) src (y + 4))))))"

definition strip_pad :: "bytes \<Rightarrow> nat \<Rightarrow> nat outcome" where
  "strip_pad src len =
     obind (mem_read src (len - 1)) (\<lambda>c.
       if c = CHARPAD
       then obind (mem_read src (len - 1 - 1)) (\<lambda>c. Inr (if c = CHARPAD then len - 1 - 1 else len - 1))
       else Inr len)"

text \<open>The length of the output, \<open>None\<close> for \<open>MODP_B64_ERROR\<close>, and the destination.\<close>

text \<open>The last, possibly incomplete group behind \<open>chunks\<close> complete ones: the code after the loop.\<close>

definition decode_last :: "nat \<Rightarrow> nat \<Rightarrow> bytes \<Rightarrow> nat \<Rightarrow> bytes \<Rightarrow> nat \<Rightarrow> (nat option \<times> bytes) outcome" where
  "decode_last leftover chunks dest p src y =
     (if leftover = 0
      then obind (mem_read src y) (\<lambda>y0. obind (mem_read src (y + 1)) (\<lambda>y1.
           obind (mem_read src (y + 2)) (\<lambda>y2. obind (mem_read src (y + 3)) (\<lambda>y3.
             let x = d0 ! unat y0 OR d1 ! unat y1 OR d2 ! unat y2 OR d3 ! unat y3
             in if x \<ge> BADCHAR then Inr (None, dest)
                else obind (mem_write dest p [byte_at 0 x, byte_at 1 x, byte_at 2 x]) (\<lambda>dest.
                     Inr (Some ((chunks + 1) * 3), dest))))))
      else if leftover = 1
      then obind (mem_read src y) (\<lambda>y0.
             let x = d0 ! unat y0
             in obind (mem_write dest p [byte_at 0 x]) (\<lambda>dest.
                  Inr (if x \<ge> BADCHAR then None else Some (3 * chunks + 6 * leftover div 8), dest)))
      else if leftover = 2
      then obind (mem_read src y) (\<lambda>y0. obind (mem_read src (y + 1)) (\<lambda>y1.
             let x = d0 ! unat y0 OR d1 ! unat y1
             in obind (mem_write dest p [byte_at 0 x]) (\<lambda>dest.
                  Inr (if x \<ge> BADCHAR then None else Some (3 * chunks + 6 * leftover div 8), dest))))
      else obind (mem_read src y) (\<lambda>y0. obind (mem_read src (y + 1)) (\<lambda>y1. obind (mem_read src (y + 2)) (\<lambda>y2.
             let x = d0 ! unat y0 OR d1 ! unat y1 OR d2 ! unat y2
             in obind (mem_write dest p [byte_at 0 x, byte_at 1 x]) (\<lambda>dest.
                  Inr (if x \<ge> BADCHAR then None else Some (3 * chunks + 6 * leftover div 8), dest))))))"

definition modp_b64_decode :: "bytes \<Rightarrow> bytes \<Rightarrow> nat \<Rightarrow> (nat option \<times> bytes) outcome" where
  "modp_b64_decode dest src len =
     (if len = 0 then Inr (Some 0, dest)
      else if len < 4 \<or> len mod 4 \<noteq> 0 then Inr (None, dest)
      else obind (strip_pad src len) (\<lambda>len.
        let leftover = len mod 4;
            chunks = (if leftover = 0 then len div 4 - 1 else len div 4)
        in obind (decode_loop chunks dest 0 src 0) (\<lambda>(dest, r).
             case r of
               None \<Rightarrow> Inr (None, dest)
             | Some (p, y) \<Rightarrow> decode_last leftover chunks dest p src y)))"

definition modp_b64_encode_len :: "nat \<Rightarrow> nat" where
  "modp_b64_encode_len a = (a + 2) div 3 * 4 + 1"

definition modp_b64_decode_len :: "nat \<Rightarrow> nat" where
  "modp_b64_decode_len a = a div 4 * 3 + 2"

definition modp_b64_encode_strlen :: "nat \<Rightarrow> nat" where
  "modp_b64_encode_strlen a = (a + 2) div 3 * 4"

text \<open>The string versions pass the length through \<open>(int)\<close>.\<close>

definition int_cast :: "nat \<Rightarrow> nat" where
  "int_cast n = unat (scast (of_nat n :: u32) :: u64)"

definition modp_b64_encode_string :: "bytes \<Rightarrow> bytes outcome" where
  "modp_b64_encode_string s =
     obind (modp_b64_encode (replicate (modp_b64_encode_len (length s)) 0) s (int_cast (length s))) (\<lambda>(d, x). Inr (take d x))"

definition modp_b64_decode_string :: "bytes \<Rightarrow> bytes outcome" where
  "modp_b64_decode_string s =
     obind (modp_b64_decode (replicate (modp_b64_decode_len (length s)) 0) s (int_cast (length s))) (\<lambda>(d, x).
       case d of None \<Rightarrow> Inr [] | Some d \<Rightarrow> Inr (take d x))"

section \<open>Specification\<close>

definition b64_alphabet :: string where
  "b64_alphabet = ''ABCDEFGHIJKLMNOPQRSTUVWXYZabcdefghijklmnopqrstuvwxyz0123456789+/''"

definition b64_digit :: "nat \<Rightarrow> byte" where
  "b64_digit v = of_nat (of_char (b64_alphabet ! v))"

definition b64_value :: "nat \<Rightarrow> nat option" where
  "b64_value c =
     (if 65 \<le> c \<and> c \<le> 90 then Some (c - 65) else if 97 \<le> c \<and> c \<le> 122 then Some (c - 71)
      else if 48 \<le> c \<and> c \<le> 57 then Some (c + 4) else if c = 43 then Some 62 else if c = 47 then Some 63 else None)"

fun b64 :: "bytes \<Rightarrow> bytes" where
  "b64 [] = []"
| "b64 [a] = [b64_digit (unat a div 4), b64_digit (unat a mod 4 * 16), CHARPAD, CHARPAD]"
| "b64 [a, b] =
     [b64_digit (unat a div 4), b64_digit (unat a mod 4 * 16 + unat b div 16), b64_digit (unat b mod 16 * 4), CHARPAD]"
| "b64 (a # b # c # xs) =
     b64_digit (unat a div 4) # b64_digit (unat a mod 4 * 16 + unat b div 16) #
     b64_digit (unat b mod 16 * 4 + unat c div 64) # b64_digit (unat c mod 64) # b64 xs"

text \<open>The bytes that a sequence of digit values stands for; the last group may have two or three digits.\<close>

fun b64_bytes :: "nat list \<Rightarrow> bytes" where
  "b64_bytes [v0, v1] = [of_nat (v0 * 4 + v1 div 16)]"
| "b64_bytes [v0, v1, v2] = [of_nat (v0 * 4 + v1 div 16), of_nat (v1 mod 16 * 16 + v2 div 4)]"
| "b64_bytes (v0 # v1 # v2 # v3 # vs) =
     of_nat (v0 * 4 + v1 div 16) # of_nat (v1 mod 16 * 16 + v2 div 4) # of_nat (v2 mod 4 * 64 + v3) # b64_bytes vs"
| "b64_bytes vs = []"

definition b64_unpad :: "bytes \<Rightarrow> bytes" where
  "b64_unpad s =
     (if last s = CHARPAD then if last (butlast s) = CHARPAD then butlast (butlast s) else butlast s else s)"

definition b64_decode :: "bytes \<Rightarrow> bytes option" where
  "b64_decode s =
     (if s = [] then Some []
      else if length s mod 4 \<noteq> 0 then None
      else map_option b64_bytes (those (map (\<lambda>c. b64_value (unat c)) (b64_unpad s))))"

section \<open>The tables are the specification's\<close>

lemma upt_256: "[0..<256] = 0 # 1 # [2..<256]"
  by (simp add: upt_conv_Cons numeral_2_eq_2)

lemma e0_table: "e0 = map (\<lambda>i. b64_digit (i div 4)) [0..<256]"
  unfolding e0_def b64_digit_def b64_alphabet_def upt_256 by simp

lemma e1_table: "e1 = map (\<lambda>i. b64_digit (i mod 64)) [0..<256]"
  unfolding e1_def b64_digit_def b64_alphabet_def upt_256 by simp

lemma e2_table: "e2 = map (\<lambda>i. b64_digit (i mod 64)) [0..<256]"
  unfolding e2_def b64_digit_def b64_alphabet_def upt_256 by simp

definition d_table :: "(nat \<Rightarrow> nat) \<Rightarrow> u32 list" where
  "d_table f = map (\<lambda>c. case b64_value c of None \<Rightarrow> BADCHAR | Some v \<Rightarrow> of_nat (f v)) [0..<256]"

lemma d0_table: "d0 = d_table (\<lambda>v. v * 4)"
  unfolding d0_def d_table_def upt_256 by (simp add: b64_value_def BADCHAR_def)

lemma d1_table: "d1 = d_table (\<lambda>v. v div 16 + v mod 16 * 2 ^ 12)"
  unfolding d1_def d_table_def upt_256 by (simp add: b64_value_def BADCHAR_def)

lemma d2_table: "d2 = d_table (\<lambda>v. v div 4 * 2 ^ 8 + v mod 4 * 2 ^ 22)"
  unfolding d2_def d_table_def upt_256 by (simp add: b64_value_def BADCHAR_def)

lemma d3_table: "d3 = d_table (\<lambda>v. v * 2 ^ 16)"
  unfolding d3_def d_table_def upt_256 by (simp add: b64_value_def BADCHAR_def)

lemmas d_tables = d0_table d1_table d2_table d3_table

lemma byte_less: "unat (b :: byte) < 256"
  using unsigned_less [of b] by simp

lemma e_nth:
  "n < 256 \<Longrightarrow> e0 ! n = b64_digit (n div 4)" "n < 256 \<Longrightarrow> e1 ! n = b64_digit (n mod 64)" "n < 256 \<Longrightarrow> e2 ! n = b64_digit (n mod 64)"
  by (simp_all add: e0_table e1_table e2_table)

lemma d_nth: "d_table f ! unat (c :: byte) = (case b64_value (unat c) of None \<Rightarrow> BADCHAR | Some v \<Rightarrow> of_nat (f v))"
  using byte_less [of c] by (simp add: d_table_def)

lemma b64_value_less: "b64_value c = Some v \<Longrightarrow> v < 64"
  by (auto simp: b64_value_def split: if_splits)

section \<open>Bits\<close>

lemma or_low: "b < 2 ^ n \<Longrightarrow> a * 2 ^ n OR b = a * 2 ^ n + (b :: nat)"
proof -
  assume b: "b < 2 ^ n"
  have "push_bit n a + b = push_bit n a OR b"
  proof (rule disjunctive_add)
    fix k
    have "bit b k \<Longrightarrow> k < n"
      using b bit_take_bit_iff [of n b k] take_bit_nat_eq_self [OF b] by simp
    then show "\<not> bit (push_bit n a) k \<or> \<not> bit b k" by (auto simp: bit_push_bit_iff)
  qed
  then show ?thesis by (simp add: push_bit_eq_mult ac_simps)
qed

lemma and_mod: "a AND 0x03 = a mod (4 :: nat)" "a AND 0x0F = a mod (16 :: nat)"
  using take_bit_eq_mask [of 2 a] take_bit_eq_mod [of 2 a] take_bit_eq_mask [of 4 a] take_bit_eq_mod [of 4 a]
  by (simp_all add: mask_eq_exp_minus_1)

lemma index_12: "index_12 t1 t2 = unat t1 mod 4 * 16 + unat t2 div 16"
proof -
  have "unat t2 div 16 < 2 ^ 4" using byte_less [of t2] by simp
  from or_low [OF this, of "unat t1 mod 4"] show ?thesis
    using byte_less [of t2] by (simp add: index_12_def and_mod push_bit_eq_mult drop_bit_eq_div)
qed

lemma index_23: "index_23 t2 t3 = unat t2 mod 16 * 4 + unat t3 div 64"
proof -
  have "unat t3 div 64 < 2 ^ 2" using byte_less [of t3] by simp
  from or_low [OF this, of "unat t2 mod 16"] show ?thesis
    using byte_less [of t3] by (simp add: index_23_def and_mod push_bit_eq_mult drop_bit_eq_div)
qed

lemma e_digits:
  "e0 ! unat t1 = b64_digit (unat t1 div 4)" "e1 ! index_12 t1 t2 = b64_digit (unat t1 mod 4 * 16 + unat t2 div 16)"
  "e1 ! index_23 t1 t2 = b64_digit (unat t1 mod 16 * 4 + unat t2 div 64)" "e2 ! unat t1 = b64_digit (unat t1 mod 64)"
  "e1 ! push_bit 4 (unat t1 AND 0x03) = b64_digit (unat t1 mod 4 * 16)"
  "e2 ! push_bit 2 (unat t1 AND 0x0F) = b64_digit (unat t1 mod 16 * 4)"
proof -
  have 1: "unat t1 mod 4 * 16 + unat t2 div 16 < 64" "unat t1 mod 16 * 4 + unat t2 div 64 < 64"
    using byte_less [of t2] mod_less_divisor [of 4 "unat t1"] mod_less_divisor [of 16 "unat t1"] by linarith+
  then show "e1 ! index_12 t1 t2 = b64_digit (unat t1 mod 4 * 16 + unat t2 div 16)"
    "e1 ! index_23 t1 t2 = b64_digit (unat t1 mod 16 * 4 + unat t2 div 64)"
    by (simp_all add: index_12 index_23 e_nth)
  show "e0 ! unat t1 = b64_digit (unat t1 div 4)" "e2 ! unat t1 = b64_digit (unat t1 mod 64)"
    using byte_less [of t1] by (simp_all add: e_nth)
  have 2: "unat t1 mod 4 * 16 < 64" "unat t1 mod 16 * 4 < 64"
    using mod_less_divisor [of 4 "unat t1"] mod_less_divisor [of 16 "unat t1"] by linarith+
  then show "e1 ! push_bit 4 (unat t1 AND 0x03) = b64_digit (unat t1 mod 4 * 16)"
    "e2 ! push_bit 2 (unat t1 AND 0x0F) = b64_digit (unat t1 mod 16 * 4)"
    by (simp_all add: and_mod push_bit_eq_mult e_nth)
qed

text \<open>One group of the decoder: a bad character makes the word too large, four good ones give the three bytes.\<close>

lemma or_bad: "BADCHAR \<le> x \<or> BADCHAR \<le> y \<Longrightarrow> BADCHAR \<le> x OR y"
  using le_word_or1 [of x y] le_word_or2 [of y x] by (auto simp: or.commute elim: order_trans)

lemma or_badI1: "BADCHAR \<le> x \<Longrightarrow> BADCHAR \<le> x OR y" and or_badI2: "BADCHAR \<le> y \<Longrightarrow> BADCHAR \<le> x OR y"
  by (simp_all add: or_bad)

lemma or_small: "(x :: u32) < 2 ^ 24 \<Longrightarrow> y < 2 ^ 24 \<Longrightarrow> x OR y < 2 ^ 24"
proof -
  assume "x < 2 ^ 24" "y < 2 ^ 24"
  then have "uint x < 2 ^ 24" "uint y < 2 ^ 24" by (simp_all add: word_less_def)
  then have "uint x OR uint y < 2 ^ 24" by (intro OR_upper) simp_all
  then show ?thesis by (simp add: word_less_def uint_or)
qed

lemma unat_byte_at: "unat (byte_at k x) = unat x div 2 ^ (8 * k) mod 256"
proof -
  have "take_bit 32 (unat x) = unat x" using unsigned_less [of x] by (intro take_bit_nat_eq_self) simp
  then show ?thesis
    unfolding byte_at_def unsigned_ucast_eq unsigned_drop_bit_eq by (simp add: take_bit_eq_mod [of 8] drop_bit_eq_div)
qed

lemma unat_byte_or: "unat (byte_at k (x OR y)) = (unat (byte_at k x) OR unat (byte_at k y))"
proof -
  have "byte_at k (x OR y) = (byte_at k x OR byte_at k y)"
    unfolding byte_at_def by (rule bit_word_eqI) (simp add: bit_ucast_iff bit_drop_bit_eq bit_or_iff)
  then show ?thesis by (simp add: unsigned_or_eq)
qed

lemma unat_small: "n < 2 ^ 24 \<Longrightarrow> unat (of_nat n :: u32) = n"
  by (simp add: unat_of_nat take_bit_nat_eq_self)

lemma d_words:
  fixes c :: byte
  assumes "b64_value (unat c) = Some v"
  shows "d0 ! unat c = of_nat (v * 4)" "d1 ! unat c = of_nat (v div 16 + v mod 16 * 2 ^ 12)"
    "d2 ! unat c = of_nat (v div 4 * 2 ^ 8 + v mod 4 * 2 ^ 22)" "d3 ! unat c = of_nat (v * 2 ^ 16)"
  by (simp_all only: d_tables d_nth assms option.case)

lemma value_bounds:
  assumes "v < (64 :: nat)"
  shows "v * 4 < 2 ^ 24" "v div 16 + v mod 16 * 2 ^ 12 < 2 ^ 24" "v div 4 * 2 ^ 8 + v mod 4 * 2 ^ 22 < 2 ^ 24" "v * 2 ^ 16 < 2 ^ 24"
proof -
  have "v mod 16 < 16" "v mod 4 < 4" "v div 16 < 4" "v div 4 < 16" using assms by simp_all
  with assms show "v * 4 < 2 ^ 24" "v div 16 + v mod 16 * 2 ^ 12 < 2 ^ 24" "v div 4 * 2 ^ 8 + v mod 4 * 2 ^ 22 < 2 ^ 24"
    "v * 2 ^ 16 < 2 ^ 24" by simp_all
qed

lemma d_small:
  fixes c :: byte
  assumes "b64_value (unat c) = Some v"
  shows "d0 ! unat c < 2 ^ 24" "d1 ! unat c < 2 ^ 24" "d2 ! unat c < 2 ^ 24" "d3 ! unat c < 2 ^ 24"
proof -
  have "(of_nat n :: u32) < 2 ^ 24" if "n < 2 ^ 24" for n
    using that by (simp add: word_less_nat_alt unat_small)
  then show "d0 ! unat c < 2 ^ 24" "d1 ! unat c < 2 ^ 24" "d2 ! unat c < 2 ^ 24" "d3 ! unat c < 2 ^ 24"
    using value_bounds [OF b64_value_less [OF assms]] unfolding d_words [OF assms] by blast+
qed

lemma three_bytes:
  assumes "a < 256" "b < 256" "c < (256 :: nat)"
  shows "unat (byte_at 0 (of_nat (a + b * 256 + c * 65536))) = a \<and> unat (byte_at 1 (of_nat (a + b * 256 + c * 65536))) = b \<and>
    unat (byte_at 2 (of_nat (a + b * 256 + c * 65536))) = c"
proof -
  define n where "n = a + b * 256 + c * 65536"
  have n: "n = a + 256 * (b + 256 * c)" by (simp add: n_def)
  have "n mod 256 = a" using assms(1) unfolding n mod_mult_self2 by simp
  moreover have d: "n div 256 = b + 256 * c" using assms(1) unfolding n by (subst div_mult_self2) simp_all
  moreover have "n div 65536 = c" using assms(2) div_mult2_eq [of n 256 256] by (simp add: d)
  moreover have "unat (of_nat n :: u32) = n" using assms by (intro unat_small) (simp add: n_def)
  ultimately show ?thesis using assms unfolding n_def [symmetric] unat_byte_at by simp
qed

lemma d_bytes:
  fixes c :: byte
  assumes "b64_value (unat c) = Some v"
  shows "unat (byte_at 0 (d0 ! unat c)) = v * 4" "unat (byte_at 1 (d0 ! unat c)) = 0" "unat (byte_at 2 (d0 ! unat c)) = 0"
    "unat (byte_at 0 (d1 ! unat c)) = v div 16" "unat (byte_at 1 (d1 ! unat c)) = v mod 16 * 16" "unat (byte_at 2 (d1 ! unat c)) = 0"
    "unat (byte_at 0 (d2 ! unat c)) = 0" "unat (byte_at 1 (d2 ! unat c)) = v div 4" "unat (byte_at 2 (d2 ! unat c)) = v mod 4 * 64"
    "unat (byte_at 0 (d3 ! unat c)) = 0" "unat (byte_at 1 (d3 ! unat c)) = 0" "unat (byte_at 2 (d3 ! unat c)) = v"
proof -
  have v: "v < 64" by (rule b64_value_less [OF assms])
  have m: "v mod 16 < 16" "v mod 4 < 4" "v div 16 < 4" "v div 4 < 16" using v by simp_all
  have w: "v * 4 = v * 4 + 0 * 256 + 0 * 65536" "v div 16 + v mod 16 * 2 ^ 12 = v div 16 + (v mod 16 * 16) * 256 + 0 * 65536"
    "v div 4 * 2 ^ 8 + v mod 4 * 2 ^ 22 = 0 + (v div 4) * 256 + (v mod 4 * 64) * 65536" "v * 2 ^ 16 = 0 + 0 * 256 + v * 65536"
    by simp_all
  have b: "v * 4 < 256" "v div 16 < 256" "v mod 16 * 16 < 256" "v div 4 < 256" "v mod 4 * 64 < 256" "v < 256" "0 < (256 :: nat)"
    using v m by linarith+
  note t = three_bytes [OF b(1,7,7), folded w(1)] three_bytes [OF b(2,3,7), folded w(2)] three_bytes [OF b(7,4,5), folded w(3)]
    three_bytes [OF b(7,7,6), folded w(4)]
  show "unat (byte_at 0 (d0 ! unat c)) = v * 4" "unat (byte_at 1 (d0 ! unat c)) = 0" "unat (byte_at 2 (d0 ! unat c)) = 0"
    "unat (byte_at 0 (d1 ! unat c)) = v div 16" "unat (byte_at 1 (d1 ! unat c)) = v mod 16 * 16" "unat (byte_at 2 (d1 ! unat c)) = 0"
    "unat (byte_at 0 (d2 ! unat c)) = 0" "unat (byte_at 1 (d2 ! unat c)) = v div 4" "unat (byte_at 2 (d2 ! unat c)) = v mod 4 * 64"
    "unat (byte_at 0 (d3 ! unat c)) = 0" "unat (byte_at 1 (d3 ! unat c)) = 0" "unat (byte_at 2 (d3 ! unat c)) = v"
    unfolding d_words [OF assms] using t by blast+
qed

lemma byte_eqI: "unat (b :: byte) = n \<Longrightarrow> b = of_nat n"
  by (drule sym) simp

lemma group_bad:
  "b64_value (unat (c :: byte)) = None \<Longrightarrow> d0 ! unat c = BADCHAR \<and> d1 ! unat c = BADCHAR \<and> d2 ! unat c = BADCHAR \<and> d3 ! unat c = BADCHAR"
  by (simp add: d_tables d_nth)

lemma small_not_bad: "(x :: u32) < 2 ^ 24 \<Longrightarrow> \<not> BADCHAR \<le> x"
  unfolding BADCHAR_def by (simp add: word_le_nat_alt word_less_nat_alt)

lemma group2:
  fixes y0 y1 :: byte
  defines "x \<equiv> d0 ! unat y0 OR d1 ! unat y1"
  shows "b64_value (unat y0) = Some v0 \<Longrightarrow> b64_value (unat y1) = Some v1 \<Longrightarrow>
      \<not> BADCHAR \<le> x \<and> [byte_at 0 x] = b64_bytes [v0, v1]"
    and "b64_value (unat y0) = None \<or> b64_value (unat y1) = None \<Longrightarrow> BADCHAR \<le> x"
proof -
  assume v: "b64_value (unat y0) = Some v0" "b64_value (unat y1) = Some v1"
  have "v1 div 16 < 2 ^ 2" using b64_value_less [OF v(2)] by simp
  then have "unat (byte_at 0 x) = v0 * 4 + v1 div 16"
    unfolding x_def unat_byte_or d_bytes [OF v(1)] d_bytes [OF v(2)] using or_low [of "v1 div 16" 2 v0] by simp
  then show "\<not> BADCHAR \<le> x \<and> [byte_at 0 x] = b64_bytes [v0, v1]"
    using small_not_bad [OF or_small [OF d_small(1) [OF v(1)] d_small(2) [OF v(2)]]] 
    by (auto simp: x_def dest!: byte_eqI)
next
  assume "b64_value (unat y0) = None \<or> b64_value (unat y1) = None"
  then show "BADCHAR \<le> x" unfolding x_def by (intro or_bad) (auto dest: group_bad)
qed

lemma group3:
  fixes y0 y1 y2 :: byte
  defines "x \<equiv> d0 ! unat y0 OR d1 ! unat y1 OR d2 ! unat y2"
  shows "b64_value (unat y0) = Some v0 \<Longrightarrow> b64_value (unat y1) = Some v1 \<Longrightarrow> b64_value (unat y2) = Some v2 \<Longrightarrow>
      \<not> BADCHAR \<le> x \<and> [byte_at 0 x, byte_at 1 x] = b64_bytes [v0, v1, v2]"
    and "b64_value (unat y0) = None \<or> b64_value (unat y1) = None \<or> b64_value (unat y2) = None \<Longrightarrow> BADCHAR \<le> x"
proof -
  assume v: "b64_value (unat y0) = Some v0" "b64_value (unat y1) = Some v1" "b64_value (unat y2) = Some v2"
  have "v1 div 16 < 2 ^ 2" "v2 div 4 < 2 ^ 4" using b64_value_less [OF v(2)] b64_value_less [OF v(3)] by simp_all
  then have "unat (byte_at 0 x) = v0 * 4 + v1 div 16" "unat (byte_at 1 x) = v1 mod 16 * 16 + v2 div 4"
    unfolding x_def unat_byte_or d_bytes [OF v(1)] d_bytes [OF v(2)] d_bytes [OF v(3)]
    using or_low [of "v1 div 16" 2 v0] or_low [of "v2 div 4" 4 "v1 mod 16"] by simp_all
  moreover have "x < 2 ^ 24" unfolding x_def by (intro or_small d_small) (rule v)+
  ultimately show "\<not> BADCHAR \<le> x \<and> [byte_at 0 x, byte_at 1 x] = b64_bytes [v0, v1, v2]"
    using small_not_bad by (auto dest!: byte_eqI)
next
  assume "b64_value (unat y0) = None \<or> b64_value (unat y1) = None \<or> b64_value (unat y2) = None"
  then show "BADCHAR \<le> x" unfolding x_def by (elim disjE) (simp_all add: or_badI1 or_badI2 group_bad)
qed

lemma group4:
  fixes y0 y1 y2 y3 :: byte
  defines "x \<equiv> d0 ! unat y0 OR d1 ! unat y1 OR d2 ! unat y2 OR d3 ! unat y3"
  shows "b64_value (unat y0) = Some v0 \<Longrightarrow> b64_value (unat y1) = Some v1 \<Longrightarrow> b64_value (unat y2) = Some v2 \<Longrightarrow>
      b64_value (unat y3) = Some v3 \<Longrightarrow> \<not> BADCHAR \<le> x \<and> [byte_at 0 x, byte_at 1 x, byte_at 2 x] = b64_bytes [v0, v1, v2, v3]"
    and "b64_value (unat y0) = None \<or> b64_value (unat y1) = None \<or> b64_value (unat y2) = None \<or> b64_value (unat y3) = None \<Longrightarrow>
      BADCHAR \<le> x"
proof -
  assume v: "b64_value (unat y0) = Some v0" "b64_value (unat y1) = Some v1" "b64_value (unat y2) = Some v2"
    "b64_value (unat y3) = Some v3"
  have "v1 div 16 < 2 ^ 2" "v2 div 4 < 2 ^ 4" "v3 < 2 ^ 6"
    using b64_value_less [OF v(2)] b64_value_less [OF v(3)] b64_value_less [OF v(4)] by simp_all
  then have "unat (byte_at 0 x) = v0 * 4 + v1 div 16" "unat (byte_at 1 x) = v1 mod 16 * 16 + v2 div 4"
    "unat (byte_at 2 x) = v2 mod 4 * 64 + v3"
    unfolding x_def unat_byte_or d_bytes [OF v(1)] d_bytes [OF v(2)] d_bytes [OF v(3)] d_bytes [OF v(4)]
    using or_low [of "v1 div 16" 2 v0] or_low [of "v2 div 4" 4 "v1 mod 16"] or_low [of v3 6 "v2 mod 4"] by simp_all
  moreover have "x < 2 ^ 24" unfolding x_def by (intro or_small d_small) (rule v)+
  ultimately show "\<not> BADCHAR \<le> x \<and> [byte_at 0 x, byte_at 1 x, byte_at 2 x] = b64_bytes [v0, v1, v2, v3]"
    using small_not_bad by (auto dest!: byte_eqI)
next
  assume "b64_value (unat y0) = None \<or> b64_value (unat y1) = None \<or> b64_value (unat y2) = None \<or> b64_value (unat y3) = None"
  then show "BADCHAR \<le> x" unfolding x_def by (elim disjE) (simp_all add: or_badI1 or_badI2 group_bad)
qed

section \<open>The encoder\<close>

lemma b64_length: "length (b64 xs) = modp_b64_encode_strlen (length xs)"
  by (induction xs rule: b64.induct) (simp_all add: modp_b64_encode_strlen_def, presburger)

lemma mem_write_append:
  "p = length pre \<Longrightarrow> length xs \<le> length suf \<Longrightarrow> mem_write (pre @ suf) p xs = Inr (pre @ xs @ drop (length xs) suf)"
  by (simp add: mem_write_def)

lemma mem_read_append: "mem_read (pre @ x # suf) (length pre) = Inr x"
  by (simp add: mem_read_def)

lemma mem_read_Cons [simp]: "mem_read (x # xs) 0 = Inr x" "mem_read (x # xs) (Suc k) = mem_read xs k"
  by (simp_all add: mem_read_def)

lemma obind_assoc: "obind (obind r f) g = obind r (\<lambda>x. obind (f x) g)"
  by (cases r) simp_all

lemma drop_groups: "xs = ys @ zs \<Longrightarrow> length ys = n \<Longrightarrow> mem_read xs (n + k) = mem_read zs k"
  by (auto simp: mem_read_def)

text \<open>The loop writes the digits of the complete groups and leaves at most two bytes.\<close>

lemma encode_loop_spec:
  assumes "length str = i + length xs" "drop i str = xs" "p = length out" "length (b64 xs) \<le> length rest"
  shows "\<exists>out' rest' j. encode_loop (out @ rest) p str i (length str) = Inr (out' @ rest', length out', j) \<and>
    length str - j < 3 \<and> j \<le> length str \<and> out @ b64 xs = out' @ b64 (drop j str) \<and> length (out' @ rest') = length (out @ rest)"
  using assms
proof (induction xs arbitrary: i p out rest rule: b64.induct)
  case 1
  then show ?case
    by (intro exI [of _ out] exI [of _ rest] exI [of _ i]) (auto simp: encode_loop.simps)
next
  case (2 a)
  then show ?case
    by (intro exI [of _ out] exI [of _ rest] exI [of _ i]) (auto simp: encode_loop.simps)
next
  case (3 a b)
  then show ?case
    by (intro exI [of _ out] exI [of _ rest] exI [of _ i]) (auto simp: encode_loop.simps)
next
  case (4 a b c xs)
  define ds where "ds = [b64_digit (unat a div 4), b64_digit (unat a mod 4 * 16 + unat b div 16),
    b64_digit (unat b mod 16 * 4 + unat c div 64), b64_digit (unat c mod 64)]"
  have str: "str = take i str @ a # b # c # xs" using 4(3) by (metis append_take_drop_id)
  have li: "length (take i str) = i" using 4(2) by simp
  have r: "mem_read str i = Inr a" "mem_read str (i + 1) = Inr b" "mem_read str (i + 2) = Inr c"
    using drop_groups [OF str li, of 0] drop_groups [OF str li, of 1] drop_groups [OF str li, of 2] by (simp_all add: mem_read_def)
  have lds: "length ds = 4" by (simp add: ds_def)
  have w: "mem_write (out @ rest) p ds = Inr ((out @ ds) @ drop 4 rest)"
    using mem_write_append [of p out ds rest] 4(4,5) lds by simp
  have pre: "length str = (i + 3) + length xs" "drop (i + 3) str = xs" "p + 4 = length (out @ ds)" "length (b64 xs) \<le> length (drop 4 rest)"
    using arg_cong [OF 4(3), of "drop 3"] 4(2,4,5) by (simp_all add: lds add.commute)
  obtain out' rest' j where l:
    "encode_loop ((out @ ds) @ drop 4 rest) (p + 4) str (i + 3) (length str) = Inr (out' @ rest', length out', j)"
    "length str - j < 3" "j \<le> length str" "(out @ ds) @ b64 xs = out' @ b64 (drop j str)"
    "length (out' @ rest') = length ((out @ ds) @ drop 4 rest)"
    using 4(1) [OF pre] by blast
  have "encode_loop (out @ rest) p str i (length str) = encode_loop ((out @ ds) @ drop 4 rest) (p + 4) str (i + 3) (length str)"
    using 4(2) r w by (subst encode_loop.simps) (simp add: e_digits ds_def)
  moreover have "out @ b64 (a # b # c # xs) = (out @ ds) @ b64 xs" by (simp add: ds_def)
  moreover have "length ((out @ ds) @ drop 4 rest) = length (out @ rest)" using 4(5) lds by simp
  ultimately show ?case using l by metis
qed

lemma modp_b64_encode_spec:
  assumes "modp_b64_encode_len (length str) \<le> length dest"
  shows "\<exists>suf. modp_b64_encode dest str (length str) = Inr (length (b64 str), b64 str @ 0 # suf) \<and>
    length (b64 str @ 0 # suf) = length dest"
proof -
  have cap: "length (b64 str) < length dest"
    using assms by (simp add: b64_length modp_b64_encode_len_def modp_b64_encode_strlen_def)
  obtain out rest j where l: "encode_loop dest 0 str 0 (length str) = Inr (out @ rest, length out, j)"
    "length str - j < 3" "j \<le> length str" "b64 str = out @ b64 (drop j str)" "length (out @ rest) = length dest"
    using encode_loop_spec [of str 0 str 0 "[]" dest] cap by auto
  have str: "str = take j str @ drop j str" and lj: "length (take j str) = j" using l(3) by auto
  have rd: "mem_read str (j + k) = mem_read (drop j str) k" for k by (rule drop_groups [OF str lj])
  have wr: "mem_write (out @ rest) (length out) xs = Inr ((out @ xs) @ drop (length xs) rest)" if "length xs \<le> length rest" for xs
    using mem_write_append [OF refl that, of out] by simp
  have fin: "mem_write ((out @ xs) @ drop (length xs) rest) (length out + length xs) [0] =
      Inr (b64 str @ 0 # drop (Suc (length xs)) rest)" if "b64 (drop j str) = xs" for xs
    using that l(4,5) cap mem_write_append [of "length out + length xs" "out @ xs" "[0]" "drop (length xs) rest"]
    by (simp add: drop_drop)
  have len: "length (b64 (drop j str)) < length rest" using l(4,5) cap by simp
  have ends: "\<exists>suf. obind (mem_write (out @ rest) (length out) xs) (\<lambda>d. obind (mem_write d (length out + 4) [0]) (\<lambda>d. Inr (length out + 4, d))) =
      Inr (length (b64 str), b64 str @ 0 # suf) \<and> length (b64 str @ 0 # suf) = length dest"
    if "b64 (drop j str) = xs" "length xs = 4" for xs
  proof -
    have "length xs < length rest" "length (b64 str) = length out + 4" using that l(4) len by simp_all
    then show ?thesis using wr [of xs] fin [OF that(1)] that(2) l(5) by simp
  qed
  have l3: "length (drop j str) < 3" using l(2) by simp
  consider "drop j str = []" | a where "drop j str = [a]" | a b where "drop j str = [a, b]"
    using l3 by (cases "drop j str" rule: b64.cases) simp_all
  then show ?thesis
  proof cases
    case 1
    then have "j = length str" using l(3) by simp
    then have "modp_b64_encode dest str (length str) = obind (mem_write (out @ rest) (length out) [0]) (\<lambda>d. Inr (length out, d))"
      using l(1) by (simp add: modp_b64_encode_def)
    then show ?thesis using l(4,5) fin [of "[]"] 1 len by (cases rest) simp_all
  next
    case (2 a)
    have j: "length str - j = 1" using arg_cong [OF 2, of length] by simp
    then have nj: "\<not> length str \<le> j" by simp
    have "modp_b64_encode dest str (length str) =
        obind (mem_write (out @ rest) (length out) (b64 [a])) (\<lambda>d. obind (mem_write d (length out + 4) [0]) (\<lambda>d. Inr (length out + 4, d)))"
      unfolding modp_b64_encode_def e_digits using l(1) rd [of 0] j nj 2 by (simp add: obind_assoc)
    then show ?thesis by (simp only:) (rule ends, simp_all add: 2)
  next
    case (3 a b)
    have j: "length str - j = 2" using arg_cong [OF 3, of length] by simp
    then have nj: "\<not> length str \<le> j" by simp
    have "modp_b64_encode dest str (length str) =
        obind (mem_write (out @ rest) (length out) (b64 [a, b])) (\<lambda>d. obind (mem_write d (length out + 4) [0]) (\<lambda>d. Inr (length out + 4, d)))"
      unfolding modp_b64_encode_def e_digits using l(1) rd [of 0] rd [of 1] j nj 3 by (simp add: obind_assoc)
    then show ?thesis by (simp only:) (rule ends, simp_all add: 3)
  qed
qed

section \<open>The decoder\<close>

definition b64_values :: "bytes \<Rightarrow> nat list option" where
  "b64_values s = those (map (\<lambda>c. b64_value (unat c)) s)"

lemma b64_values_simps [simp]:
  "b64_values [] = Some []"
  "b64_values (c # s) = (case b64_value (unat c) of None \<Rightarrow> None | Some v \<Rightarrow> map_option (Cons v) (b64_values s))"
  by (simp_all add: b64_values_def split: option.split)

lemma b64_values_append:
  "b64_values (s @ t) = (case b64_values s of None \<Rightarrow> None | Some vs \<Rightarrow> map_option ((@) vs) (b64_values t))"
  by (induction s; cases "b64_values t") (auto split: option.splits)

lemma b64_values_length: "b64_values s = Some vs \<Longrightarrow> length vs = length s"
  by (induction s arbitrary: vs) (auto split: option.splits)

lemma four_split:
  assumes "length vs = 4 * Suc n"
  shows "\<exists>v0 v1 v2 v3 us. vs = v0 # v1 # v2 # v3 # us \<and> length us = 4 * n"
proof -
  have "length vs = Suc (Suc (Suc (Suc (4 * n))))" using assms by simp
  then show ?thesis by (auto simp: length_Suc_conv)
qed

lemma b64_bytes_append: "length vs = 4 * n \<Longrightarrow> b64_bytes (vs @ ws) = b64_bytes vs @ b64_bytes ws"
proof (induction n arbitrary: vs)
  case (Suc n)
  then obtain v0 v1 v2 v3 us where vs: "vs = v0 # v1 # v2 # v3 # us" "length us = 4 * n"
    using four_split by blast
  then show ?case using Suc.IH [of us] by simp
qed simp

lemma b64_bytes_length: "length vs = 4 * n \<Longrightarrow> length (b64_bytes vs) = 3 * n"
proof (induction n arbitrary: vs)
  case (Suc n)
  then obtain v0 v1 v2 v3 us where vs: "vs = v0 # v1 # v2 # v3 # us" "length us = 4 * n"
    using four_split by blast
  then show ?case using Suc.IH [of us] by simp
qed simp

text \<open>The loop over complete groups, reading \<open>s\<close> from the middle of the source.\<close>

lemma decode_loop_spec:
  assumes "length s = 4 * n" "length out + 3 * n \<le> length dest" "take (length out) dest = out"
  shows "\<exists>dest' r. decode_loop n dest (length out) (pre @ s @ post) (length pre) = Inr (dest', r) \<and> length dest' = length dest \<and>
    (case b64_values s of
       None \<Rightarrow> r = None
     | Some vs \<Rightarrow> r = Some (length out + 3 * n, length pre + 4 * n) \<and> take (length out + 3 * n) dest' = out @ b64_bytes vs)"
  using assms
proof (induction n arbitrary: s out dest pre)
  case (Suc n)
  then obtain a b c d t where s: "s = a # b # c # d # t" "length t = 4 * n" using four_split by blast
  define src where "src = pre @ s @ post"
  have r: "mem_read src (length pre) = Inr a" "mem_read src (length pre + 1) = Inr b" "mem_read src (length pre + 2) = Inr c"
    "mem_read src (length pre + 3) = Inr d"
    by (simp_all add: src_def s mem_read_def nth_append)
  define x where "x = (d0 ! unat a OR d1 ! unat b OR d2 ! unat c OR d3 ! unat d)"
  define bs where "bs = [byte_at 0 x, byte_at 1 x, byte_at 2 x]"
  have step: "decode_loop (Suc n) dest (length out) src (length pre) =
      (if x \<ge> BADCHAR then Inr (dest, None)
       else obind (mem_write dest (length out) bs) (\<lambda>dest. decode_loop n dest (length out + 3) src (length pre + 4)))"
    by (simp only: decode_loop.simps r obind_Inr Let_def x_def bs_def)
  show ?case
  proof (cases "\<exists>v0 v1 v2 v3. b64_value (unat a) = Some v0 \<and> b64_value (unat b) = Some v1 \<and> b64_value (unat c) = Some v2 \<and>
      b64_value (unat d) = Some v3")
    case True
    then obtain v0 v1 v2 v3 where v: "b64_value (unat a) = Some v0" "b64_value (unat b) = Some v1" "b64_value (unat c) = Some v2"
      "b64_value (unat d) = Some v3" by blast
    have g: "\<not> BADCHAR \<le> x" "bs = b64_bytes [v0, v1, v2, v3]" using group4(1) [OF v] by (simp_all add: x_def bs_def)
    have lb: "length bs = 3" by (simp add: bs_def)
    define dest1 where "dest1 = out @ bs @ drop (length out + 3) dest"
    have w: "mem_write dest (length out) bs = Inr dest1"
      using Suc.prems(2,3) lb by (simp add: mem_write_def dest1_def)
    have ih: "\<exists>dest' r. decode_loop n dest1 (length (out @ bs)) ((pre @ [a, b, c, d]) @ t @ post) (length (pre @ [a, b, c, d])) = Inr (dest', r) \<and>
        length dest' = length dest1 \<and>
        (case b64_values t of
           None \<Rightarrow> r = None
         | Some vs \<Rightarrow> r = Some (length (out @ bs) + 3 * n, length (pre @ [a, b, c, d]) + 4 * n) \<and>
             take (length (out @ bs) + 3 * n) dest' = (out @ bs) @ b64_bytes vs)"
      using s(2) Suc.prems(2) lb by (intro Suc.IH) (simp_all add: dest1_def)
    have e: "(pre @ [a, b, c, d]) @ t @ post = src" by (simp add: src_def s)
    have f: "length (out @ bs) = length out + 3" "length (pre @ [a, b, c, d]) = length pre + 4" "length dest1 = length dest"
      using lb Suc.prems(2) by (simp_all add: dest1_def)
    obtain dest' r where l: "decode_loop n dest1 (length out + 3) src (length pre + 4) = Inr (dest', r)"
      "length dest' = length dest"
      "case b64_values t of None \<Rightarrow> r = None
         | Some vs \<Rightarrow> r = Some (length out + 3 + 3 * n, length pre + 4 + 4 * n) \<and> take (length out + 3 + 3 * n) dest' = (out @ bs) @ b64_bytes vs"
      using ih unfolding e f by blast
    show ?thesis
      unfolding src_def [symmetric] step using g(1) w l v g(2) by (auto simp: s add.assoc split: option.splits)
  next
    case False
    then have n: "b64_value (unat a) = None \<or> b64_value (unat b) = None \<or> b64_value (unat c) = None \<or> b64_value (unat d) = None" by auto
    then have "BADCHAR \<le> x" unfolding x_def by (rule group4(2))
    moreover have "b64_values s = None" using n by (auto simp: s split: option.splits)
    ultimately show ?thesis unfolding src_def [symmetric] step by simp
  qed
qed simp

text \<open>Stripping the padding leaves the unpadded text in front.\<close>

lemma strip_pad_spec:
  assumes "src \<noteq> []" "length src mod 4 = 0"
  shows "\<exists>post. src = b64_unpad src @ post \<and> strip_pad src (length src) = Inr (length (b64_unpad src)) \<and>
    length (b64_unpad src) mod 4 \<noteq> 1 \<and> length src div 4 = (length (b64_unpad src) + 3) div 4 \<and> b64_unpad src \<noteq> []"
proof -
  obtain s1 c where s1: "src = s1 @ [c]" using assms(1) by (metis append_butlast_last_id)
  obtain s2 d where s2: "s1 = s2 @ [d]" using assms(2) s1 by (cases s1 rule: rev_cases) auto
  obtain s3 f where s3: "s2 = s3 @ [f]" using assms(2) s1 s2 by (cases s2 rule: rev_cases) auto
  have r: "mem_read src (length src - 1) = Inr c" "mem_read src (length src - 1 - 1) = Inr d"
    by (simp_all add: mem_read_def s1 s2 nth_append)
  have q: "length src = 4 * (length src div 4)" using assms(2) mult_div_mod_eq [of 4 "length src"] by linarith
  then have "length src div 4 \<noteq> 0" using assms(1) by (metis length_0_conv mult_0_right)
  then obtain j where "length src div 4 = Suc j" by (cases "length src div 4") auto
  with q have j: "length src = 4 * j + 4" by linarith
  have n: "length src mod 4 \<noteq> 1" "(length src - 1) mod 4 \<noteq> 1" "(length src - 1 - 1) mod 4 \<noteq> 1"
    "length src div 4 = (length src + 3) div 4" "length src div 4 = (length src - 1 + 3) div 4" "length src div 4 = (length src - 1 - 1 + 3) div 4"
    unfolding j by (simp_all, presburger+)
  consider "c \<noteq> CHARPAD" | "c = CHARPAD" "d \<noteq> CHARPAD" | "c = CHARPAD" "d = CHARPAD" by blast
  then show ?thesis
  proof cases
    case 1
    then show ?thesis using r n(1,4) by (intro exI [of _ "[]"]) (simp add: strip_pad_def b64_unpad_def s1)
  next
    case 2
    then have u: "b64_unpad src = s1" by (simp add: b64_unpad_def s1 s2 butlast_append)
    show ?thesis unfolding u using 2 r n(2,5) by (intro exI [of _ "[c]"]) (simp add: strip_pad_def s1 s2)
  next
    case 3
    then have u: "b64_unpad src = s2" by (simp add: b64_unpad_def s1 s2 butlast_append)
    show ?thesis unfolding u using 3 r n(3,6) by (intro exI [of _ "[d, c]"]) (simp add: strip_pad_def s1 s2 s3)
  qed
qed

definition decoded :: "bytes \<Rightarrow> bytes \<Rightarrow> (nat option \<times> bytes) outcome \<Rightarrow> bool" where
  "decoded dest src r =
     (\<exists>dest'. r = Inr (map_option length (b64_decode src), dest') \<and> length dest' = length dest \<and>
        (\<forall>out. b64_decode src = Some out \<longrightarrow> take (length out) dest' = out))"

text \<open>The last group, of \<open>k\<close> digits, behind \<open>n\<close> complete ones.\<close>

lemma last_group:
  assumes "b64_values s = Some vs" "length s = 4 * n" "take (3 * n) dest = b64_bytes vs" "3 * n + length bs \<le> length dest"
    "mem_write dest (3 * n) bs = Inr dest'"
  shows "length dest' = length dest" "take (3 * n + length bs) dest' = b64_bytes vs @ bs"
  using assms b64_bytes_length [of vs n] b64_values_length [OF assms(1)] by (auto simp: mem_write_def split: if_splits)

lemma decode_last_spec:
  assumes lo: "leftover = 0 \<and> length t = 4 \<or> leftover = 2 \<and> length t = 2 \<or> leftover = 3 \<and> length t = 3"
    and rd: "\<And>k. k < length t \<Longrightarrow> mem_read src (y + k) = Inr (t ! k)" and cap: "p + 3 \<le> length dest"
  shows "case b64_values t of
      None \<Rightarrow> \<exists>d. decode_last leftover n dest p src y = Inr (None, d) \<and> length d = length dest
    | Some ws \<Rightarrow> length (b64_bytes ws) \<le> 3 \<and> decode_last leftover n dest p src y =
        obind (mem_write dest p (b64_bytes ws)) (\<lambda>d. Inr (Some (3 * n + length (b64_bytes ws)), d))"
proof -
  have w: "\<exists>d. mem_write dest p bs = Inr d \<and> length d = length dest" if "length bs \<le> 3" for bs
    using that cap by (simp add: mem_write_def)
  have c3: "(n + 1) * 3 = Suc (Suc (Suc (3 * n)))" by simp
  from lo show ?thesis
  proof (elim disjE conjE)
    assume lo: "leftover = 0" "length t = 4"
    obtain a b c d where t: "t = [a, b, c, d]" using lo(2) by (auto simp: length_Suc_conv numeral_eq_Suc)
    have r: "mem_read src y = Inr a" "mem_read src (y + 1) = Inr b" "mem_read src (y + 2) = Inr c" "mem_read src (y + 3) = Inr d"
      using rd [of 0] rd [of 1] rd [of 2] rd [of 3] by (simp_all add: t)
    show ?thesis
    proof (cases "b64_value (unat a) = None \<or> b64_value (unat b) = None \<or> b64_value (unat c) = None \<or> b64_value (unat d) = None")
      case True
      then have e: "b64_values t = None" by (auto simp: t split: option.splits)
      show ?thesis
        using group4(2) [OF True] unfolding decode_last_def r e by (simp add: lo(1) Let_def)
    next
      case False
      then obtain v0 v1 v2 v3 where v: "b64_value (unat a) = Some v0" "b64_value (unat b) = Some v1"
        "b64_value (unat c) = Some v2" "b64_value (unat d) = Some v3" by auto
      have e: "b64_values t = Some [v0, v1, v2, v3]" by (simp add: t v)
      show ?thesis
        using group4(1) [OF v] unfolding decode_last_def r e c3 by (simp add: lo(1) r Let_def)
    qed
  next
    assume lo: "leftover = 2" "length t = 2"
    obtain a b where t: "t = [a, b]" using lo(2) by (auto simp: length_Suc_conv numeral_eq_Suc)
    have r: "mem_read src y = Inr a" "mem_read src (y + 1) = Inr b"
      using rd [of 0] rd [of 1] by (simp_all add: t)
    show ?thesis
    proof (cases "b64_value (unat a) = None \<or> b64_value (unat b) = None")
      case True
      then have e: "b64_values t = None" by (auto simp: t split: option.splits)
      obtain d where "mem_write dest p [byte_at 0 (d0 ! unat a OR d1 ! unat b)] = Inr d" "length d = length dest"
        using w [of "[byte_at 0 (d0 ! unat a OR d1 ! unat b)]"] by auto
      then show ?thesis
        using group2(2) [OF True] unfolding decode_last_def r e by (simp add: lo(1) Let_def)
    next
      case False
      then obtain v0 v1 where v: "b64_value (unat a) = Some v0" "b64_value (unat b) = Some v1" by auto
      have e: "b64_values t = Some [v0, v1]" by (simp add: t v)
      show ?thesis
        using group2(1) [OF v] unfolding decode_last_def r e by (simp add: lo(1) r Let_def)
    qed
  next
    assume lo: "leftover = 3" "length t = 3"
    obtain a b c where t: "t = [a, b, c]" using lo(2) by (auto simp: length_Suc_conv numeral_eq_Suc)
    have r: "mem_read src y = Inr a" "mem_read src (y + 1) = Inr b" "mem_read src (y + 2) = Inr c"
      using rd [of 0] rd [of 1] rd [of 2] by (simp_all add: t)
    show ?thesis
    proof (cases "b64_value (unat a) = None \<or> b64_value (unat b) = None \<or> b64_value (unat c) = None")
      case True
      then have e: "b64_values t = None" by (auto simp: t split: option.splits)
      define x where "x = d0 ! unat a OR d1 ! unat b OR d2 ! unat c"
      obtain d where "mem_write dest p [byte_at 0 x, byte_at 1 x] = Inr d" "length d = length dest"
        using w [of "[byte_at 0 x, byte_at 1 x]"] by auto
      then show ?thesis
        using group3(2) [OF True] unfolding decode_last_def r e by (simp add: lo(1) Let_def x_def [symmetric])
    next
      case False
      then obtain v0 v1 v2 where v: "b64_value (unat a) = Some v0" "b64_value (unat b) = Some v1" "b64_value (unat c) = Some v2" by auto
      have e: "b64_values t = Some [v0, v1, v2]" by (simp add: t v)
      show ?thesis
        using group3(1) [OF v] unfolding decode_last_def r e by (simp add: lo(1) r Let_def)
    qed
  qed
qed

lemma modp_b64_decode_spec:
  assumes cap: "modp_b64_decode_len (length src) \<le> length dest"
  shows "decoded dest src (modp_b64_decode dest src (length src))"
proof (cases "src = [] \<or> length src mod 4 \<noteq> 0")
  case True
  then show ?thesis by (auto simp: modp_b64_decode_def decoded_def b64_decode_def)
next
  case False
  define u where "u = b64_unpad src"
  obtain post where src: "src = u @ post" and sp: "strip_pad src (length src) = Inr (length u)"
    and u: "length u mod 4 \<noteq> 1" "length src div 4 = (length u + 3) div 4" "u \<noteq> []"
    using strip_pad_spec [of src] False unfolding u_def by blast
  define n where "n = (if length u mod 4 = 0 then length u div 4 - 1 else length u div 4)"
  define s where "s = take (4 * n) u"
  define t where "t = drop (4 * n) u"
  have lu: "length u = 4 * n + (if length u mod 4 = 0 then 4 else length u mod 4)"
    using u(3) mult_div_mod_eq [of 4 "length u"] by (cases "length u div 4") (auto simp: n_def)
  have len: "length s = 4 * n" "length t = (if length u mod 4 = 0 then 4 else length u mod 4)" "u = s @ t"
    using lu by (auto simp: s_def t_def)
  have src': "s @ t @ post = src" by (simp add: src len(3))
  have cap': "3 * n + 5 \<le> length dest"
  proof -
    have "length src div 4 = n + 1" unfolding u(2) using lu u(1) mod_less_divisor [of 4 "length u"] by (auto split: if_splits)
    then show ?thesis using cap by (simp add: modp_b64_decode_len_def)
  qed
  have dec: "b64_decode src = map_option b64_bytes (b64_values u)" using False by (simp add: b64_decode_def b64_values_def u_def)
  have four: "\<not> length src < 4" using False by (cases "length src < 4") auto
  have fits: "length ([] :: bytes) + 3 * n \<le> length dest" "take (length ([] :: bytes)) dest = []" using cap' by simp_all
  obtain dest1 r where l: "decode_loop n dest 0 src 0 = Inr (dest1, r)" "length dest1 = length dest"
    "case b64_values s of None \<Rightarrow> r = None | Some vs \<Rightarrow> r = Some (3 * n, 4 * n) \<and> take (3 * n) dest1 = b64_bytes vs"
    using decode_loop_spec [OF len(1) fits(1) fits(2), of "[]" "t @ post"] unfolding append_Nil list.size(3) add_0 src' by blast
  have rd: "mem_read src (4 * n + k) = Inr (t ! k)" if "k < length t" for k
    using that len(1) by (simp add: mem_read_def src len(3) nth_append)
  have good: "decoded dest src (obind (mem_write dest1 (3 * n) (b64_bytes ws)) (\<lambda>d. Inr (Some (3 * n + length (b64_bytes ws)), d)))"
    if "b64_values s = Some vs" "b64_values t = Some ws" "length (b64_bytes ws) \<le> 3" for vs ws
  proof -
    note th = that
    obtain dest2 where w: "mem_write dest1 (3 * n) (b64_bytes ws) = Inr dest2"
      using th(3) l(2) cap' by (simp add: mem_write_def)
    have t: "take (3 * n) dest1 = b64_bytes vs" using l(3) th(1) by simp
    have c: "3 * n + length (b64_bytes ws) \<le> length dest1" using th(3) l(2) cap' by simp
    note g = last_group [OF th(1) len(1) t c w]
    have lv: "length vs = 4 * n" using b64_values_length [OF th(1)] len(1) by simp
    have "b64_decode src = Some (b64_bytes vs @ b64_bytes ws)"
      using th lv by (simp add: dec len(3) b64_values_append b64_bytes_append)
    then show ?thesis using w g l(2) b64_bytes_length [OF lv] by (simp add: decoded_def)
  qed
  have bad: "decoded dest src (Inr (None, d))" if "b64_values s = None \<or> b64_values t = None" "length d = length dest" for d
    using that by (auto simp: decoded_def dec len(3) b64_values_append split: option.splits)
  have main: "modp_b64_decode dest src (length src) =
      (case r of None \<Rightarrow> Inr (None, dest1) | Some (p, y) \<Rightarrow> decode_last (length u mod 4) n dest1 p src y)"
    using False four sp l(1) unfolding modp_b64_decode_def by (simp add: n_def [symmetric] Let_def)
  show ?thesis
  proof (cases "b64_values s")
    case None
    then show ?thesis using l(2,3) bad [of dest1] by (simp add: main)
  next
    case (Some vs)
    then have r: "r = Some (3 * n, 4 * n)" using l(3) by simp
    have "length u mod 4 = 0 \<or> length u mod 4 = 2 \<or> length u mod 4 = 3"
      using u(1) mod_less_divisor [of 4 "length u"] by linarith
    then have lo: "length u mod 4 = 0 \<and> length t = 4 \<or> length u mod 4 = 2 \<and> length t = 2 \<or> length u mod 4 = 3 \<and> length t = 3"
      by (elim disjE) (simp_all add: len(2))
    have "3 * n + 3 \<le> length dest1" using cap' l(2) by simp
    from decode_last_spec [OF lo, where n = n, OF rd this] show ?thesis
      using good [OF Some] bad l(2) by (auto simp: main r split: option.splits)
  qed
qed

section \<open>Round trip\<close>

lemma digit_value_table: "map (\<lambda>v. b64_value (unat (b64_digit v))) [0..<64] = map Some [0..<64]"
  unfolding b64_digit_def b64_alphabet_def by (simp add: upt_conv_Cons b64_value_def)

lemma digit_value: "v < 64 \<Longrightarrow> b64_value (unat (b64_digit v)) = Some v"
  using arg_cong [OF digit_value_table, of "\<lambda>xs. xs ! v"] by simp

lemma digit_not_pad: "v < 64 \<Longrightarrow> b64_digit v \<noteq> CHARPAD"
  using digit_value [of v] by (auto simp: CHARPAD_def b64_value_def)

lemma byte_digits:
  "unat (a :: byte) div 4 < 64" "unat a mod 4 * 16 + unat (b :: byte) div 16 < 64" "unat b mod 16 * 4 + unat (c :: byte) div 64 < 64"
  "unat a mod 4 * 16 < 64" "unat a mod 16 * 4 < 64" "unat a mod 64 < 64"
  using byte_less [of a] byte_less [of b] byte_less [of c] by (simp_all add: less_mult_imp_div_less)

lemma digit_join:
  "unat (a :: byte) div 4 * 4 + (unat a mod 4 * 16 + unat (b :: byte) div 16) div 16 = unat a"
  "(unat a mod 4 * 16 + unat b div 16) mod 16 * 16 + (unat b mod 16 * 4 + unat (c :: byte) div 64) div 4 = unat b"
  "(unat b mod 16 * 4 + unat c div 64) mod 4 * 64 + unat c mod 64 = unat c"
  "unat a div 4 * 4 + (unat a mod 4 * 16) div 16 = unat a"
  "(unat a mod 4 * 16 + unat b div 16) mod 16 * 16 + (unat b mod 16 * 4) div 4 = unat b"
proof -
  have d: "unat b div 16 < 16" "unat c div 64 < 4"
    using byte_less [of b] byte_less [of c] by (simp_all add: less_mult_imp_div_less)
  show "unat (a :: byte) div 4 * 4 + (unat a mod 4 * 16 + unat (b :: byte) div 16) div 16 = unat a"
    "(unat a mod 4 * 16 + unat b div 16) mod 16 * 16 + (unat b mod 16 * 4 + unat (c :: byte) div 64) div 4 = unat b"
    "(unat b mod 16 * 4 + unat c div 64) mod 4 * 64 + unat c mod 64 = unat c"
    "unat a div 4 * 4 + (unat a mod 4 * 16) div 16 = unat a"
    "(unat a mod 4 * 16 + unat b div 16) mod 16 * 16 + (unat b mod 16 * 4) div 4 = unat b"
    using d by simp_all
qed

lemma digit_bytes:
  "b64_bytes [unat a div 4, unat a mod 4 * 16] = [a]"
  "b64_bytes [unat a div 4, unat a mod 4 * 16 + unat b div 16, unat b mod 16 * 4] = [a, b]"
  "b64_bytes (unat a div 4 # (unat a mod 4 * 16 + unat b div 16) # (unat b mod 16 * 4 + unat c div 64) # (unat c mod 64) # vs) =
     a # b # c # b64_bytes vs"
  unfolding b64_bytes.simps digit_join by simp_all

text \<open>Without its padding, the encoded text is a list of digits whose values stand for the input.\<close>

lemma b64_digits: "\<exists>vs pad. b64 xs = map b64_digit vs @ replicate pad CHARPAD \<and> (\<forall>v \<in> set vs. v < 64) \<and> b64_bytes vs = xs \<and> pad \<le> 2 \<and> (xs \<noteq> [] \<longrightarrow> 2 \<le> length vs)"
proof (induction xs rule: b64.induct)
  case 1
  show ?case by (intro exI [of _ "[]"] exI [of _ 0]) simp
next
  case (2 a)
  show ?case
    by (intro exI [of _ "[unat a div 4, unat a mod 4 * 16]"] exI [of _ 2]) (simp add: byte_digits digit_bytes numeral_2_eq_2 del: b64_bytes.simps)
next
  case (3 a b)
  show ?case
    by (intro exI [of _ "[unat a div 4, unat a mod 4 * 16 + unat b div 16, unat b mod 16 * 4]"] exI [of _ 1])
      (simp add: byte_digits digit_bytes del: b64_bytes.simps)
next
  case (4 a b c xs)
  then obtain vs pad where ih: "b64 xs = map b64_digit vs @ replicate pad CHARPAD" "\<forall>v \<in> set vs. v < 64" "b64_bytes vs = xs" "pad \<le> 2"
    by blast
  show ?case
    by (intro exI [of _ "unat a div 4 # (unat a mod 4 * 16 + unat b div 16) # (unat b mod 16 * 4 + unat c div 64) # (unat c mod 64) # vs"] exI [of _ pad])
      (simp add: ih byte_digits digit_bytes del: b64_bytes.simps)
qed

lemma b64_values_digits: "\<forall>v \<in> set vs. v < 64 \<Longrightarrow> b64_values (map b64_digit vs) = Some vs"
  by (induction vs) (simp_all add: digit_value)

lemma b64_decode_b64: "b64_decode (b64 xs) = Some xs"
proof (cases "xs = []")
  case False
  obtain vs pad where v: "b64 xs = map b64_digit vs @ replicate pad CHARPAD" "\<forall>v \<in> set vs. v < 64" "b64_bytes vs = xs" "pad \<le> 2" "2 \<le> length vs"
    using b64_digits [of xs] False by blast
  obtain ws w where vs: "vs = ws @ [w]" using v(5) by (cases vs rule: rev_cases) auto
  have w: "b64_digit w \<noteq> CHARPAD" using v(2) by (simp add: vs digit_not_pad)
  have "pad = 0 \<or> pad = 1 \<or> pad = 2" using v(4) by linarith
  then have u: "b64_unpad (b64 xs) = map b64_digit vs"
    unfolding v(1) b64_unpad_def vs using w by (elim disjE) (simp_all add: butlast_append numeral_2_eq_2)
  have "length (b64 xs) mod 4 = 0" by (simp add: b64_length modp_b64_encode_strlen_def)
  moreover have "b64 xs \<noteq> []" using v(1) vs by simp
  ultimately show ?thesis
    using b64_values_digits [OF v(2)] v(3) by (simp add: b64_decode_def u b64_values_def)
qed (simp add: b64_decode_def)

lemma int_cast_small: "n < 2 ^ 31 \<Longrightarrow> int_cast n = n"
  by (simp add: int_cast_def signed_of_nat signed_take_bit_int_eq_self unsigned_of_nat take_bit_nat_eq_self)

section \<open>A destination that is too small\<close>

definition encode_tail :: "bytes \<Rightarrow> nat \<Rightarrow> bytes \<times> nat \<times> nat \<Rightarrow> (nat \<times> bytes) outcome" where
  "encode_tail str len = (\<lambda>(dest, p, i).
     obind (if len - i = 0 then Inr (dest, p)
            else if len - i = 1
            then obind (mem_read str i) (\<lambda>t1.
              obind (mem_write dest p [e0 ! unat t1, e1 ! push_bit 4 (unat t1 AND 0x03), CHARPAD, CHARPAD]) (\<lambda>dest.
              Inr (dest, p + 4)))
            else obind (mem_read str i) (\<lambda>t1. obind (mem_read str (i + 1)) (\<lambda>t2.
              obind (mem_write dest p [e0 ! unat t1, e1 ! index_12 t1 t2, e2 ! push_bit 2 (unat t2 AND 0x0F), CHARPAD]) (\<lambda>dest.
              Inr (dest, p + 4)))))
       (\<lambda>(dest, p). obind (mem_write dest p [0]) (\<lambda>dest. Inr (p, dest))))"

lemma encode_with_tail: "modp_b64_encode dest str len = obind (encode_loop dest 0 str 0 len) (encode_tail str len)"
  unfolding modp_b64_encode_def encode_tail_def ..

lemma encode_loop_done: "length str - i < 3 \<Longrightarrow> encode_loop dest p str i (length str) = Inr (dest, p, i)"
  by (subst encode_loop.simps) auto

lemma encode_overflow_loop:
  assumes "length str = i + length xs" "drop i str = xs" "length dest < p + length (b64 xs) + 1"
  shows "obind (encode_loop dest p str i (length str)) (encode_tail str (length str)) = Inl Out_of_bounds"
  using assms
proof (induction xs arbitrary: i p dest rule: b64.induct)
  case 1
  then have "length str - i = 0" by simp
  with 1 show ?case by (subst encode_loop_done) (simp_all add: encode_tail_def mem_write_def)
next
  case (2 a)
  then have "str = take i str @ [a]" "length (take i str) = i" by (metis append_take_drop_id, simp)
  from drop_groups [OF this, of 0] have "mem_read str i = Inr a" by simp
  moreover have "length str - i = 1" "\<not> length str \<le> i" using 2 by simp_all
  ultimately show ?case
    using 2(3) by (subst encode_loop_done) (auto simp: encode_tail_def mem_write_def)
next
  case (3 a b)
  then have "str = take i str @ [a, b]" "length (take i str) = i" by (metis append_take_drop_id, simp)
  from drop_groups [OF this, of 0] drop_groups [OF this, of 1]
  have "mem_read str i = Inr a" "mem_read str (i + 1) = Inr b" by simp_all
  moreover have "length str - i = 2" "\<not> length str \<le> i" using 3 by simp_all
  ultimately show ?case
    using 3(3) by (subst encode_loop_done) (auto simp: encode_tail_def mem_write_def)
next
  case (4 a b c xs)
  then have "str = take i str @ a # b # c # xs" "length (take i str) = i" by (metis append_take_drop_id, simp)
  from drop_groups [OF this, of 0] drop_groups [OF this, of 1] drop_groups [OF this, of 2]
  have r: "mem_read str i = Inr a" "mem_read str (i + 1) = Inr b" "mem_read str (i + 2) = Inr c" by (simp_all add: mem_read_def)
  have "drop (i + 3) str = xs" "length str = i + 3 + length xs" using arg_cong [OF 4(3), of "drop 3"] 4(2) by (simp_all add: add.commute)
  note ih = 4(1) [OF this(2,1)]
  have lp: "length str > 2 \<and> i < length str - 2" using 4(2) by simp
  show ?case
  proof (cases "p + 4 \<le> length dest")
    case True
    then show ?thesis using 4(4) ih lp r
      by (subst encode_loop.simps) (simp add: mem_write_def)
  next
    case False
    then show ?thesis using lp r by (subst encode_loop.simps) (simp add: mem_write_def)
  qed
qed

lemma encode_overflow:
  "length dest < modp_b64_encode_len (length str) \<Longrightarrow> modp_b64_encode dest str (length str) = Inl Out_of_bounds"
  unfolding encode_with_tail
  by (rule encode_overflow_loop [where xs = str]) (simp_all add: b64_length modp_b64_encode_len_def modp_b64_encode_strlen_def)

section \<open>Properties\<close>


text \<open>
  C28: Given a destination of \<open>modp_b64_decode_len\<close> bytes, the decoder never reads or writes
  outside its buffers, accepts exactly the texts that the reference decoder accepts, and for those returns the
  decoded length with the decoded bytes at the front of the destination.
\<close>

theorem modp_b64_decode_is_base64:
  assumes "modp_b64_decode_len (length src) \<le> length dest"
  shows "\<exists>dest'. modp_b64_decode dest src (length src) = Inr (map_option length (b64_decode src), dest') \<and>
    length dest' = length dest \<and> (\<forall>out. b64_decode src = Some out \<longrightarrow> take (length out) dest' = out)"
  using modp_b64_decode_spec [OF assms] unfolding decoded_def .

theorem modp_b64_decode_is_base64_witness:
  "(\<exists>dest'. modp_b64_decode (replicate 5 0) [81, 85, 73, 61] 4 = Inr (Some 2, dest') \<and> length dest' = 5 \<and> take 2 dest' = [65, 66])
   \<and> (\<exists>dest'. modp_b64_decode (replicate 5 0) [81, 32, 73, 61] 4 = Inr (None, dest'))"
proof -
  have d: "b64_decode [81, 85, 73, 61] = Some [65, 66]" "b64_decode [81, 32, 73, 61] = None"
    by (simp_all add: b64_decode_def b64_unpad_def b64_value_def CHARPAD_def)
  have l: "length [81, 85, 73, 61 :: byte] = 4" "length [81, 32, 73, 61 :: byte] = 4" "length [65, 66 :: byte] = 2"
    "length (replicate 5 (0 :: byte)) = 5" "modp_b64_decode_len 4 \<le> 5"
    by (simp_all add: modp_b64_decode_len_def)
  have "\<exists>dest'. modp_b64_decode (replicate 5 0) [81, 85, 73, 61] 4 = Inr (Some 2, dest') \<and> length dest' = 5 \<and> take 2 dest' = [65, 66]"
    using modp_b64_decode_is_base64 [of "[81, 85, 73, 61]" "replicate 5 0"] l(5) unfolding d l option.map l by (metis l(3))
  moreover have "\<exists>dest'. modp_b64_decode (replicate 5 0) [81, 32, 73, 61] 4 = Inr (None, dest')"
    using modp_b64_decode_is_base64 [of "[81, 32, 73, 61]" "replicate 5 0"] l(5) unfolding d l option.map by blast
  ultimately show ?thesis ..
qed

text \<open>Decoding an encoded string gives the string back, for every string whose encoding is shorter than \<open>2 ^ 31\<close> bytes.\<close>

theorem modp_b64_string_roundtrip:
  assumes "modp_b64_encode_strlen (length s) < 2 ^ 31"
  shows "obind (modp_b64_encode_string s) modp_b64_decode_string = Inr s"
proof -
  have "length s < 2 ^ 31" using assms unfolding modp_b64_encode_strlen_def by linarith
  then have "modp_b64_encode_string s = Inr (b64 s)"
    using modp_b64_encode_spec [of s "replicate (modp_b64_encode_len (length s)) 0"]
    by (auto simp: modp_b64_encode_string_def int_cast_small)
  moreover have "modp_b64_decode_string (b64 s) = Inr s"
    using modp_b64_decode_spec [of "b64 s" "replicate (modp_b64_decode_len (length (b64 s))) 0"] assms
    by (auto simp: modp_b64_decode_string_def int_cast_small b64_length decoded_def b64_decode_b64)
  ultimately show ?thesis by simp
qed

theorem modp_b64_string_roundtrip_witness:
  "obind (modp_b64_encode_string [0, 255, 16, 7]) modp_b64_decode_string = Inr [0, 255, 16, 7]"
  by (rule modp_b64_string_roundtrip) (simp add: modp_b64_encode_strlen_def)

end
