(* ===== verification/Bytes.thy ===== *)
theory Bytes
  imports Base64 ResizableBuffer JsValue
begin

unbundle bit_operations_syntax

text \<open>
  The \<open>bytes\<close> binding, src/src/binding/internal/aworker_bytes.cc: hexadecimal and base64
  encoding of a range of an array buffer, \<open>atob\<close>, \<open>btoa\<close> and the
  conversion to scalar value strings. Sizes that the code keeps in 32 or 64 bits are words.
  \<open>info\<close> is the list of the JavaScript arguments. Whether V8 can make a string of \<open>n\<close>
  bytes is the argument \<open>string_fits\<close>.
\<close>

type_synonym u16 = "16 word"

definition arg :: "jsval list \<Rightarrow> nat \<Rightarrow> jsval" where
  "arg info k = (if k < length info then info ! k else JUndefined)"

definition IsUint32 :: "jsval \<Rightarrow> bool" where
  "IsUint32 v = (case v of JNumber n \<Rightarrow> 0 \<le> n \<and> n < 2 ^ 32 | _ \<Rightarrow> False)"

section \<open>Hexadecimal\<close>

definition hex_chars :: bytes where
  "hex_chars = map (\<lambda>c. of_nat (of_char c)) ''0123456789abcdef''"

text \<open>
  The loop runs on 32-bit counters against a 64-bit length, so that it may run for ever:
  then its value is \<open>None\<close>.
\<close>

partial_function (option) hex_loop :: "bytes \<Rightarrow> u64 \<Rightarrow> bytes \<Rightarrow> u32 \<Rightarrow> u32 \<Rightarrow> bytes outcome option" where
  "hex_loop src dlen dst i k =
     (if ucast k < dlen
      then case obind (mem_read src (unat i)) (\<lambda>val.
             obind (mem_write dst (unat (k + 0)) [hex_chars ! unat (drop_bit 4 val)]) (\<lambda>dst.
             mem_write dst (unat (k + 1)) [hex_chars ! unat (val AND 15)])) of
             Inl e \<Rightarrow> Some (Inl e)
           | Inr dst \<Rightarrow> hex_loop src dlen dst (i + 1) (k + 2)
      else Some (Inr dst))"

definition hex_encode :: "bytes \<Rightarrow> u64 \<Rightarrow> bytes \<Rightarrow> u64 \<Rightarrow> (u64 \<times> bytes) outcome option" where
  "hex_encode src slen dst dlen =
     (if \<not> dlen \<ge> slen * 2 then Some (Inl Check_failed)
      else let dlen = slen * 2
           in map_option (\<lambda>r. obind r (\<lambda>dst. Inr (dlen, dst))) (hex_loop src dlen dst 0 0))"

definition hex_encode_string :: "bytes \<Rightarrow> u64 \<Rightarrow> bytes outcome option" where
  "hex_encode_string src slen =
     (let dlen = slen * 2
      in map_option (\<lambda>r. obind r (\<lambda>(n, dst). Inr dst)) (hex_encode src slen (replicate (unat dlen) 0) dlen))"

definition buffer_range :: "jsval list \<Rightarrow> (bytes \<times> u32 \<times> u32) outcome" where
  "buffer_range info =
     (case arg info 0 of
        JArrayBuffer bs \<Rightarrow>
          obind (CHECK (IsUint32 (arg info 1))) (\<lambda>_. obind (as_Uint32 (arg info 1)) (\<lambda>offset.
          obind (CHECK (IsUint32 (arg info 2))) (\<lambda>_. obind (as_Uint32 (arg info 2)) (\<lambda>byte_length.
          obind (CHECK (unat (offset + byte_length) \<le> length bs)) (\<lambda>_.
          Inr (bs, offset, byte_length))))))
      | _ \<Rightarrow> Inl Check_failed)"

definition BufferEncodeHex :: "jsval list \<Rightarrow> jsval outcome option" where
  "BufferEncodeHex info =
     (case buffer_range info of
        Inl e \<Rightarrow> Some (Inl e)
      | Inr (bs, offset, byte_length) \<Rightarrow>
          let dlen = ucast (byte_length * 2) :: u64;
              dbs = replicate (unat dlen) 0
          in map_option (\<lambda>r. obind r (\<lambda>(n, dbs). Inr (JArrayBuffer dbs)))
               (hex_encode (drop (unat offset) bs) (ucast byte_length) dbs dlen))"

section \<open>Base64\<close>

text \<open>The size macro, expanded on a 32-bit argument.\<close>

definition encode_len_u32 :: "u32 \<Rightarrow> u32" where
  "encode_len_u32 a = (a + 2) div 3 * 4 + 1"

definition BufferEncodeBase64 :: "allocator \<Rightarrow> jsval list \<Rightarrow> jsval outcome" where
  "BufferEncodeBase64 A info =
     obind (buffer_range info) (\<lambda>(bs, offset, byte_length).
       let dlen = unat (encode_len_u32 byte_length)
       in obind (rb_new A dlen) (\<lambda>buf.
          case rb_buf buf of
            None \<Rightarrow> Inl Null_deref
          | Some dest \<Rightarrow>
              obind (modp_b64_encode dest (drop (unat offset) bs) (unat byte_length)) (\<lambda>(n, dest).
              Inr (JArrayBuffer (take (dlen - 1) dest)))))"

datatype native_result = Throw string | Return_text bytes

text \<open>\<open>args\<close> are the UTF-8 texts of the arguments.\<close>

definition AToB :: "allocator \<Rightarrow> (nat \<Rightarrow> bool) \<Rightarrow> bytes list \<Rightarrow> native_result outcome" where
  "AToB A string_fits args =
     (case args of
        [] \<Rightarrow> Inr (Throw ''1 argument required, but only 0 present.'')
      | s # _ \<Rightarrow>
          obind (rb_new A (modp_b64_decode_len (length s) + 1)) (\<lambda>buf.
          case rb_buf buf of
            None \<Rightarrow> Inl Null_deref
          | Some dest \<Rightarrow>
              obind (modp_b64_decode dest s (length s)) (\<lambda>(dest_len, dest).
              case dest_len of
                None \<Rightarrow> Inr (Throw ''The string to be decoded is not correctly encoded.'')
              | Some dest_len \<Rightarrow>
                  obind (CHECK (dest_len \<le> rb_byte_length buf)) (\<lambda>_.
                  obind (CHECK (string_fits dest_len)) (\<lambda>_.
                  Inr (Return_text (take dest_len dest)))))))"

definition BToA :: "allocator \<Rightarrow> (nat \<Rightarrow> bool) \<Rightarrow> bytes list \<Rightarrow> native_result outcome" where
  "BToA A string_fits args =
     (case args of
        [] \<Rightarrow> Inr (Throw ''1 argument required, but only 0 present.'')
      | s # _ \<Rightarrow>
          obind (rb_new A (modp_b64_encode_strlen (length s) + 1)) (\<lambda>buf.
          case rb_buf buf of
            None \<Rightarrow> Inl Null_deref
          | Some dest \<Rightarrow>
              obind (modp_b64_encode dest s (length s)) (\<lambda>(dest_len, dest).
              obind (CHECK (dest_len \<le> rb_byte_length buf)) (\<lambda>_.
              obind (CHECK (string_fits dest_len)) (\<lambda>_.
              Inr (Return_text (take dest_len dest)))))))"

section \<open>Scalar value strings\<close>

definition kUnicodeReplacementCharacter :: u16 where
  "kUnicodeReplacementCharacter = 0xFFFD"

definition IsUnicodeTrail :: "u16 \<Rightarrow> bool" where
  "IsUnicodeTrail ch = (ch AND 0xFC00 = 0xDC00)"

definition IsUnicodeSurrogate :: "u16 \<Rightarrow> bool" where
  "IsUnicodeSurrogate ch = (ch AND 0xF800 = 0xD800)"

definition IsUnicodeSurrogateTrail :: "u16 \<Rightarrow> bool" where
  "IsUnicodeSurrogateTrail ch = (ch AND 0x400 \<noteq> 0)"

function usv_loop :: "u16 list \<Rightarrow> nat \<Rightarrow> nat \<Rightarrow> u16 list outcome" where
  "usv_loop value len i =
     (if i < len
      then obind (mem_read value i) (\<lambda>c.
        if \<not> IsUnicodeSurrogate c then usv_loop value len (i + 1)
        else if IsUnicodeSurrogateTrail c \<or> i = len - 1
        then obind (mem_write value i [kUnicodeReplacementCharacter]) (\<lambda>value. usv_loop value len (i + 1))
        else obind (mem_read value (i + 1)) (\<lambda>d.
          if IsUnicodeTrail d then usv_loop value len (i + 1 + 1)
          else obind (mem_write value i [kUnicodeReplacementCharacter]) (\<lambda>value. usv_loop value len (i + 1))))
      else Inr value)"
  by pat_completeness auto
termination by (relation "measure (\<lambda>(value, len, i). len - i)") auto

declare usv_loop.simps [simp del]

text \<open>The string is its UTF-16 units; the buffer has one unit more than the string, whose contents come from the allocator.\<close>

definition ToUSVString :: "u16 \<Rightarrow> u16 list \<Rightarrow> int \<Rightarrow> u16 list outcome" where
  "ToUSVString fresh v8_string start =
     (let value = v8_string @ [fresh]; len = length v8_string
      in obind (CHECK (start \<ge> 0)) (\<lambda>_.
         obind (usv_loop value len (nat start)) (\<lambda>value. Inr (take len value))))"

section \<open>The conversion to scalar value strings\<close>

text \<open>Surrogates as ranges of code units, and the replacement of those that are not part of a pair, unit by unit.\<close>

definition lead :: "u16 \<Rightarrow> bool" where
  "lead c = (0xD800 \<le> unat c \<and> unat c \<le> 0xDBFF)"

definition trail :: "u16 \<Rightarrow> bool" where
  "trail c = (0xDC00 \<le> unat c \<and> unat c \<le> 0xDFFF)"

definition paired :: "u16 list \<Rightarrow> nat \<Rightarrow> bool" where
  "paired s i = (lead (s ! i) \<and> i + 1 < length s \<and> trail (s ! (i + 1)) \<or> trail (s ! i) \<and> 0 < i \<and> lead (s ! (i - 1)))"

definition scalar_values :: "u16 list \<Rightarrow> u16 list" where
  "scalar_values s = map (\<lambda>i. if (lead (s ! i) \<or> trail (s ! i)) \<and> \<not> paired s i then 0xFFFD else s ! i) [0..<length s]"

lemma unat_hi: "unat (push_bit n (drop_bit n (c :: u16))) = unat c div 2 ^ n * 2 ^ n"
proof -
  have "push_bit n (drop_bit n (unat c)) \<le> unat c" by (simp add: push_bit_eq_mult drop_bit_eq_div)
  moreover have "unat c < 2 ^ 16" using unsigned_less [of c] by simp
  ultimately have "take_bit 16 (push_bit n (drop_bit n (unat c))) = push_bit n (drop_bit n (unat c))"
    by (intro take_bit_nat_eq_self) linarith
  then have "unat (push_bit n (drop_bit n c)) = push_bit n (drop_bit n (unat c))"
    using take_bit_nat_eq_self [OF \<open>unat c < 2 ^ 16\<close>] by (simp only: unsigned_push_bit_eq unsigned_drop_bit_eq) simp
  then show ?thesis by (simp only: push_bit_eq_mult drop_bit_eq_div)
qed

lemma and_hi: "c AND 0xFC00 = push_bit 10 (drop_bit 10 (c :: u16))" "c AND 0xF800 = push_bit 11 (drop_bit 11 (c :: u16))"
proof -
  have m: "0xFC00 = NOT (mask 10 :: u16)" "0xF800 = NOT (mask 11 :: u16)" by (simp_all add: mask_eq_exp_minus_1)
  show "c AND 0xFC00 = push_bit 10 (drop_bit 10 c)" "c AND 0xF800 = push_bit 11 (drop_bit 11 c)"
    unfolding m by (rule bit_word_eqI; auto simp: bit_simps)+
qed

lemma div_range: "0 < (k :: nat) \<Longrightarrow> n div k = q \<longleftrightarrow> q * k \<le> n \<and> n < Suc q * k"
  by (simp only: less_eq_div_iff_mult_less_eq [symmetric] div_less_iff_less_mult [symmetric]) linarith

lemma surrogate_tests:
  "IsUnicodeTrail c \<longleftrightarrow> trail c" "IsUnicodeSurrogate c \<longleftrightarrow> lead c \<or> trail c"
  "IsUnicodeSurrogate c \<Longrightarrow> IsUnicodeSurrogateTrail c \<longleftrightarrow> trail c"
proof -
  have u: "c AND 0xFC00 = 0xDC00 \<longleftrightarrow> unat c div 1024 = 55" "c AND 0xF800 = 0xD800 \<longleftrightarrow> unat c div 2048 = 27"
    unfolding and_hi word_unat_eq_iff unat_hi by simp_all
  have l: "lead c \<longleftrightarrow> unat c div 1024 = 54" "trail c \<longleftrightarrow> unat c div 1024 = 55"
    by (auto simp: lead_def trail_def div_range)
  show "IsUnicodeTrail c \<longleftrightarrow> trail c" unfolding IsUnicodeTrail_def u l ..
  show s: "IsUnicodeSurrogate c \<longleftrightarrow> lead c \<or> trail c"
    unfolding IsUnicodeSurrogate_def u lead_def trail_def by (auto simp: div_range)
  have "(0x400 :: u16) = push_bit 10 1" by simp
  then have "c AND 0x400 \<noteq> 0 \<longleftrightarrow> bit c 10" by (metis and_exp_eq_0_iff_not_bit push_bit_of_1)
  moreover have "bit c 10 \<longleftrightarrow> odd (unat c div 1024)"
    using bit_unsigned_iff [where 'a = nat, of c 10] by (simp add: bit_iff_odd)
  ultimately show "IsUnicodeSurrogate c \<Longrightarrow> IsUnicodeSurrogateTrail c \<longleftrightarrow> trail c"
    unfolding IsUnicodeSurrogateTrail_def s unfolding l by auto
qed

fun usv :: "u16 list \<Rightarrow> u16 list" where
  "usv [] = []"
| "usv [c] = [if lead c \<or> trail c then 0xFFFD else c]"
| "usv (c # d # xs) =
     (if lead c \<and> trail d then c # d # usv xs else (if lead c \<or> trail c then 0xFFFD else c) # usv (d # xs))"

lemma usv_length: "length (usv s) = length s"
  by (induction s rule: usv.induct) auto

lemma lead_trail: "lead c \<Longrightarrow> \<not> trail c"
  by (auto simp: lead_def trail_def)

lemma usv_nth:
  "i < length s \<Longrightarrow> usv s ! i = (if (lead (s ! i) \<or> trail (s ! i)) \<and> \<not> paired s i then 0xFFFD else s ! i)"
proof (induction s arbitrary: i rule: usv.induct)
  case (3 c d xs)
  show ?case
  proof (cases "lead c \<and> trail d")
    case True
    consider "i = 0" | "i = 1" | j where "i = j + 2" "j < length xs"
      using "3.prems" by (cases i; cases "i - 1") auto
    then show ?thesis
    proof cases
      case (3 j)
      have "paired (c # d # xs) (j + 2) = paired xs j"
        using True by (cases j) (auto simp: paired_def dest: lead_trail)
      then show ?thesis using "3.IH"(1) [OF True] 3 True by simp
    qed (use True in \<open>simp_all add: paired_def\<close>)
  next
    case False
    show ?thesis
    proof (cases i)
      case 0
      then show ?thesis using False by (auto simp: paired_def)
    next
      case (Suc j)
      have "paired (c # d # xs) (Suc j) = paired (d # xs) j"
        using False by (cases j) (auto simp: paired_def)
      then show ?thesis using "3.IH"(2) [OF False, of j] "3.prems" False Suc by auto
    qed
  qed
qed (auto simp: paired_def)

lemma usv_scalar_values: "usv s = scalar_values s"
  by (rule nth_equalityI) (simp_all add: usv_length usv_nth scalar_values_def)

lemma usv_loop_spec:
  "usv_loop (pre @ rest @ [fresh]) (length pre + length rest) (length pre) = Inr (pre @ usv rest @ [fresh])"
proof (induction rest arbitrary: pre rule: usv.induct)
  case 1
  show ?case by (simp add: usv_loop.simps)
next
  case (2 c)
  have w: "mem_write (pre @ c # [fresh]) (length pre) [x] = Inr ((pre @ [x]) @ [fresh])" for x
    by (simp add: mem_write_def)
  have e: "usv_loop ((pre @ [x]) @ [fresh]) (length pre + 1) (length pre + 1) = Inr ((pre @ [x]) @ [fresh])" for x
    by (subst usv_loop.simps) simp
  show ?case
    by (subst usv_loop.simps) (use w e in \<open>auto simp: mem_read_append surrogate_tests kUnicodeReplacementCharacter_def\<close>)
next
  case (3 c d xs)
  define V where "V = pre @ (c # d # xs) @ [fresh]"
  define V' where "V' = (\<lambda>x. (pre @ [x]) @ (d # xs) @ [fresh])"
  define L where "L = length pre + length (c # d # xs)"
  define i where "i = length pre"
  have r: "mem_read V i = Inr c" "mem_read V (Suc i) = Inr d" by (simp_all add: V_def i_def mem_read_def nth_append)
  have w: "mem_write V i [x] = Inr (V' x)" for x by (simp add: V_def V'_def i_def mem_write_def)
  have n: "i < L" "i \<noteq> L - Suc 0" by (simp_all add: i_def L_def)
  have "usv_loop V L i = Inr (pre @ usv (c # d # xs) @ [fresh])"
  proof (cases "lead c \<and> trail d")
    case True
    have "usv_loop V L (Suc (Suc i)) = Inr (pre @ c # d # usv xs @ [fresh])"
      using "3.IH"(1) [OF True, of "pre @ [c, d]"] by (simp add: V_def L_def i_def)
    then show ?thesis
      using True lead_trail [of c] by (subst usv_loop.simps) (simp add: r n surrogate_tests)
  next
    case False
    have ih: "usv_loop (V' x) L (Suc i) = Inr (pre @ x # usv (d # xs) @ [fresh])" for x
      using "3.IH"(2) [OF False, of "pre @ [x]"] by (simp add: V'_def L_def i_def del: usv.simps)
    have "V = V' c" by (simp add: V_def V'_def)
    then have ihc: "usv_loop V L (Suc i) = Inr (pre @ c # usv (d # xs) @ [fresh])" using ih by simp
    have u: "usv (c # d # xs) = (if lead c \<or> trail c then 0xFFFD else c) # usv (d # xs)" using False by auto
    show ?thesis unfolding u using False
      by (subst usv_loop.simps) (auto simp: r n w ih ihc surrogate_tests kUnicodeReplacementCharacter_def simp del: usv.simps)
  qed
  then show ?case by (simp only: V_def L_def i_def)
qed

section \<open>Hexadecimal encoding\<close>

definition hex_text :: "bytes \<Rightarrow> bytes" where
  "hex_text xs = concat (map (\<lambda>b. [hex_chars ! (unat b div 16), hex_chars ! (unat b mod 16)]) xs)"

lemma hex_text_length: "length (hex_text xs) = 2 * length xs"
  by (induction xs) (simp_all add: hex_text_def)

lemma hex_text_snoc: "hex_text (xs @ [b]) = hex_text xs @ [hex_chars ! (unat b div 16), hex_chars ! (unat b mod 16)]"
  by (simp add: hex_text_def)

lemma nibbles: "unat (drop_bit 4 (b :: byte)) = unat b div 16" "unat (b AND 15) = unat b mod 16"
proof -
  have "15 = (mask 4 :: byte)" by (simp add: mask_eq_exp_minus_1)
  then have "b AND 15 = take_bit 4 b" by (simp only: take_bit_eq_mask)
  then show "unat (b AND 15) = unat b mod 16" by (simp add: unsigned_take_bit_eq) (simp add: take_bit_eq_mod)
qed (simp add: drop_bit_eq_div unat_div)

lemma unat_u32: "n < 2 ^ 32 \<Longrightarrow> unat (of_nat n :: u32) = n"
  by (simp add: unsigned_of_nat take_bit_nat_eq_self)

lemma unat_u64: "n < 2 ^ 64 \<Longrightarrow> unat (of_nat n :: u64) = n"
  by (simp add: unsigned_of_nat take_bit_nat_eq_self)

lemma unat_widen: "unat (ucast (w :: u32) :: u64) = unat w"
proof -
  have "unat w < 2 ^ 64" using unsigned_less [of w, where 'a = nat] by simp
  then show ?thesis by (simp add: unsigned_ucast_eq take_bit_nat_eq_self)
qed

lemma loop_test:
  "a < 2 ^ 32 \<Longrightarrow> b < 2 ^ 32 \<Longrightarrow> (ucast (of_nat a :: u32) :: u64) < of_nat b \<longleftrightarrow> a < b"
  unfolding word_less_nat_alt unat_widen by (subst unat_u32, simp, subst unat_u64) simp_all

lemma hex_loop_returns:
  assumes "2 * m < 2 ^ 32" "n \<le> m" "m \<le> length src" "2 * (m - n) \<le> length rest"
  shows "hex_loop src (of_nat (2 * m)) (hex_text (take n src) @ rest) (of_nat n) (of_nat (2 * n)) =
    Some (Inr (hex_text (take m src) @ drop (2 * (m - n)) rest))"
  using assms
proof (induction "m - n" arbitrary: n rest)
  case 0
  then have "\<not> (ucast (of_nat (2 * n) :: u32) :: u64) < of_nat (2 * m)" by (subst loop_test) simp_all
  then show ?case using 0 by (subst hex_loop.simps) (simp only: if_False, simp)
next
  case (Suc k)
  have lt: "n < m" using Suc.hyps(2) by simp
  have kk: "(ucast (of_nat (2 * n) :: u32) :: u64) < of_nat (2 * m)"
    using lt Suc.prems(1) by (subst loop_test) simp_all
  have ix: "unat (of_nat n :: u32) = n" "unat (of_nat (2 * n) + 0 :: u32) = 2 * n" "unat (of_nat (2 * n) + 1 :: u32) = 2 * n + 1"
    using lt Suc.prems(1) unat_u32 [of n] unat_u32 [of "2 * n"] unat_u32 [of "2 * n + 1"] by (simp_all add: add.commute)
  obtain x y rest' where rest: "rest = x # y # rest'" using Suc.prems(4) lt
    by (cases rest; cases "List.tl rest") auto
  define b where "b = src ! n"
  have rd: "mem_read src n = Inr b" using lt Suc.prems(3) by (simp add: mem_read_def b_def)
  have tk: "take (Suc n) src = take n src @ [b]" using lt Suc.prems(3) by (simp add: take_Suc_conv_app_nth b_def)
  have len: "length (hex_text (take n src)) = 2 * n" using lt Suc.prems(3) by (simp add: hex_text_length)
  have w: "mem_write (hex_text (take n src) @ rest) (2 * n) [u] = Inr (hex_text (take n src) @ u # y # rest')" 
    "mem_write (hex_text (take n src) @ u # y # rest') (2 * n + 1) [v] = Inr (hex_text (take n src) @ u # v # rest')" for u v
    by (simp_all add: mem_write_def len rest)
  have "hex_loop src (of_nat (2 * m)) (hex_text (take (Suc n) src) @ rest') (of_nat (Suc n)) (of_nat (2 * Suc n)) =
    Some (Inr (hex_text (take m src) @ drop (2 * (m - Suc n)) rest'))"
    using Suc.prems lt rest Suc.hyps(2) by (intro Suc.hyps(1)) auto
  moreover have "of_nat (Suc n) = (of_nat n + 1 :: u32)" "of_nat (2 * Suc n) = (of_nat (2 * n) + 2 :: u32)" by simp_all
  moreover have "drop (2 * (m - n)) rest = drop (2 * (m - Suc n)) rest'"
  proof -
    have "2 * (m - n) = Suc (Suc (2 * (m - Suc n)))" using lt by simp
    then show ?thesis by (simp add: rest)
  qed
  ultimately show ?case
    by (subst hex_loop.simps) (simp only: kk if_True ix rd obind_Inr w nibbles tk hex_text_snoc sum.case append_assoc append_Cons append_Nil)
qed

lemma hex_loop_never_returns:
  assumes "hex_loop src dlen dst i k = Some r" "2 ^ 32 \<le> unat dlen"
  shows "\<exists>e. r = Inl e"
proof -
  have lt: "(ucast (j :: u32) :: u64) < dlen" for j
    using assms(2) unsigned_less [of j, where 'a = nat] unfolding word_less_nat_alt unat_widen by simp
  have "(\<forall>j :: u32. (ucast j :: u64) < dlen) \<longrightarrow> (\<exists>e. r = Inl e)"
  proof (rule hex_loop.raw_induct [where P = "\<lambda>src dlen dst i k r. (\<forall>j :: u32. (ucast j :: u64) < dlen) \<longrightarrow> (\<exists>e. r = Inl e)", OF _ assms(1)], goal_cases)
    case (1 loop src dlen dst i k r)
    show ?case
    proof
      assume a: "\<forall>j :: u32. (ucast j :: u64) < dlen"
      show "\<exists>e. r = Inl e" using 1(2) a by (auto split: sum.splits dest!: 1(1)) (metis)
    qed
  qed
  then show ?thesis using lt by blast
qed

lemma hex_encode_returns:
  assumes "unat slen < 2 ^ 31" "unat slen \<le> length src" "2 * unat slen \<le> unat dlen" "length dst = unat dlen"
  shows "hex_encode src slen dst dlen = Some (Inr (slen * 2, hex_text (take (unat slen) src) @ drop (2 * unat slen) dst))"
proof -
  have u: "unat (slen * 2) = 2 * unat slen" using assms(1) by (simp add: unat_word_ariths)
  have s2: "slen * 2 = of_nat (2 * unat slen)" by (simp flip: u)
  have "\<not> dlen < slen * 2" using assms(3) unfolding word_less_nat_alt u by simp
  then show ?thesis
    using hex_loop_returns [of "unat slen" 0 src dst] assms unfolding hex_encode_def s2
    by (simp add: hex_text_def not_less)
qed

section \<open>Ranges of array buffers\<close>

lemma buffer_range_eq:
  assumes "off < 2 ^ 32" "len < 2 ^ 32"
  shows "buffer_range [JArrayBuffer bs, JNumber (int off), JNumber (int len)] =
    (if (off + len) mod 2 ^ 32 \<le> length bs then Inr (bs, of_nat off, of_nat len) else Inl Check_failed)"
proof -
  have "unat (of_nat off + of_nat len :: u32) = (off + len) mod 2 ^ 32"
    using assms by (simp add: unat_word_ariths unat_u32)
  then show ?thesis using assms by (simp add: buffer_range_def arg_def IsUint32_def as_Uint32_def CHECK_def)
qed

lemma take_drop_slice: "take n (drop off xs) = slice off n xs"
  by (simp add: slice_def)

lemma hex_wrapped_size:
  assumes "2 ^ 31 \<le> len" "len < 2 ^ 32"
  shows "\<not> (ucast (of_nat len :: u32) :: u64) * 2 \<le> ucast (of_nat len * 2 :: u32)"
proof -
  have "unat ((ucast (of_nat len :: u32) :: u64) * 2) = 2 * len"
    using assms by (simp add: unat_word_ariths unat_widen unat_u32)
  moreover have "unat (ucast (of_nat len * 2 :: u32) :: u64) < 2 ^ 32"
    unfolding unat_widen using unsigned_less [of "of_nat len * 2 :: u32", where 'a = nat] by simp
  ultimately show ?thesis using assms by (simp add: word_le_nat_alt)
qed

text \<open>A shorter source, cut at the length that is passed, reads the same.\<close>

lemma mem_read_take: "i < n \<Longrightarrow> mem_read (take n xs) i = mem_read xs i"
  by (simp add: mem_read_def)

lemma encode_loop_take: "encode_loop dest p (take len str) i len = encode_loop dest p str i len"
proof (induction dest p str i len rule: encode_loop.induct)
  case (1 dest p str i len)
  show ?case
    by (subst (1 2) encode_loop.simps) (use 1 in \<open>auto simp: mem_read_take cong: obind_fundef_cong\<close>)
qed

lemma encode_tail_take: "encode_tail (take len str) len = encode_tail str len"
  by (auto simp: encode_tail_def fun_eq_iff mem_read_take cong: obind_fundef_cong)

lemma modp_b64_encode_take: "modp_b64_encode dest (take len str) len = modp_b64_encode dest str len"
  by (simp add: encode_with_tail encode_loop_take encode_tail_take)

lemma rb_new_ok:
  "alloc_ok A n \<Longrightarrow> 0 < n \<Longrightarrow> \<exists>dest. rb_new A n = Inr \<lparr>rb_buf = Some dest, rb_byte_length = n\<rparr> \<and> length dest = n"
  by (simp add: rb_new_def rb_Realloc_def rb_empty_def)

lemma encode_len_u32:
  assumes "len < 2 ^ 32"
  shows "modp_b64_encode_len len < 2 ^ 32 \<Longrightarrow> unat (encode_len_u32 (of_nat len)) = modp_b64_encode_len len"
    and "\<not> modp_b64_encode_len len < 2 ^ 32 \<Longrightarrow> unat (encode_len_u32 (of_nat len)) < modp_b64_encode_len len"
    and "0 < unat (encode_len_u32 (of_nat len))"
proof -
  have u: "unat (encode_len_u32 (of_nat len)) = ((len + 2) mod 2 ^ 32 div 3 * 4 + 1) mod 2 ^ 32"
    using assms by (simp add: encode_len_u32_def unat_word_ariths unat_u32 unat_div mod_simps)
  show "unat (encode_len_u32 (of_nat len)) = modp_b64_encode_len len" if "modp_b64_encode_len len < 2 ^ 32"
  proof -
    have "(len + 2) mod 3 < 3" by simp
    then have "len + 2 < 2 ^ 32"
      using that div_mult_mod_eq [of "len + 2" 3] unfolding modp_b64_encode_len_def power_numeral by simp
    then show ?thesis using that unfolding u modp_b64_encode_len_def by (simp only: mod_less)
  qed
  show "unat (encode_len_u32 (of_nat len)) < modp_b64_encode_len len" if "\<not> modp_b64_encode_len len < 2 ^ 32"
    using that unsigned_less [of "encode_len_u32 (of_nat len)", where 'a = nat] by simp
  have "(4 :: nat) dvd 2 ^ 32" by simp
  then have "unat (encode_len_u32 (of_nat len)) mod 4 = 1" unfolding u by (simp only: mod_mod_cancel mod_mult_self3) simp
  then show "0 < unat (encode_len_u32 (of_nat len))" by (cases "unat (encode_len_u32 (of_nat len))") simp_all
qed

section \<open>Properties\<close>

text \<open>
  Hexadecimal encoding of a range that lies inside the buffer returns, for every range
  shorter than \<open>2 ^ 31\<close> bytes, a new buffer with the two digits of each byte in order. For a longer range the
  doubled length wraps around in 32 bits and the process aborts on the size check, before any byte is written.
\<close>

theorem BufferEncodeHex_range:
  assumes "off < 2 ^ 32" "len < 2 ^ 32" "off + len \<le> length bs"
  shows "BufferEncodeHex [JArrayBuffer bs, JNumber (int off), JNumber (int len)] =
    Some (if len < 2 ^ 31 then Inr (JArrayBuffer (hex_text (slice off len bs))) else Inl Check_failed)"
proof -
  have "(off + len) mod 2 ^ 32 \<le> length bs" using assms(3) mod_less_eq_dividend [of "off + len" "2 ^ 32"] by linarith
  then have r: "buffer_range [JArrayBuffer bs, JNumber (int off), JNumber (int len)] = Inr (bs, of_nat off, of_nat len)"
    using buffer_range_eq [OF assms(1,2)] by simp
  show ?thesis
  proof (cases "len < 2 ^ 31")
    case True
    have u: "unat (of_nat off :: u32) = off" "unat (ucast (of_nat len :: u32) :: u64) = len"
      using assms by (simp_all add: unat_widen unat_u32)
    have d: "unat (ucast (of_nat len * 2 :: u32) :: u64) = 2 * len"
      using True by (simp add: unat_widen unat_word_ariths unat_u32)
    show ?thesis
      using True assms(3) hex_encode_returns [of "ucast (of_nat len :: u32)" "drop off bs" "ucast (of_nat len * 2 :: u32)" "replicate (2 * len) 0"]
      unfolding BufferEncodeHex_def r by (simp add: u d take_drop_slice)
  next
    case False
    then show ?thesis using hex_wrapped_size [of len] assms(2)
      unfolding BufferEncodeHex_def r by (simp add: hex_encode_def Let_def)
  qed
qed

theorem BufferEncodeHex_range_witness:
  "BufferEncodeHex [JArrayBuffer [1, 2, 255, 4], JNumber 1, JNumber 2] = Some (Inr (JArrayBuffer [48, 50, 102, 102]))
   \<and> BufferEncodeHex [JArrayBuffer (replicate (2 ^ 31) 0), JNumber 0, JNumber (2 ^ 31)] = Some (Inl Check_failed)"
  using BufferEncodeHex_range [of 1 2 "[1, 2, 255, 4]"] BufferEncodeHex_range [of 0 "2 ^ 31" "replicate (2 ^ 31) 0"]
  by (simp add: slice_def hex_text_def hex_chars_def)

text \<open>
  C32: On buffers of the sizes it is told, \<open>hex_encode\<close> returns exactly when the input is shorter than \<open>2 ^ 31\<close>
  bytes: then it has written the digits. From \<open>2 ^ 31\<close> bytes on the 32-bit counters wrap around before they reach the
  64-bit length and no number of iterations ends the loop normally.
\<close>

theorem hex_encode_returns_iff:
  assumes "unat slen < 2 ^ 63" "length src = unat slen" "unat dlen = 2 * unat slen" "length dst = unat dlen"
  shows "if unat slen < 2 ^ 31 then hex_encode src slen dst dlen = Some (Inr (dlen, hex_text src))
    else \<forall>n dst'. hex_encode src slen dst dlen \<noteq> Some (Inr (n, dst'))"
proof -
  have u: "unat (slen * 2) = 2 * unat slen" using assms(1) by (simp add: unat_word_ariths)
  then have d: "dlen = slen * 2" using assms(3) by (simp add: word_unat_eq_iff)
  show ?thesis
  proof (cases "unat slen < 2 ^ 31")
    case True
    then show ?thesis using hex_encode_returns [OF True, of src dlen dst] assms d by simp
  next
    case False
    then have "2 ^ 32 \<le> unat dlen" using assms(3) by simp
    then have "hex_loop src dlen dst 0 0 \<noteq> Some (Inr dst')" for dst' using hex_loop_never_returns by blast
    then show ?thesis using False by (auto simp: hex_encode_def d Let_def obind_eq_Inr)
  qed
qed

theorem hex_encode_returns_iff_witness:
  "hex_encode [16, 171] 2 [0, 0, 0, 0] 4 = Some (Inr (4, [49, 48, 97, 98]))
   \<and> (\<forall>n dst'. hex_encode (replicate (2 ^ 31) 0) (2 ^ 31) (replicate (2 ^ 32) 0) (2 ^ 32) \<noteq> Some (Inr (n, dst')))"
  using hex_encode_returns_iff [of 2 "[16, 171]" 4 "[0, 0, 0, 0]"]
    hex_encode_returns_iff [of "2 ^ 31" "replicate (2 ^ 31) 0" "2 ^ 32" "replicate (2 ^ 32) 0"]
  by (simp add: hex_text_def hex_chars_def)

text \<open>
  C33: Base64 encoding of a range inside the buffer returns the padded base64 text of the range as long as the size of
  that text and its NUL fits in 32 bits. For a longer range the size macro wraps around, the buffer
  that is allocated is too small, and the encoder writes behind it.
\<close>

theorem BufferEncodeBase64_range:
  assumes "\<forall>n. alloc_ok A n" "off < 2 ^ 32" "len < 2 ^ 32" "off + len \<le> length bs"
  shows "BufferEncodeBase64 A [JArrayBuffer bs, JNumber (int off), JNumber (int len)] =
    (if modp_b64_encode_len len < 2 ^ 32 then Inr (JArrayBuffer (b64 (slice off len bs))) else Inl Out_of_bounds)"
proof -
  have "(off + len) mod 2 ^ 32 \<le> length bs" using assms(4) mod_less_eq_dividend [of "off + len" "2 ^ 32"] by linarith
  then have r: "buffer_range [JArrayBuffer bs, JNumber (int off), JNumber (int len)] = Inr (bs, of_nat off, of_nat len)"
    using buffer_range_eq [OF assms(2,3)] by simp
  define dlen where "dlen = unat (encode_len_u32 (of_nat len))"
  obtain dest where b: "rb_new A dlen = Inr \<lparr>rb_buf = Some dest, rb_byte_length = dlen\<rparr>" "length dest = dlen"
    using rb_new_ok [of A dlen] assms(1) encode_len_u32(3) [OF assms(3)] unfolding dlen_def by blast
  have s: "length (slice off len bs) = len" using assms(4) by (rule slice_length)
  have u: "unat (of_nat off :: u32) = off" "unat (of_nat len :: u32) = len" using assms by (simp_all add: unat_u32)
  have e: "modp_b64_encode dest (slice off len bs) len = modp_b64_encode dest (drop off bs) len"
    unfolding slice_def by (rule modp_b64_encode_take)
  have m: "BufferEncodeBase64 A [JArrayBuffer bs, JNumber (int off), JNumber (int len)] =
      obind (modp_b64_encode dest (slice off len bs) (length (slice off len bs))) (\<lambda>(n, dest). Inr (JArrayBuffer (take (dlen - 1) dest)))"
    using b(1) unfolding BufferEncodeBase64_def r s by (simp add: u e Let_def flip: dlen_def)
  show ?thesis
  proof (cases "modp_b64_encode_len len < 2 ^ 32")
    case True
    then have d: "dlen = modp_b64_encode_len len" unfolding dlen_def by (rule encode_len_u32(1) [OF assms(3)])
    then have "dlen - 1 = length (b64 (slice off len bs))"
      by (simp add: b64_length s modp_b64_encode_len_def modp_b64_encode_strlen_def)
    then show ?thesis using modp_b64_encode_spec [of "slice off len bs" dest] True d b(2) s unfolding m by auto
  next
    case False
    then have "length dest < modp_b64_encode_len (length (slice off len bs))"
      using encode_len_u32(2) [OF assms(3)] by (simp add: s b(2) dlen_def)
    then show ?thesis using False unfolding m by (simp add: encode_overflow)
  qed
qed

theorem BufferEncodeBase64_range_witness:
  "BufferEncodeBase64 \<lparr>alloc_ok = \<lambda>_. True, junk = \<lambda>_. 170\<rparr> [JArrayBuffer [0, 65, 66, 0], JNumber 1, JNumber 2] =
     Inr (JArrayBuffer [81, 85, 73, 61])
   \<and> BufferEncodeBase64 \<lparr>alloc_ok = \<lambda>_. True, junk = \<lambda>_. 170\<rparr>
       [JArrayBuffer (replicate (3 * 2 ^ 30) 0), JNumber 0, JNumber (3 * 2 ^ 30)] = Inl Out_of_bounds"
proof -
  have b: "b64 [65, 66] = [81, 85, 73, 61]" by (simp add: b64_digit_def b64_alphabet_def CHARPAD_def)
  show ?thesis
    using BufferEncodeBase64_range [of "\<lparr>alloc_ok = \<lambda>_. True, junk = \<lambda>_. 170\<rparr>" 1 2 "[0, 65, 66, 0]"]
      BufferEncodeBase64_range [of "\<lparr>alloc_ok = \<lambda>_. True, junk = \<lambda>_. 170\<rparr>" 0 "3 * 2 ^ 30" "replicate (3 * 2 ^ 30) 0"] b
    by (simp add: slice_def modp_b64_encode_len_def)
qed

text \<open>
  The 32-bit sum of offset and length that guards the encoders wraps around: with an offset behind the end of the buffer
  and a length that brings the sum back into it, the check passes and the encoder reads behind the buffer.
\<close>

theorem buffer_range_check_wraps:
  assumes "\<forall>n. alloc_ok A n" "off < 2 ^ 32" "0 < len" "len < 2 ^ 31" "length bs \<le> off" "2 ^ 32 \<le> off + len" "off + len \<le> 2 ^ 32 + length bs"
  shows "BufferEncodeHex [JArrayBuffer bs, JNumber (int off), JNumber (int len)] = Some (Inl Out_of_bounds)
    \<and> BufferEncodeBase64 A [JArrayBuffer bs, JNumber (int off), JNumber (int len)] = Inl Out_of_bounds"
proof -
  have "(off + len) mod 2 ^ 32 = off + len - 2 ^ 32"
    using assms(2,4,6) by (subst le_mod_geq) simp_all
  then have r: "buffer_range [JArrayBuffer bs, JNumber (int off), JNumber (int len)] = Inr (bs, of_nat off, of_nat len)"
    using buffer_range_eq [of off len bs] assms by simp
  have u: "unat (of_nat off :: u32) = off" "unat (of_nat len :: u32) = len" using assms by (simp_all add: unat_u32)
  have d: "drop off bs = []" using assms(5) by simp
  have lt: "(0 :: u64) < ucast (of_nat len :: u32) * 2" "\<not> ucast (of_nat len * 2 :: u32) < (ucast (of_nat len :: u32) * 2 :: u64)"
    using assms(3,4) by (simp_all add: word_less_nat_alt unat_word_ariths unat_widen unat_u32)
  have "hex_loop [] (ucast (of_nat len :: u32) * 2) dst 0 0 = Some (Inl Out_of_bounds)" for dst
    using lt(1) by (subst hex_loop.simps) (simp add: mem_read_def)
  then have h: "BufferEncodeHex [JArrayBuffer bs, JNumber (int off), JNumber (int len)] = Some (Inl Out_of_bounds)"
    using lt(2) unfolding BufferEncodeHex_def r by (simp add: u d hex_encode_def Let_def not_less)
  obtain dest where b: "rb_new A (unat (encode_len_u32 (of_nat len))) = Inr \<lparr>rb_buf = Some dest, rb_byte_length = unat (encode_len_u32 (of_nat len))\<rparr>"
    using rb_new_ok [of A "unat (encode_len_u32 (of_nat len))"] assms(1,4) encode_len_u32(3) [of len] by auto
  have "modp_b64_encode dest [] len = Inl Out_of_bounds"
    using assms(3) unfolding encode_with_tail by (subst encode_loop.simps) (auto simp: mem_read_def encode_tail_def)
  then have "BufferEncodeBase64 A [JArrayBuffer bs, JNumber (int off), JNumber (int len)] = Inl Out_of_bounds"
    using b unfolding BufferEncodeBase64_def r by (simp add: u d Let_def)
  with h show ?thesis ..
qed

theorem buffer_range_check_wraps_witness:
  "BufferEncodeHex [JArrayBuffer [7], JNumber (2 ^ 32 - 1), JNumber 2] = Some (Inl Out_of_bounds)
   \<and> BufferEncodeBase64 \<lparr>alloc_ok = \<lambda>_. True, junk = \<lambda>_. 0\<rparr> [JArrayBuffer [7], JNumber (2 ^ 32 - 1), JNumber 2] = Inl Out_of_bounds"
  using buffer_range_check_wraps [of "\<lparr>alloc_ok = \<lambda>_. True, junk = \<lambda>_. 0\<rparr>" "2 ^ 32 - 1" 2 "[7]"] by (simp add: of_nat_diff)




end
