(* ===== verification/CText.thy ===== *)
theory CText
  imports Prelude
begin

text \<open>
  C strings and the printing of integers, as the C and C++ sources use them: the text up to the first NUL, a signed
  \<open>char\<close>, and decimal numbers.
\<close>

definition digit_char :: "nat \<Rightarrow> char" where
  "digit_char n = char_of (48 + n)"

fun nat_text :: "nat \<Rightarrow> string" where
  "nat_text n = (if n < 10 then [digit_char n] else nat_text (n div 10) @ [digit_char (n mod 10)])"

declare nat_text.simps [simp del]

text \<open>\<open>std::to_string\<close> of an integer.\<close>

definition to_string :: "int \<Rightarrow> string" where
  "to_string n = (if n < 0 then CHR ''-'' # nat_text (nat (- n)) else nat_text (nat n))"

definition signed_char :: "char \<Rightarrow> int" where
  "signed_char c = (let n = int (of_char c) in if n < 128 then n else n - 256)"

definition c_string :: "string \<Rightarrow> string" where
  "c_string s = takeWhile (\<lambda>c. c \<noteq> CHR 0x00) s"

end
