(* ===== verification/Json.thy ===== *)
theory Json
  imports Prelude
begin

text \<open>
  JSON texts, after RFC 8259: the documents, the grammar as an inductive predicate that relates
  a document and a text, an executable parser, and the proof that the parser
  reads every text of the grammar as its document (so that no text has two readings). A string
  is a list of items: a byte of the text (UTF-8 is not decoded) or a code point above
  127 that was written as an escape.
\<close>

datatype jitem = Byte char | Code nat

datatype json =
    Null
  | Bool bool
  | Num string
  | Str "jitem list"
  | Arr "json list"
  | Obj "(jitem list \<times> json) list"

abbreviation quote :: char where "quote \<equiv> CHR 0x22"
abbreviation backslash :: char where "backslash \<equiv> CHR 0x5C"

section \<open>Grammar\<close>

definition ws_char :: "char \<Rightarrow> bool" where
  "ws_char c = (c = CHR 0x20 \<or> c = CHR 0x09 \<or> c = CHR 0x0A \<or> c = CHR 0x0D)"

definition ws :: "string \<Rightarrow> bool" where
  "ws s = list_all ws_char s"

definition digit :: "char \<Rightarrow> bool" where
  "digit c = (48 \<le> (of_char c :: nat) \<and> (of_char c :: nat) \<le> 57)"

definition digits :: "string \<Rightarrow> bool" where
  "digits s = (s \<noteq> [] \<and> list_all digit s)"

definition exp_part :: "string \<Rightarrow> bool" where
  "exp_part s =
     (case s of
        [] \<Rightarrow> True
      | c # r \<Rightarrow> (c = CHR ''e'' \<or> c = CHR ''E'') \<and>
          (case r of [] \<Rightarrow> False | d # r' \<Rightarrow> if d = CHR ''+'' \<or> d = CHR ''-'' then digits r' else digits r))"

definition frac_part :: "string \<Rightarrow> bool" where
  "frac_part s =
     (case s of
        [] \<Rightarrow> True
      | c # r \<Rightarrow> if c = CHR ''.'' then takeWhile digit r \<noteq> [] \<and> exp_part (dropWhile digit r) else exp_part s)"

definition unsigned_number :: "string \<Rightarrow> bool" where
  "unsigned_number s =
     (let i = takeWhile digit s
      in (i = ''0'' \<or> i \<noteq> [] \<and> hd i \<noteq> CHR ''0'') \<and> frac_part (dropWhile digit s))"

definition json_number :: "string \<Rightarrow> bool" where
  "json_number s = (case s of [] \<Rightarrow> False | c # r \<Rightarrow> if c = CHR ''-'' then unsigned_number r else unsigned_number s)"

definition simple_escape :: "char \<Rightarrow> char option" where
  "simple_escape e =
     (if e = quote \<or> e = backslash \<or> e = CHR ''/'' then Some e
      else if e = CHR ''b'' then Some (CHR 0x08)
      else if e = CHR ''f'' then Some (CHR 0x0C)
      else if e = CHR ''n'' then Some (CHR 0x0A)
      else if e = CHR ''r'' then Some (CHR 0x0D)
      else if e = CHR ''t'' then Some (CHR 0x09)
      else None)"

definition hex_value :: "char \<Rightarrow> nat option" where
  "hex_value c =
     (let n = of_char c :: nat
      in if 48 \<le> n \<and> n \<le> 57 then Some (n - 48)
         else if 65 \<le> n \<and> n \<le> 70 then Some (n - 55)
         else if 97 \<le> n \<and> n \<le> 102 then Some (n - 87) else None)"

definition code_item :: "nat \<Rightarrow> jitem" where
  "code_item n = (if n < 128 then Byte (char_of n) else Code n)"

definition hex4 :: "char \<Rightarrow> char \<Rightarrow> char \<Rightarrow> char \<Rightarrow> nat option" where
  "hex4 a b c d =
     (case (hex_value a, hex_value b, hex_value c, hex_value d) of
        (Some a, Some b, Some c, Some d) \<Rightarrow> Some (((a * 16 + b) * 16 + c) * 16 + d)
      | _ \<Rightarrow> None)"

inductive str_text :: "jitem list \<Rightarrow> string \<Rightarrow> bool" where
  str_Nil: "str_text [] []"
| str_raw: "32 \<le> (of_char c :: nat) \<Longrightarrow> c \<noteq> quote \<Longrightarrow> c \<noteq> backslash \<Longrightarrow> str_text is s \<Longrightarrow> str_text (Byte c # is) (c # s)"
| str_escape: "simple_escape e = Some c \<Longrightarrow> str_text is s \<Longrightarrow> str_text (Byte c # is) (backslash # e # s)"
| str_hex: "hex4 a b c d = Some n \<Longrightarrow> str_text is s \<Longrightarrow>
    str_text (code_item n # is) (backslash # CHR ''u'' # a # b # c # d # s)"

inductive val_text :: "json \<Rightarrow> string \<Rightarrow> bool"
  and elems_text :: "json list \<Rightarrow> string \<Rightarrow> bool"
  and mems_text :: "(jitem list \<times> json) list \<Rightarrow> string \<Rightarrow> bool" where
  val_null: "val_text Null ''null''"
| val_true: "val_text (Bool True) ''true''"
| val_false: "val_text (Bool False) ''false''"
| val_num: "json_number s \<Longrightarrow> val_text (Num s) s"
| val_str: "str_text is s \<Longrightarrow> val_text (Str is) (quote # s @ [quote])"
| val_arr0: "ws w \<Longrightarrow> val_text (Arr []) (CHR ''['' # w @ '']'')"
| val_arr: "elems_text xs s \<Longrightarrow> val_text (Arr xs) (CHR ''['' # s @ '']'')"
| val_obj0: "ws w \<Longrightarrow> val_text (Obj []) (CHR ''{'' # w @ ''}'')"
| val_obj: "mems_text ms s \<Longrightarrow> val_text (Obj ms) (CHR ''{'' # s @ ''}'')"
| elem_one: "val_text x s \<Longrightarrow> ws w \<Longrightarrow> ws w' \<Longrightarrow> elems_text [x] (w @ s @ w')"
| elem_more: "val_text x s \<Longrightarrow> ws w \<Longrightarrow> ws w' \<Longrightarrow> elems_text xs r \<Longrightarrow> elems_text (x # xs) (w @ s @ w' @ CHR '','' # r)"
| mem_one: "str_text k t \<Longrightarrow> ws w \<Longrightarrow> ws w1 \<Longrightarrow> val_text x s \<Longrightarrow> ws w2 \<Longrightarrow> ws w3 \<Longrightarrow>
    mems_text [(k, x)] (w @ quote # t @ quote # w1 @ CHR '':'' # w2 @ s @ w3)"
| mem_more: "str_text k t \<Longrightarrow> ws w \<Longrightarrow> ws w1 \<Longrightarrow> val_text x s \<Longrightarrow> ws w2 \<Longrightarrow> ws w3 \<Longrightarrow> mems_text ms r \<Longrightarrow>
    mems_text ((k, x) # ms) (w @ quote # t @ quote # w1 @ CHR '':'' # w2 @ s @ w3 @ CHR '','' # r)"

section \<open>Parser\<close>

definition skip :: "string \<Rightarrow> string" where
  "skip s = dropWhile ws_char s"

definition number_char :: "char \<Rightarrow> bool" where
  "number_char c = (digit c \<or> c = CHR ''-'' \<or> c = CHR ''+'' \<or> c = CHR ''.'' \<or> c = CHR ''e'' \<or> c = CHR ''E'')"

fun parse_hex :: "string \<Rightarrow> (nat \<times> string) option" where
  "parse_hex (a # b # c # d # s) = map_option (\<lambda>n. (n, s)) (hex4 a b c d)"
| "parse_hex _ = None"

lemma parse_hex_shorter: "parse_hex s = Some (n, r) \<Longrightarrow> length r < length s"
  by (induction s rule: parse_hex.induct) auto

function parse_str :: "string \<Rightarrow> (jitem list \<times> string) option" where
  "parse_str s =
     (case s of
        [] \<Rightarrow> None
      | c # s \<Rightarrow>
          if c = quote then Some ([], s)
          else if c = backslash
          then (case s of
                  [] \<Rightarrow> None
                | e # s \<Rightarrow>
                    if e = CHR ''u''
                    then (case parse_hex s of
                            None \<Rightarrow> None
                          | Some (n, s) \<Rightarrow> map_option (\<lambda>(is, r). (code_item n # is, r)) (parse_str s))
                    else (case simple_escape e of
                            None \<Rightarrow> None
                          | Some c \<Rightarrow> map_option (\<lambda>(is, r). (Byte c # is, r)) (parse_str s)))
          else if (of_char c :: nat) < 32 then None
          else map_option (\<lambda>(is, r). (Byte c # is, r)) (parse_str s))"
  by pat_completeness auto
termination by (relation "measure length") (auto dest: parse_hex_shorter)

declare parse_str.simps [simp del]

fun parse_value :: "nat \<Rightarrow> string \<Rightarrow> (json \<times> string) option"
  and parse_elems :: "nat \<Rightarrow> string \<Rightarrow> (json list \<times> string) option"
  and parse_mems :: "nat \<Rightarrow> string \<Rightarrow> ((jitem list \<times> json) list \<times> string) option" where
  "parse_value 0 s = None"
| "parse_value (Suc n) s =
     (case s of
        [] \<Rightarrow> None
      | c # r \<Rightarrow>
          if c = quote then map_option (\<lambda>(is, r). (Str is, r)) (parse_str r)
          else if c = CHR ''['' then
            (case skip r of
               [] \<Rightarrow> None
             | d # r' \<Rightarrow> if d = CHR '']'' then Some (Arr [], r')
                 else map_option (\<lambda>(xs, r). (Arr xs, r)) (parse_elems n r))
          else if c = CHR ''{'' then
            (case skip r of
               [] \<Rightarrow> None
             | d # r' \<Rightarrow> if d = CHR ''}'' then Some (Obj [], r')
                 else map_option (\<lambda>(ms, r). (Obj ms, r)) (parse_mems n r))
          else if take 4 s = ''null'' then Some (Null, drop 4 s)
          else if take 4 s = ''true'' then Some (Bool True, drop 4 s)
          else if take 5 s = ''false'' then Some (Bool False, drop 5 s)
          else if json_number (takeWhile number_char s) then Some (Num (takeWhile number_char s), dropWhile number_char s)
          else None)"
| "parse_elems 0 s = None"
| "parse_elems (Suc n) s =
     (case parse_value n (skip s) of
        None \<Rightarrow> None
      | Some (x, r) \<Rightarrow>
          (case skip r of
             [] \<Rightarrow> None
           | c # r \<Rightarrow> if c = CHR '','' then map_option (\<lambda>(xs, r). (x # xs, r)) (parse_elems n r)
               else if c = CHR '']'' then Some ([x], r) else None))"
| "parse_mems 0 s = None"
| "parse_mems (Suc n) s =
     (case skip s of
        [] \<Rightarrow> None
      | q # r \<Rightarrow>
          if q \<noteq> quote then None
          else (case parse_str r of
             None \<Rightarrow> None
           | Some (k, r) \<Rightarrow>
               (case skip r of
                  [] \<Rightarrow> None
                | c # r \<Rightarrow>
                    if c \<noteq> CHR '':'' then None
                    else (case parse_value n (skip r) of
                       None \<Rightarrow> None
                     | Some (x, r) \<Rightarrow>
                         (case skip r of
                            [] \<Rightarrow> None
                          | c # r \<Rightarrow> if c = CHR '','' then map_option (\<lambda>(ms, r). ((k, x) # ms, r)) (parse_mems n r)
                              else if c = CHR ''}'' then Some ([(k, x)], r) else None)))))"

definition parse_json :: "string \<Rightarrow> json option" where
  "parse_json s =
     (case parse_value (length s + 1) (skip s) of
        None \<Rightarrow> None
      | Some (v, r) \<Rightarrow> if skip r = [] then Some v else None)"

section \<open>Every text of the grammar parses as its document\<close>

lemma ws_simps [simp]: "ws []" "ws (c # s) = (ws_char c \<and> ws s)" "ws (s @ t) = (ws s \<and> ws t)"
  by (simp_all add: ws_def)

lemma ws_char_simps [simp]:
  "\<not> ws_char quote" "\<not> ws_char (CHR '','')" "\<not> ws_char (CHR '':'')" "\<not> ws_char (CHR ''['')" "\<not> ws_char (CHR '']'')"
  "\<not> ws_char (CHR ''{'')" "\<not> ws_char (CHR ''}'')" "\<not> ws_char (CHR ''n'')" "\<not> ws_char (CHR ''t'')" "\<not> ws_char (CHR ''f'')"
  "\<not> ws_char (CHR ''-'')"
  by (simp_all add: ws_char_def)

lemma skip_ws [simp]: "ws w \<Longrightarrow> \<not> ws_char c \<Longrightarrow> skip (w @ c # s) = c # s"
  by (induction w) (simp_all add: skip_def)

lemma skip_all [simp]: "ws w \<Longrightarrow> skip w = []"
  by (induction w) (simp_all add: skip_def)

lemma digit_not_ws: "digit c \<Longrightarrow> \<not> ws_char c"
  by (auto simp: digit_def ws_char_def)

lemma digit_head: "digit c \<Longrightarrow> c \<noteq> quote \<and> c \<noteq> CHR ''['' \<and> c \<noteq> CHR ''{'' \<and> c \<noteq> CHR ''n'' \<and> c \<noteq> CHR ''t'' \<and> c \<noteq> CHR ''f''
    \<and> c \<noteq> CHR '']'' \<and> c \<noteq> CHR ''}''"
  by (auto simp: digit_def)

lemma digits_number: "list_all digit s \<Longrightarrow> list_all number_char s"
  by (auto simp: list_all_iff number_char_def)

lemma exp_part_number: "exp_part s \<Longrightarrow> list_all number_char s"
  by (auto simp: exp_part_def digits_def number_char_def list_all_iff split: list.splits if_splits)

lemma span_number: "list_all number_char (dropWhile digit s) \<Longrightarrow> list_all number_char s"
proof -
  assume d: "list_all number_char (dropWhile digit s)"
  have "list_all digit (takeWhile digit s)" by (metis list_all_iff set_takeWhileD)
  then have "list_all number_char (takeWhile digit s @ dropWhile digit s)"
    unfolding list_all_append using d digits_number by blast
  then show ?thesis by simp
qed

lemma frac_part_number: "frac_part s \<Longrightarrow> list_all number_char s"
proof (cases s)
  case (Cons c r)
  assume f: "frac_part s"
  show ?thesis
  proof (cases "c = CHR ''.''")
    case True
    then have "list_all number_char r" using f Cons by (auto simp: frac_part_def intro: span_number [OF exp_part_number])
    then show ?thesis using True Cons by (simp add: number_char_def)
  next
    case False
    then show ?thesis using f Cons exp_part_number [of s] by (simp add: frac_part_def)
  qed
qed simp

lemma json_number_chars: "json_number s \<Longrightarrow> list_all number_char s"
proof (cases s)
  case (Cons c r)
  have u: "unsigned_number t \<Longrightarrow> list_all number_char t" for t
    by (auto simp: unsigned_number_def Let_def intro: span_number [OF frac_part_number])
  assume "json_number s"
  then show ?thesis using Cons u [of r] u [of s] by (auto simp: json_number_def number_char_def split: if_splits)
qed (simp add: json_number_def)

lemma unsigned_number_head: "unsigned_number s \<Longrightarrow> \<exists>c r. s = c # r \<and> digit c"
  by (cases s) (auto simp: unsigned_number_def Let_def split: if_splits)

lemma json_number_head: "json_number s \<Longrightarrow> \<exists>c r. s = c # r \<and> (c = CHR ''-'' \<or> digit c)"
  using unsigned_number_head by (auto simp: json_number_def split: list.splits if_splits)

lemma str_text_parse: "str_text is s \<Longrightarrow> parse_str (s @ quote # r) = Some (is, r)"
proof (induction rule: str_text.induct)
  case str_Nil
  show ?case by (simp add: parse_str.simps)
next
  case (str_raw c "is" s)
  then show ?case by (subst parse_str.simps) simp
next
  case (str_escape e c "is" s)
  then have "e \<noteq> CHR ''u''" by (auto simp: simple_escape_def)
  then show ?case using str_escape by (subst parse_str.simps) simp
next
  case (str_hex a b c d n "is" s)
  then show ?case by (subst parse_str.simps) simp
qed

lemma json_number_first: "json_number s \<Longrightarrow> \<exists>c r. s = c # r \<and> \<not> ws_char c \<and> c \<noteq> CHR '']'' \<and> c \<noteq> CHR ''}''"
proof -
  assume "json_number s"
  then obtain c r where "s = c # r" "c = CHR ''-'' \<or> digit c" using json_number_head by blast
  then show ?thesis using digit_not_ws [of c] digit_head [of c] by auto
qed

lemma val_text_head:
  "val_text v t \<Longrightarrow> \<exists>c r. t = c # r \<and> \<not> ws_char c \<and> c \<noteq> CHR '']'' \<and> c \<noteq> CHR ''}''"
  by (erule val_text.cases) (simp_all, use json_number_first in blast)

lemma elems_text_head: "elems_text xs t \<Longrightarrow> \<exists>w c r. t = w @ c # r \<and> ws w \<and> \<not> ws_char c \<and> c \<noteq> CHR '']''"
  by (erule elems_text.cases) (fastforce dest!: val_text_head)+

lemma mems_text_head: "mems_text ms t \<Longrightarrow> \<exists>w r. t = w @ quote # r \<and> ws w"
  by (erule mems_text.cases) fastforce+

definition delimited :: "string \<Rightarrow> bool" where
  "delimited r = (case r of [] \<Rightarrow> True | c # _ \<Rightarrow> \<not> number_char c)"

lemma delimited_simps [simp]:
  "delimited []" "delimited (CHR '','' # r)" "delimited (CHR '']'' # r)" "delimited (CHR ''}'' # r)"
  by (simp_all add: delimited_def number_char_def digit_def)

lemma delimited_ws [simp]: "ws w \<Longrightarrow> delimited r \<Longrightarrow> delimited (w @ r)"
  by (cases w) (auto simp: delimited_def number_char_def digit_def ws_char_def)

lemma parse_number:
  assumes "json_number s" "delimited r"
  shows "parse_value (Suc n) (s @ r) = Some (Num s, r)"
proof -
  obtain c s' where s: "s = c # s'" "c = CHR ''-'' \<or> digit c" using json_number_head [OF assms(1)] by blast
  have h: "c \<noteq> quote" "c \<noteq> CHR ''[''" "c \<noteq> CHR ''{''" "c \<noteq> CHR ''n''" "c \<noteq> CHR ''t''" "c \<noteq> CHR ''f''"
    using s(2) digit_head [of c] by auto
  have all: "list_all number_char s" using json_number_chars [OF assms(1)] .
  have tw: "takeWhile number_char (s @ r) = s" "dropWhile number_char (s @ r) = r"
    using all assms(2) by (auto simp: takeWhile_append dropWhile_append list_all_iff delimited_def split: list.splits)
  show ?thesis using h tw assms(1) s(1) by (simp add: numeral_eq_Suc)
qed

lemma parse_literals:
  "parse_value (Suc n) (''null'' @ r) = Some (Null, r)"
  "parse_value (Suc n) (''true'' @ r) = Some (Bool True, r)"
  "parse_value (Suc n) (''false'' @ r) = Some (Bool False, r)"
  by (simp_all add: numeral_eq_Suc)

lemma parse_brackets:
  "c \<noteq> CHR '']'' \<Longrightarrow> skip s = c # s' \<Longrightarrow> parse_value (Suc n) (CHR ''['' # s) = map_option (\<lambda>(xs, r). (Arr xs, r)) (parse_elems n s)"
  "d \<noteq> CHR ''}'' \<Longrightarrow> skip s = d # s' \<Longrightarrow> parse_value (Suc n) (CHR ''{'' # s) = map_option (\<lambda>(ms, r). (Obj ms, r)) (parse_mems n s)"
  by simp_all

lemma skip_val: "val_text v t \<Longrightarrow> ws w \<Longrightarrow> skip (w @ t @ r) = t @ r"
  using val_text_head by fastforce

lemma parse_complete:
  "val_text v t \<Longrightarrow> \<forall>n r. length t < n \<longrightarrow> delimited r \<longrightarrow> parse_value n (t @ r) = Some (v, r)"
  "elems_text xs t \<Longrightarrow> \<forall>n r. length t + 1 < n \<longrightarrow> parse_elems n (t @ CHR '']'' # r) = Some (xs, r)"
  "mems_text ms t \<Longrightarrow> \<forall>n r. length t + 1 < n \<longrightarrow> parse_mems n (t @ CHR ''}'' # r) = Some (ms, r)"
proof (induction rule: val_text_elems_text_mems_text.inducts)
  case val_null
  show ?case using parse_literals(1) by (metis gr0_conv_Suc less_nat_zero_code neq0_conv)
next
  case val_true
  show ?case using parse_literals(2) by (metis gr0_conv_Suc less_nat_zero_code neq0_conv)
next
  case val_false
  show ?case using parse_literals(3) by (metis gr0_conv_Suc less_nat_zero_code neq0_conv)
next
  case (val_num s)
  then show ?case using parse_number by (metis gr0_conv_Suc less_nat_zero_code neq0_conv)
next
  case (val_str "is" s)
  show ?case
  proof (intro allI impI)
    fix n r
    assume "length (quote # s @ [quote]) < n"
    then obtain m where "n = Suc m" by (cases n) auto
    then show "parse_value n ((quote # s @ [quote]) @ r) = Some (Str is, r)" using str_text_parse [OF val_str] by simp
  qed
next
  case (val_arr0 w)
  show ?case
  proof (intro allI impI)
    fix n r
    assume "length (CHR ''['' # w @ '']'') < n"
    then obtain m where "n = Suc m" by (cases n) auto
    then show "parse_value n ((CHR ''['' # w @ '']'') @ r) = Some (Arr [], r)" using val_arr0 by simp
  qed
next
  case (val_arr xs s)
  show ?case
  proof (intro allI impI)
    fix n r
    assume l: "length (CHR ''['' # s @ '']'') < n"
    then obtain m where n: "n = Suc m" by (cases n) auto
    obtain c s' where "skip (s @ CHR '']'' # r) = c # s'" "c \<noteq> CHR '']''" using elems_text_head [OF val_arr(1)] by auto
    then show "parse_value n ((CHR ''['' # s @ '']'') @ r) = Some (Arr xs, r)"
      using parse_brackets(1) [of c "s @ CHR '']'' # r" s' m] val_arr(2) l n by simp
  qed
next
  case (val_obj0 w)
  show ?case
  proof (intro allI impI)
    fix n r
    assume "length (CHR ''{'' # w @ ''}'') < n"
    then obtain m where "n = Suc m" by (cases n) auto
    then show "parse_value n ((CHR ''{'' # w @ ''}'') @ r) = Some (Obj [], r)" using val_obj0 by simp
  qed
next
  case (val_obj ms s)
  show ?case
  proof (intro allI impI)
    fix n r
    assume l: "length (CHR ''{'' # s @ ''}'') < n"
    then obtain m where n: "n = Suc m" by (cases n) auto
    obtain s' where "skip (s @ CHR ''}'' # r) = quote # s'" using mems_text_head [OF val_obj(1)] by auto
    then show "parse_value n ((CHR ''{'' # s @ ''}'') @ r) = Some (Obj ms, r)"
      using parse_brackets(2) [of quote "s @ CHR ''}'' # r" s' m] val_obj(2) l n by simp
  qed
next
  case (elem_one x s w w')
  show ?case
  proof (intro allI impI)
    fix n r
    assume l: "length (w @ s @ w') + 1 < n"
    then obtain m where n: "n = Suc m" by (cases n) auto
    have "parse_value m (s @ w' @ CHR '']'' # r) = Some (x, w' @ CHR '']'' # r)" using elem_one l n by simp
    then show "parse_elems n ((w @ s @ w') @ CHR '']'' # r) = Some ([x], r)"
      using skip_val [OF elem_one(1,2)] elem_one(3) by (simp add: n)
  qed
next
  case (elem_more x s w w' xs t)
  show ?case
  proof (intro allI impI)
    fix n r
    assume l: "length (w @ s @ w' @ CHR '','' # t) + 1 < n"
    then obtain m where n: "n = Suc m" by (cases n) auto
    have "parse_value m (s @ w' @ CHR '','' # t @ CHR '']'' # r) = Some (x, w' @ CHR '','' # t @ CHR '']'' # r)"
      using elem_more l n by simp
    moreover have "parse_elems m (t @ CHR '']'' # r) = Some (xs, r)" using elem_more l n by simp
    ultimately show "parse_elems n ((w @ s @ w' @ CHR '','' # t) @ CHR '']'' # r) = Some (x # xs, r)"
      using skip_val [OF elem_more(1,2)] elem_more(3) by (simp add: n)
  qed
next
  case (mem_one k t w w1 x s w2 w3)
  show ?case
  proof (intro allI impI)
    fix n r
    assume l: "length (w @ quote # t @ quote # w1 @ CHR '':'' # w2 @ s @ w3) + 1 < n"
    then obtain m where n: "n = Suc m" by (cases n) auto
    have "parse_value m (s @ w3 @ CHR ''}'' # r) = Some (x, w3 @ CHR ''}'' # r)" using mem_one l n by simp
    then show "parse_mems n ((w @ quote # t @ quote # w1 @ CHR '':'' # w2 @ s @ w3) @ CHR ''}'' # r) = Some ([(k, x)], r)"
      using skip_val [OF mem_one(4) mem_one(5)] mem_one str_text_parse [OF mem_one(1)] by (simp add: n)
  qed
next
  case (mem_more k t w w1 x s w2 w3 ms u)
  show ?case
  proof (intro allI impI)
    fix n r
    assume l: "length (w @ quote # t @ quote # w1 @ CHR '':'' # w2 @ s @ w3 @ CHR '','' # u) + 1 < n"
    then obtain m where n: "n = Suc m" by (cases n) auto
    have "parse_value m (s @ w3 @ CHR '','' # u @ CHR ''}'' # r) = Some (x, w3 @ CHR '','' # u @ CHR ''}'' # r)"
      using mem_more l n by simp
    moreover have "parse_mems m (u @ CHR ''}'' # r) = Some (ms, r)" using mem_more l n by simp
    ultimately show "parse_mems n ((w @ quote # t @ quote # w1 @ CHR '':'' # w2 @ s @ w3 @ CHR '','' # u) @ CHR ''}'' # r) = Some ((k, x) # ms, r)"
      using skip_val [OF mem_more(4) mem_more(5)] mem_more str_text_parse [OF mem_more(1)] by (simp add: n)
  qed
qed

lemma parse_json_text:
  assumes "val_text v t" "ws w" "ws w'"
  shows "parse_json (w @ t @ w') = Some v"
proof -
  have "parse_value (length (w @ t @ w') + 1) (t @ w') = Some (v, w')"
    using parse_complete(1) [OF assms(1), rule_format, of "length (w @ t @ w') + 1" w'] delimited_ws [OF assms(3), of "[]"]
    by (simp del: parse_value.simps)
  then show ?thesis using skip_val [OF assms(1,2)] assms(3) by (simp add: parse_json_def del: parse_value.simps)
qed

end
