(* ===== verification/JsonBuilder.thy ===== *)
theory JsonBuilder
  imports Json
begin

text \<open>
  What an incremental JSON writer promises. The abstract builder is a stack of containers that are
  open; its operations add a value or open and close a container. The locale states how the
  text of a writer grows with each operation; inside it, every sequence of
  operations that the builder accepts is shown to leave a text of the document built. (A writer
  may have two operations that close an object, hence the flag of \<open>End_dict\<close>.)
\<close>

section \<open>The abstract builder\<close>

datatype frame = Members "(jitem list \<times> json) list" | Elems "json list"

type_synonym builder = "frame \<times> (jitem list option \<times> frame) list"

datatype 'v bop =
    Put "string option" 'v
  | Begin_dict "string option"
  | Begin_array "string option"
  | End_dict bool
  | End_array

fun add_item :: "jitem list option \<Rightarrow> json \<Rightarrow> frame \<Rightarrow> frame option" where
  "add_item (Some k) v (Members ms) = Some (Members (ms @ [(k, v)]))"
| "add_item None v (Elems xs) = Some (Elems (xs @ [v]))"
| "add_item _ _ _ = None"

fun accepts :: "jitem list option \<Rightarrow> frame \<Rightarrow> bool" where
  "accepts (Some k) (Members ms) = True"
| "accepts None (Elems xs) = True"
| "accepts _ _ = False"

fun no_items :: "frame \<Rightarrow> bool" where
  "no_items (Members ms) = (ms = [])"
| "no_items (Elems xs) = (xs = [])"

fun closed :: "frame \<Rightarrow> json" where
  "closed (Members ms) = Obj ms"
| "closed (Elems xs) = Arr xs"

fun build :: "(string \<Rightarrow> jitem list) \<Rightarrow> ('v \<Rightarrow> json) \<Rightarrow> 'v bop \<Rightarrow> builder \<Rightarrow> builder option" where
  "build key doc (Put k v) (f, outs) = map_option (\<lambda>f. (f, outs)) (add_item (map_option key k) (doc v) f)"
| "build key doc (Begin_dict k) (f, outs) =
     (if accepts (map_option key k) f then Some (Members [], (map_option key k, f) # outs) else None)"
| "build key doc (Begin_array k) (f, outs) =
     (if accepts (map_option key k) f then Some (Elems [], (map_option key k, f) # outs) else None)"
| "build key doc (End_dict b) (Members ms, (k, f) # outs) = map_option (\<lambda>f. (f, outs)) (add_item k (Obj ms) f)"
| "build key doc End_array (Elems xs, (k, f) # outs) = map_option (\<lambda>f. (f, outs)) (add_item k (Arr xs) f)"
| "build key doc _ _ = None"

fun build_all :: "(string \<Rightarrow> jitem list) \<Rightarrow> ('v \<Rightarrow> json) \<Rightarrow> 'v bop list \<Rightarrow> builder \<Rightarrow> builder option" where
  "build_all key doc [] b = Some b"
| "build_all key doc (x # xs) b = (case build key doc x b of None \<Rightarrow> None | Some b \<Rightarrow> build_all key doc xs b)"

section \<open>Texts of an open document\<close>

fun body_text :: "frame \<Rightarrow> string \<Rightarrow> bool" where
  "body_text (Members ms) t = (if ms = [] then ws t else mems_text ms t)"
| "body_text (Elems xs) t = (if xs = [] then ws t else elems_text xs t)"

definition comma :: "frame \<Rightarrow> string" where
  "comma f = (if no_items f then [] else '','')"

fun key_text :: "jitem list option \<Rightarrow> string \<Rightarrow> bool" where
  "key_text None t = (t = [])"
| "key_text (Some k) t = (\<exists>u w w'. t = quote # u @ quote # w @ CHR '':'' # w' \<and> str_text k u \<and> ws w \<and> ws w')"

inductive represents :: "builder \<Rightarrow> string \<Rightarrow> bool" where
  root: "body_text f t \<Longrightarrow> represents (f, []) t"
| in_dict: "represents (f, outs) s \<Longrightarrow> accepts k f \<Longrightarrow> ws w \<Longrightarrow> key_text k kt \<Longrightarrow> body_text (Members ms) t \<Longrightarrow>
    represents (Members ms, (k, f) # outs) (s @ comma f @ w @ kt @ CHR ''{'' # t)"
| in_array: "represents (f, outs) s \<Longrightarrow> accepts k f \<Longrightarrow> ws w \<Longrightarrow> key_text k kt \<Longrightarrow> body_text (Elems xs) t \<Longrightarrow>
    represents (Elems xs, (k, f) # outs) (s @ comma f @ w @ kt @ CHR ''['' # t)"

lemma elems_text_snoc: "elems_text xs t \<Longrightarrow> val_text x s \<Longrightarrow> ws w \<Longrightarrow> ws w' \<Longrightarrow> elems_text (xs @ [x]) (t @ CHR '','' # w @ s @ w')"
proof (induction xs arbitrary: t)
  case Nil
  then show ?case by (auto elim: elems_text.cases)
next
  case (Cons y ys)
  from Cons.prems(1) show ?case
  proof (cases rule: elems_text.cases)
    case (elem_one u v v')
    then show ?thesis using Cons.prems elem_more [of y u v v' "[x]" "w @ s @ w'"] by (simp add: val_text_elems_text_mems_text.elem_one)
  next
    case (elem_more u v v' r)
    then show ?thesis using Cons.IH [of r] Cons.prems val_text_elems_text_mems_text.elem_more [of y u v v' "ys @ [x]"] by simp
  qed
qed

lemma elems_text_ws: "elems_text xs t \<Longrightarrow> ws w \<Longrightarrow> elems_text xs (t @ w)"
proof (induction xs arbitrary: t)
  case Nil
  then show ?case by (auto elim: elems_text.cases)
next
  case (Cons y ys)
  from Cons.prems(1) show ?case
  proof (cases rule: elems_text.cases)
    case (elem_one u v v')
    then show ?thesis using Cons.prems(2) val_text_elems_text_mems_text.elem_one [of y u v "v' @ w"] by simp
  next
    case (elem_more u v v' r)
    then show ?thesis using Cons.IH [of r] Cons.prems(2) val_text_elems_text_mems_text.elem_more [of y u v v' ys "r @ w"] by simp
  qed
qed

lemma mems_text_snoc:
  "mems_text ms t \<Longrightarrow> mems_text [(k, x)] u \<Longrightarrow> mems_text (ms @ [(k, x)]) (t @ CHR '','' # u)"
proof (induction ms arbitrary: t)
  case Nil
  then show ?case by (auto elim: mems_text.cases)
next
  case (Cons m ms)
  from Cons.prems(1) show ?case
  proof (cases rule: mems_text.cases)
    case (mem_one k' t' w w1 y s w2 w3)
    then show ?thesis using Cons.prems(2) val_text_elems_text_mems_text.mem_more [of k' t' w w1 y s w2 w3 "[(k, x)]" u] by simp
  next
    case (mem_more k' t' w w1 y s w2 w3 r)
    then show ?thesis
      using Cons.IH [of r] Cons.prems(2) val_text_elems_text_mems_text.mem_more [of k' t' w w1 y s w2 w3 "ms @ [(k, x)]"] by simp
  qed
qed

lemma mems_text_ws: "mems_text ms t \<Longrightarrow> ws w \<Longrightarrow> mems_text ms (t @ w)"
proof (induction ms arbitrary: t)
  case Nil
  then show ?case by (auto elim: mems_text.cases)
next
  case (Cons m ms)
  from Cons.prems(1) show ?case
  proof (cases rule: mems_text.cases)
    case (mem_one k' t' v w1 y s w2 w3)
    then show ?thesis using Cons.prems(2) val_text_elems_text_mems_text.mem_one [of k' t' v w1 y s w2 "w3 @ w"] by simp
  next
    case (mem_more k' t' v w1 y s w2 w3 r)
    then show ?thesis
      using Cons.IH [of r] Cons.prems(2) val_text_elems_text_mems_text.mem_more [of k' t' v w1 y s w2 w3 ms "r @ w"] by simp
  qed
qed

lemma body_text_ws: "body_text f t \<Longrightarrow> ws w \<Longrightarrow> body_text f (t @ w)"
  by (cases f) (auto simp: mems_text_ws elems_text_ws)

lemma body_text_add:
  assumes "body_text f t" "add_item k v f = Some f'" "val_text v s" "key_text k kt" "ws w" "ws w'"
  shows "body_text f' (t @ comma f @ w @ kt @ s @ w')"
proof (cases f)
  case (Elems xs)
  then have f': "k = None" "f' = Elems (xs @ [v])" "kt = []" using assms(2,4) by (cases k; auto)+
  show ?thesis
  proof (cases "xs = []")
    case True
    then show ?thesis using Elems f' assms elem_one [of v s "t @ w" w'] by (simp add: comma_def)
  next
    case False
    then show ?thesis using Elems f' assms elems_text_snoc [of xs t v s w w'] by (simp add: comma_def)
  qed
next
  case (Members ms)
  then obtain k' where k: "k = Some k'" "f' = Members (ms @ [(k', v)])" using assms(2) by (cases k) auto
  then obtain u w1 w2 where kt: "kt = quote # u @ quote # w1 @ CHR '':'' # w2" "str_text k' u" "ws w1" "ws w2"
    using assms(4) by auto
  show ?thesis
  proof (cases "ms = []")
    case True
    then show ?thesis using Members k kt assms mem_one [of k' u "t @ w" w1 v s w2 w'] by (simp add: comma_def)
  next
    case False
    then show ?thesis using Members k kt assms mems_text_snoc [OF _ mem_one [of k' u w w1 v s w2 w']] by (simp add: comma_def)
  qed
qed

lemma add_item_kind: "add_item k v f = Some f' \<Longrightarrow> (\<exists>ms. f = Members ms) = (\<exists>ms. f' = Members ms) \<and> \<not> no_items f'"
  by (induction k v f rule: add_item.induct) auto

lemma accepts_add: "accepts k f \<Longrightarrow> \<exists>f'. add_item k v f = Some f'"
  by (induction k f rule: accepts.induct) auto

lemma represents_append:
  assumes "represents (f, outs) s" "\<And>t. body_text f t \<Longrightarrow> body_text f' (t @ x)"
    "(\<exists>ms. f = Members ms) = (\<exists>ms. f' = Members ms)"
  shows "represents (f', outs) (s @ x)"
  using assms(1)
proof (cases rule: represents.cases)
  case root
  then show ?thesis using assms(2) represents.root by simp
next
  case (in_dict g outs' s' k w kt ms t)
  then obtain ms' where "f' = Members ms'" using assms(3) by auto
  then show ?thesis using in_dict assms(2) [of t] represents.in_dict [of g outs' s' k w kt ms' "t @ x"] by (simp del: body_text.simps)
next
  case (in_array g outs' s' k w kt xs t)
  then obtain xs' where "f' = Elems xs'" using assms(3) by (cases f') auto
  then show ?thesis using in_array assms(2) [of t] represents.in_array [of g outs' s' k w kt xs' "t @ x"] by (simp del: body_text.simps)
qed

lemma represents_put:
  assumes "represents (f, outs) s" "add_item k v f = Some f'" "val_text v t" "key_text k kt" "ws w" "ws w'"
  shows "represents (f', outs) (s @ comma f @ w @ kt @ t @ w')"
  by (rule represents_append [OF assms(1)]) (use assms add_item_kind [OF assms(2)] body_text_add in blast)+

lemma closed_text: "body_text (Members ms) t \<Longrightarrow> val_text (Obj ms) (CHR ''{'' # t @ ''}'')"
  "body_text (Elems xs) t \<Longrightarrow> val_text (Arr xs) (CHR ''['' # t @ '']'')"
  by (auto intro: val_text_elems_text_mems_text.intros split: if_splits)

lemma represents_end_dict:
  assumes "represents (Members ms, (k, f) # outs) s" "add_item k (Obj ms) f = Some f'" "ws w" "ws w'"
  shows "represents (f', outs) (s @ w @ CHR ''}'' # w')"
proof -
  obtain s0 v kt t where r: "represents (f, outs) s0" "ws v" "key_text k kt" "body_text (Members ms) t"
    and s: "s = s0 @ comma f @ v @ kt @ CHR ''{'' # t"
    using assms(1) by (cases rule: represents.cases) auto
  have "val_text (Obj ms) (CHR ''{'' # (t @ w) @ ''}'')" using body_text_ws [OF r(4) assms(3)] by (rule closed_text)
  from represents_put [OF r(1) assms(2) this r(3) r(2) assms(4)] show ?thesis by (simp add: s)
qed

lemma represents_end_array:
  assumes "represents (Elems xs, (k, f) # outs) s" "add_item k (Arr xs) f = Some f'" "ws w" "ws w'"
  shows "represents (f', outs) (s @ w @ CHR '']'' # w')"
proof -
  obtain s0 v kt t where r: "represents (f, outs) s0" "ws v" "key_text k kt" "body_text (Elems xs) t"
    and s: "s = s0 @ comma f @ v @ kt @ CHR ''['' # t"
    using assms(1) by (cases rule: represents.cases) auto
  have "val_text (Arr xs) (CHR ''['' # (t @ w) @ '']'')" using body_text_ws [OF r(4) assms(3)] by (rule closed_text)
  from represents_put [OF r(1) assms(2) this r(3) r(2) assms(4)] show ?thesis by (simp add: s)
qed

text \<open>The outermost container keeps its kind.\<close>

fun outermost :: "builder \<Rightarrow> frame" where
  "outermost (f, outs) = (case rev outs of [] \<Rightarrow> f | (k, g) # _ \<Rightarrow> g)"

fun is_array :: "frame \<Rightarrow> bool" where
  "is_array (Elems xs) = True"
| "is_array (Members ms) = False"

lemma add_item_same_kind: "add_item k v f = Some f' \<Longrightarrow> is_array f' = is_array f"
  by (induction k v f rule: add_item.induct) auto

lemma build_kind: "build key doc x b = Some b' \<Longrightarrow> is_array (outermost b') = is_array (outermost b)"
  by (induction key doc x b rule: build.induct) (auto split: if_splits list.splits simp: add_item_same_kind)

lemma build_all_kind: "build_all key doc xs b = Some b' \<Longrightarrow> is_array (outermost b') = is_array (outermost b)"
proof (induction xs arbitrary: b)
  case (Cons x xs)
  then obtain c where "build key doc x b = Some c" "build_all key doc xs c = Some b'" by (auto split: option.splits)
  then show ?case using Cons.IH build_kind by metis
qed simp

section \<open>Writers\<close>

locale json_writer =
  fixes step :: "'v bop \<Rightarrow> 's \<Rightarrow> 's"
    and text_of :: "'s \<Rightarrow> string"
    and fresh :: "'s \<Rightarrow> bool"
    and key :: "string \<Rightarrow> jitem list"
    and doc :: "'v \<Rightarrow> json"
    and supported :: "'v bop \<Rightarrow> bool"
  assumes put: "supported (Put k v) \<Longrightarrow>
      \<exists>w kt t. text_of (step (Put k v) s) = text_of s @ (if fresh s then [] else '','') @ w @ kt @ t \<and> ws w \<and>
        key_text (map_option key k) kt \<and> val_text (doc v) t \<and> \<not> fresh (step (Put k v) s)"
    and begin_dict: "supported (Begin_dict k) \<Longrightarrow>
      \<exists>w kt. text_of (step (Begin_dict k) s) = text_of s @ (if fresh s then [] else '','') @ w @ kt @ ''{'' \<and> ws w \<and>
        key_text (map_option key k) kt \<and> fresh (step (Begin_dict k) s)"
    and begin_array: "supported (Begin_array k) \<Longrightarrow>
      \<exists>w kt. text_of (step (Begin_array k) s) = text_of s @ (if fresh s then [] else '','') @ w @ kt @ ''['' \<and> ws w \<and>
        key_text (map_option key k) kt \<and> fresh (step (Begin_array k) s)"
    and end_dict: "supported (End_dict b) \<Longrightarrow>
      \<exists>w w'. text_of (step (End_dict b) s) = text_of s @ w @ CHR ''}'' # w' \<and> ws w \<and> ws w' \<and> \<not> fresh (step (End_dict b) s)"
    and end_array: "supported End_array \<Longrightarrow>
      \<exists>w w'. text_of (step End_array s) = text_of s @ w @ CHR '']'' # w' \<and> ws w \<and> ws w' \<and> \<not> fresh (step End_array s)"
begin

definition refines :: "builder \<Rightarrow> 's \<Rightarrow> bool" where
  "refines b s = (represents b (text_of s) \<and> fresh s = no_items (fst b))"

lemma refines_step:
  assumes "refines b s" "supported x" "build key doc x b = Some b'"
  shows "refines b' (step x s)"
proof -
  obtain f outs where b: "b = (f, outs)" by (cases b)
  have r: "represents (f, outs) (text_of s)" and c: "(if fresh s then [] else '','') = comma f"
    using assms(1) by (simp_all add: refines_def b comma_def)
  show ?thesis
  proof (cases x)
    case (Put k v)
    obtain f' where f': "add_item (map_option key k) (doc v) f = Some f'" "b' = (f', outs)"
      using assms(3) by (auto simp: b Put)
    show ?thesis using put [of k v s] assms(2) represents_put [OF r f'(1)] add_item_kind [OF f'(1)]
      by (fastforce simp: refines_def Put f'(2) c dest: represents_put [OF r f'(1), where w' = "[]"])
  next
    case (Begin_dict k)
    have b': "b' = (Members [], (map_option key k, f) # outs)" "accepts (map_option key k) f"
      using assms(3) by (auto simp: b Begin_dict split: if_splits)
    show ?thesis using begin_dict [of k s] assms(2) in_dict [OF r b'(2), where t = "[]"]
      by (fastforce simp: refines_def Begin_dict b'(1) c)
  next
    case (Begin_array k)
    have b': "b' = (Elems [], (map_option key k, f) # outs)" "accepts (map_option key k) f"
      using assms(3) by (auto simp: b Begin_array split: if_splits)
    show ?thesis using begin_array [of k s] assms(2) in_array [OF r b'(2), where t = "[]"]
      by (fastforce simp: refines_def Begin_array b'(1) c)
  next
    case (End_dict e)
    obtain ms k g outs' where f: "f = Members ms" "outs = (k, g) # outs'"
      using assms(3) by (auto simp: b End_dict elim: build.elims)
    then obtain g' where g': "add_item k (Obj ms) g = Some g'" "b' = (g', outs')" using assms(3) by (auto simp: b End_dict)
    show ?thesis using end_dict [of e s] assms(2) represents_end_dict [OF r [unfolded f] g'(1)] add_item_kind [OF g'(1)]
      by (fastforce simp: refines_def End_dict g'(2))
  next
    case End_array
    obtain xs k g outs' where f: "f = Elems xs" "outs = (k, g) # outs'"
      using assms(3) by (auto simp: b End_array elim: build.elims)
    then obtain g' where g': "add_item k (Arr xs) g = Some g'" "b' = (g', outs')" using assms(3) by (auto simp: b End_array)
    show ?thesis using end_array [of s] assms(2) represents_end_array [OF r [unfolded f] g'(1)] add_item_kind [OF g'(1)]
      by (fastforce simp: refines_def End_array g'(2))
  qed
qed

lemma refines_all:
  "refines b s \<Longrightarrow> list_all supported xs \<Longrightarrow> build_all key doc xs b = Some b' \<Longrightarrow> refines b' (fold step xs s)"
  by (induction xs arbitrary: b s) (auto split: option.splits intro: refines_step)

end

end
