(* ===== verification/TracedValue.thy ===== *)
theory TracedValue
  imports CText JsonBuilder
begin

text \<open>
  The writer of trace arguments, src/src/tracing/traced_value.cc. A \<open>char\<close> is signed, as
  on the supported platforms. The text that a stream prints for a finite, non-zero
  double is part of the value.
\<close>

section \<open>Numbers and strings\<close>

definition hex_upper :: "nat \<Rightarrow> char" where
  "hex_upper n = (if n < 10 then char_of (48 + n) else char_of (55 + n))"

text \<open>\<open>snprintf\<close> with the format \<open>%04X\<close>, of a number below 256.\<close>

definition printf_04X :: "nat \<Rightarrow> string" where
  "printf_04X n = [CHR ''0'', CHR ''0'', hex_upper (n div 16), hex_upper (n mod 16)]"

definition escape_char :: "char \<Rightarrow> string" where
  "escape_char c =
     (if c = CHR 0x08 then [backslash, CHR ''b'']
      else if c = CHR 0x0C then [backslash, CHR ''f'']
      else if c = CHR 0x0A then [backslash, CHR ''n'']
      else if c = CHR 0x0D then [backslash, CHR ''r'']
      else if c = CHR 0x09 then [backslash, CHR ''t'']
      else if c = backslash then [backslash, backslash]
      else if c = quote then [backslash, quote]
      else if signed_char c < 0x20 then backslash # CHR ''u'' # printf_04X (of_char c)
      else [c])"

fun escape_loop :: "string \<Rightarrow> string" where
  "escape_loop [] = []"
| "escape_loop (c # value) = (if c = CHR 0x00 then [] else escape_char c @ escape_loop value)"

definition EscapeString :: "string \<Rightarrow> string" where
  "EscapeString value = [quote] @ escape_loop value @ [quote]"

datatype double = FP_NAN | FP_INFINITE bool | FP_ZERO | FP_OTHER string

definition DoubleToCString :: "double \<Rightarrow> string" where
  "DoubleToCString v =
     (case v of
        FP_NAN \<Rightarrow> [quote] @ ''NaN'' @ [quote]
      | FP_INFINITE negative \<Rightarrow>
          (if negative then [quote] @ ''-Infinity'' @ [quote] else [quote] @ ''Infinity'' @ [quote])
      | FP_ZERO \<Rightarrow> ''0''
      | FP_OTHER shown \<Rightarrow> shown)"

section \<open>The writer\<close>

record TracedValue =
  tv_data :: string
  tv_first_item :: bool
  tv_root_is_array :: bool

definition TracedValue_new :: "bool \<Rightarrow> TracedValue" where
  "TracedValue_new root_is_array = \<lparr>tv_data = [], tv_first_item = True, tv_root_is_array = root_is_array\<rparr>"

definition Create :: TracedValue where
  "Create = TracedValue_new False"

definition CreateArray :: TracedValue where
  "CreateArray = TracedValue_new True"

definition tv_append :: "string \<Rightarrow> TracedValue \<Rightarrow> TracedValue" where
  "tv_append s tv = tv\<lparr>tv_data := tv_data tv @ s\<rparr>"

definition WriteComma :: "TracedValue \<Rightarrow> TracedValue" where
  "WriteComma tv = (if tv_first_item tv then tv\<lparr>tv_first_item := False\<rparr> else tv_append '','' tv)"

definition WriteName :: "string \<Rightarrow> TracedValue \<Rightarrow> TracedValue" where
  "WriteName name tv = tv_append [quote, CHR '':''] (tv_append (c_string name) (tv_append [quote] (WriteComma tv)))"

definition SetInteger :: "string \<Rightarrow> int \<Rightarrow> TracedValue \<Rightarrow> TracedValue" where
  "SetInteger name value tv = tv_append (to_string value) (WriteName name tv)"

definition SetDouble :: "string \<Rightarrow> double \<Rightarrow> TracedValue \<Rightarrow> TracedValue" where
  "SetDouble name value tv = tv_append (DoubleToCString value) (WriteName name tv)"

definition SetBoolean :: "string \<Rightarrow> bool \<Rightarrow> TracedValue \<Rightarrow> TracedValue" where
  "SetBoolean name value tv = tv_append (if value then ''true'' else ''false'') (WriteName name tv)"

definition SetNull :: "string \<Rightarrow> TracedValue \<Rightarrow> TracedValue" where
  "SetNull name tv = tv_append ''null'' (WriteName name tv)"

definition SetString :: "string \<Rightarrow> string \<Rightarrow> TracedValue \<Rightarrow> TracedValue" where
  "SetString name value tv = tv_append (EscapeString value) (WriteName name tv)"

definition BeginDictionary_named :: "string \<Rightarrow> TracedValue \<Rightarrow> TracedValue" where
  "BeginDictionary_named name tv = (tv_append ''{'' (WriteName name tv))\<lparr>tv_first_item := True\<rparr>"

definition BeginArray_named :: "string \<Rightarrow> TracedValue \<Rightarrow> TracedValue" where
  "BeginArray_named name tv = (tv_append ''['' (WriteName name tv))\<lparr>tv_first_item := True\<rparr>"

definition AppendInteger :: "int \<Rightarrow> TracedValue \<Rightarrow> TracedValue" where
  "AppendInteger value tv = tv_append (to_string value) (WriteComma tv)"

definition AppendDouble :: "double \<Rightarrow> TracedValue \<Rightarrow> TracedValue" where
  "AppendDouble value tv = tv_append (DoubleToCString value) (WriteComma tv)"

definition AppendBoolean :: "bool \<Rightarrow> TracedValue \<Rightarrow> TracedValue" where
  "AppendBoolean value tv = tv_append (if value then ''true'' else ''false'') (WriteComma tv)"

definition AppendNull :: "TracedValue \<Rightarrow> TracedValue" where
  "AppendNull tv = tv_append ''null'' (WriteComma tv)"

definition AppendString :: "string \<Rightarrow> TracedValue \<Rightarrow> TracedValue" where
  "AppendString value tv = tv_append (EscapeString value) (WriteComma tv)"

definition BeginDictionary :: "TracedValue \<Rightarrow> TracedValue" where
  "BeginDictionary tv = (tv_append ''{'' (WriteComma tv))\<lparr>tv_first_item := True\<rparr>"

definition BeginArray :: "TracedValue \<Rightarrow> TracedValue" where
  "BeginArray tv = (tv_append ''['' (WriteComma tv))\<lparr>tv_first_item := True\<rparr>"

definition EndDictionary :: "TracedValue \<Rightarrow> TracedValue" where
  "EndDictionary tv = (tv_append ''}'' tv)\<lparr>tv_first_item := False\<rparr>"

definition EndArray :: "TracedValue \<Rightarrow> TracedValue" where
  "EndArray tv = (tv_append '']'' tv)\<lparr>tv_first_item := False\<rparr>"

definition AppendAsTraceFormat :: "string \<Rightarrow> TracedValue \<Rightarrow> string" where
  "AppendAsTraceFormat out tv =
     out @ (if tv_root_is_array tv then ''['' else ''{'') @ tv_data tv @ (if tv_root_is_array tv then '']'' else ''}'')"

text \<open>The calls a client makes, as operations of the builder.\<close>

datatype traced_scalar = T_Integer int | T_Double double | T_Boolean bool | T_Null | T_String string

fun traced_call :: "traced_scalar bop \<Rightarrow> TracedValue \<Rightarrow> TracedValue" where
  "traced_call (Put (Some name) v) =
     (case v of T_Integer n \<Rightarrow> SetInteger name n | T_Double d \<Rightarrow> SetDouble name d | T_Boolean b \<Rightarrow> SetBoolean name b
        | T_Null \<Rightarrow> SetNull name | T_String s \<Rightarrow> SetString name s)"
| "traced_call (Put None v) =
     (case v of T_Integer n \<Rightarrow> AppendInteger n | T_Double d \<Rightarrow> AppendDouble d | T_Boolean b \<Rightarrow> AppendBoolean b
        | T_Null \<Rightarrow> AppendNull | T_String s \<Rightarrow> AppendString s)"
| "traced_call (Begin_dict (Some name)) = BeginDictionary_named name"
| "traced_call (Begin_dict None) = BeginDictionary"
| "traced_call (Begin_array (Some name)) = BeginArray_named name"
| "traced_call (Begin_array None) = BeginArray"
| "traced_call (End_dict _) = EndDictionary"
| "traced_call End_array = EndArray"

section \<open>Refinement\<close>

text \<open>
  The document a scalar stands for. A byte above 127 is escaped as if it were a
  Latin-1 character, so that the reader sees that code point, not the byte.
\<close>

definition traced_item :: "char \<Rightarrow> jitem" where
  "traced_item c = code_item (of_char c)"

definition traced_doc :: "traced_scalar \<Rightarrow> json" where
  "traced_doc v =
     (case v of
        T_Integer n \<Rightarrow> Num (to_string n)
      | T_Double d \<Rightarrow>
          (case d of
             FP_NAN \<Rightarrow> Str (map Byte ''NaN'')
           | FP_INFINITE negative \<Rightarrow> Str (map Byte (if negative then ''-Infinity'' else ''Infinity''))
           | FP_ZERO \<Rightarrow> Num ''0''
           | FP_OTHER shown \<Rightarrow> Num shown)
      | T_Boolean b \<Rightarrow> Bool b
      | T_Null \<Rightarrow> Null
      | T_String s \<Rightarrow> Str (map traced_item (c_string s)))"

definition quoted_name :: "string \<Rightarrow> bool" where
  "quoted_name s = list_all (\<lambda>c. 32 \<le> (of_char c :: nat) \<and> c \<noteq> quote \<and> c \<noteq> backslash) s"

fun traced_supported :: "traced_scalar bop \<Rightarrow> bool" where
  "traced_supported (Put k v) =
     ((case k of None \<Rightarrow> True | Some k \<Rightarrow> quoted_name k) \<and>
      (case v of T_Double (FP_OTHER shown) \<Rightarrow> json_number shown | _ \<Rightarrow> True))"
| "traced_supported (Begin_dict k) = (case k of None \<Rightarrow> True | Some k \<Rightarrow> quoted_name k)"
| "traced_supported (Begin_array k) = (case k of None \<Rightarrow> True | Some k \<Rightarrow> quoted_name k)"
| "traced_supported _ = True"

lemma nat_text_digits: "digits (nat_text n)"
proof (induction n rule: nat_text.induct)
  case (1 n)
  have d: "digit (digit_char k)" if "k < 10" for k using that by (simp add: digit_def digit_char_def)
  show ?case by (subst nat_text.simps) (use 1 d in \<open>auto simp: digits_def\<close>)
qed

lemma nat_text_head: "n = 0 \<and> nat_text n = ''0'' \<or> n \<noteq> 0 \<and> hd (nat_text n) \<noteq> CHR ''0''"
proof (induction n rule: nat_text.induct)
  case (1 n)
  show ?case
  proof (cases "n < 10")
    case True
    have "digit_char n = CHR ''0'' \<longleftrightarrow> n = 0"
    proof
      assume "digit_char n = CHR ''0''"
      then have "(of_char (digit_char n) :: nat) = 48" by simp
      then show "n = 0" using True by (simp add: digit_char_def)
    qed (simp add: digit_char_def char_of_def bit_0)
    then show ?thesis using True by (auto simp: nat_text.simps [of n])
  next
    case False
    then have "nat_text n = nat_text (n div 10) @ [digit_char (n mod 10)]" by (simp add: nat_text.simps [of n])
    moreover have "nat_text (n div 10) \<noteq> []" using nat_text_digits [of "n div 10"] by (simp add: digits_def)
    ultimately show ?thesis using 1 [OF False] False by auto
  qed
qed

lemma unsigned_nat_text: "unsigned_number (nat_text n)"
proof -
  have a: "list_all digit (nat_text n)" "nat_text n \<noteq> []" using nat_text_digits [of n] by (simp_all add: digits_def)
  then have t: "takeWhile digit (nat_text n) = nat_text n" "dropWhile digit (nat_text n) = []"
    by (simp_all add: list_all_iff)
  show ?thesis unfolding unsigned_number_def frac_part_def t Let_def using a(2) nat_text_head [of n] by auto
qed

lemma json_number_to_string: "json_number (to_string n)"
proof -
  obtain c r where t: "nat_text (nat n) = c # r" "digit c" using unsigned_number_head [OF unsigned_nat_text] by blast
  then have "c \<noteq> CHR ''-''" by (auto simp: digit_def)
  then show ?thesis using t(1) unsigned_nat_text by (auto simp: to_string_def json_number_def split: list.split) (metis unsigned_nat_text)
qed

lemma hex_upper_value: "n < 16 \<Longrightarrow> hex_value (hex_upper n) = Some n"
  by (auto simp: hex_upper_def hex_value_def)

lemma printf_04X_value: "n < 256 \<Longrightarrow> \<exists>a b c d. printf_04X n = [a, b, c, d] \<and> hex4 a b c d = Some n"
  using hex_upper_value [of "n div 16"] hex_upper_value [of "n mod 16"]
  by (simp add: printf_04X_def hex4_def hex_value_def)

lemma code_item_char: "(of_char c :: nat) < 128 \<Longrightarrow> code_item (of_char c) = Byte c"
  by (simp add: code_item_def)

lemma char_256: "(of_char c :: nat) < 256"
  by (metis of_char_mod_256 mod_less_divisor zero_less_numeral)

lemma signed_char_control: "signed_char c < 0x20 \<longleftrightarrow> (of_char c :: nat) < 32 \<or> 128 \<le> (of_char c :: nat)"
proof -
  define n :: nat where "n = of_char c"
  have "n < 256" unfolding n_def by (rule char_256)
  then show ?thesis unfolding signed_char_def Let_def n_def [symmetric] by auto
qed

lemma escape_char_text:
  assumes "str_text is s"
  shows "str_text (traced_item c # is) (escape_char c @ s)"
proof -
  consider e where "simple_escape e = Some c" "escape_char c = [backslash, e]" "(of_char c :: nat) < 128"
    | "escape_char c = backslash # CHR ''u'' # printf_04X (of_char c)"
    | "escape_char c = [c]" "32 \<le> (of_char c :: nat)" "c \<noteq> quote" "c \<noteq> backslash" "(of_char c :: nat) < 128"
  proof (cases "c \<in> {CHR 0x08, CHR 0x0C, CHR 0x0A, CHR 0x0D, CHR 0x09, backslash, quote}")
    case True
    then have "\<exists>e. escape_char c = [backslash, e] \<and> simple_escape e = Some c \<and> (of_char c :: nat) < 128"
      by (elim insertE) (simp_all add: escape_char_def simple_escape_def)
    then show ?thesis using that(1) by blast
  next
    case False
    then show ?thesis using that(2,3) by (cases "signed_char c < 0x20") (auto simp: escape_char_def signed_char_control)
  qed
  then show ?thesis
  proof cases
    case (1 e)
    then show ?thesis using assms str_escape [of e c] by (simp add: traced_item_def code_item_char)
  next
    case 2
    have "(of_char c :: nat) < 256" by (rule char_256)
    then obtain x y z w where h: "printf_04X (of_char c) = [x, y, z, w]" "hex4 x y z w = Some (of_char c)"
      using printf_04X_value [of "of_char c"] by blast
    show ?thesis using str_hex [OF h(2) assms] by (simp add: traced_item_def 2 h(1))
  next
    case 3
    then show ?thesis using assms str_raw [of c] by (simp add: traced_item_def code_item_char)
  qed
qed

lemma escape_loop_text: "str_text (map traced_item (c_string s)) (escape_loop s)"
  by (induction s) (auto simp: c_string_def intro: str_Nil escape_char_text)

lemma quoted_name_text: "quoted_name s \<Longrightarrow> str_text (map Byte s) s"
  by (induction s) (auto simp: quoted_name_def intro: str_Nil str_raw)

lemma printable_not_nul: "32 \<le> (of_char c :: nat) \<Longrightarrow> c \<noteq> CHR 0x00"
  by (cases "c = CHR 0x00") simp_all

lemma quoted_name_c_string: "quoted_name s \<Longrightarrow> c_string s = s"
proof (induction s)
  case (Cons c s)
  then show ?case using printable_not_nul [of c] unfolding quoted_name_def c_string_def by simp
qed (simp add: c_string_def)

text \<open>The text that a call adds for the value, and for the name in front of it.\<close>

definition shown_value :: "traced_scalar \<Rightarrow> string" where
  "shown_value v =
     (case v of T_Integer n \<Rightarrow> to_string n | T_Double d \<Rightarrow> DoubleToCString d | T_Boolean b \<Rightarrow> if b then ''true'' else ''false''
        | T_Null \<Rightarrow> ''null'' | T_String s \<Rightarrow> EscapeString s)"

definition shown_name :: "string option \<Rightarrow> string" where
  "shown_name k = (case k of None \<Rightarrow> [] | Some k \<Rightarrow> [quote] @ c_string k @ [quote, CHR '':''])"

lemmas traced_defs = tv_append_def WriteComma_def WriteName_def SetInteger_def SetDouble_def SetBoolean_def SetNull_def
  SetString_def BeginDictionary_named_def BeginArray_named_def AppendInteger_def AppendDouble_def AppendBoolean_def
  AppendNull_def AppendString_def BeginDictionary_def BeginArray_def EndDictionary_def EndArray_def

lemma traced_put:
  "tv_data (traced_call (Put k v) tv) = tv_data tv @ (if tv_first_item tv then [] else '','') @ shown_name k @ shown_value v"
  "\<not> tv_first_item (traced_call (Put k v) tv)"
  by (cases k; cases v; simp add: traced_defs shown_name_def shown_value_def)+

lemma traced_begin:
  "tv_data (traced_call (Begin_dict k) tv) = tv_data tv @ (if tv_first_item tv then [] else '','') @ shown_name k @ ''{''"
  "tv_first_item (traced_call (Begin_dict k) tv)"
  "tv_data (traced_call (Begin_array k) tv) = tv_data tv @ (if tv_first_item tv then [] else '','') @ shown_name k @ ''[''"
  "tv_first_item (traced_call (Begin_array k) tv)"
  by (cases k; simp add: traced_defs shown_name_def)+

lemma traced_root: "tv_root_is_array (traced_call x tv) = tv_root_is_array tv"
  by (induction x rule: traced_call.induct) (auto simp: traced_defs split: traced_scalar.split)

lemma traced_root_all: "tv_root_is_array (fold traced_call xs tv) = tv_root_is_array tv"
  by (induction xs arbitrary: tv) (simp_all add: traced_root)

lemma shown_name_text: "(case k of None \<Rightarrow> True | Some k \<Rightarrow> quoted_name k) \<Longrightarrow> key_text (map_option (map Byte) k) (shown_name k)"
proof (cases k)
  case (Some n)
  assume "case k of None \<Rightarrow> True | Some k \<Rightarrow> quoted_name k"
  then have n: "quoted_name n" by (simp add: Some)
  show ?thesis unfolding Some option.map key_text.simps shown_name_def option.case quoted_name_c_string [OF n]
    by (intro exI [of _ n] exI [of _ "[]"]) (simp add: quoted_name_text [OF n])
qed (simp add: shown_name_def)

lemma shown_value_text: "traced_supported (Put k v) \<Longrightarrow> val_text (traced_doc v) (shown_value v)"
proof -
  have lit: "val_text (Str (map Byte s)) ([quote] @ s @ [quote])" if "quoted_name s" for s
    using val_str [OF quoted_name_text [OF that]] by simp
  have zero: "json_number ''0''" by (simp add: json_number_def unsigned_number_def frac_part_def digit_def)
  assume ok: "traced_supported (Put k v)"
  show ?thesis
  proof (cases v)
    case (T_Integer n)
    then show ?thesis using val_num [OF json_number_to_string [of n]] by (simp add: shown_value_def traced_doc_def)
  next
    case (T_Double d)
    then show ?thesis
      using ok lit [of "''NaN''"] lit [of "''Infinity''"] lit [of "''-Infinity''"] val_num [OF zero] val_num
      by (cases d) (simp_all add: shown_value_def traced_doc_def DoubleToCString_def quoted_name_def)
  next
    case (T_Boolean b)
    then show ?thesis using val_true val_false by (cases b) (simp_all add: shown_value_def traced_doc_def)
  next
    case T_Null
    then show ?thesis using val_null by (simp add: shown_value_def traced_doc_def)
  next
    case (T_String s)
    then show ?thesis using val_str [OF escape_loop_text [of s]] by (simp add: shown_value_def traced_doc_def EscapeString_def)
  qed
qed

interpretation traced: json_writer traced_call tv_data tv_first_item "map Byte" traced_doc traced_supported
proof (unfold_locales, goal_cases)
  case (1 k v s)
  then show ?case using traced_put [of k v s] shown_name_text [of k] shown_value_text [OF 1]
    by (intro exI [of _ "[]"] exI [of _ "shown_name k"] exI [of _ "shown_value v"]) simp
next
  case (2 k s)
  then show ?case using traced_begin [of k s] shown_name_text [of k]
    by (intro exI [of _ "[]"] exI [of _ "shown_name k"]) simp
next
  case (3 k s)
  then show ?case using traced_begin [of k s] shown_name_text [of k]
    by (intro exI [of _ "[]"] exI [of _ "shown_name k"]) simp
next
  case (4 b s)
  show ?case by (intro exI [of _ "[]"]) (simp add: traced_defs)
next
  case (5 s)
  show ?case by (intro exI [of _ "[]"]) (simp add: traced_defs)
qed



end
