(* ===== verification/JsonWriter.thy ===== *)
theory JsonWriter
  imports TracedValue
begin

text \<open>
  The writer of reports and profiles, src/src/json_utils.h and src/src/json_utils.cc: the stream it writes to is the
  text so far. A number is an integer or the text the stream prints for a double.
\<close>

section \<open>Escaping\<close>

definition u00 :: "string \<Rightarrow> string" where
  "u00 s = [backslash] @ ''u00'' @ s"

definition control_symbols :: "string list" where
  "control_symbols =
     [u00 ''00'', u00 ''01'', u00 ''02'', u00 ''03'', u00 ''04'', u00 ''05'',
      u00 ''06'', u00 ''07'', [backslash, CHR ''b''], [backslash, CHR ''t''], [backslash, CHR ''n''], [backslash, CHR ''v''],
      [backslash, CHR ''f''], [backslash, CHR ''r''], u00 ''0e'', u00 ''0f'', u00 ''10'', u00 ''11'',
      u00 ''12'', u00 ''13'', u00 ''14'', u00 ''15'', u00 ''16'', u00 ''17'',
      u00 ''18'', u00 ''19'', u00 ''1a'', u00 ''1b'', u00 ''1c'', u00 ''1d'',
      u00 ''1e'', u00 ''1f'']"

definition replacement :: "char \<Rightarrow> string" where
  "replacement ch =
     (if ch = backslash then [backslash, backslash]
      else if ch = quote then [backslash, quote]
      else if 0 \<le> signed_char ch \<and> signed_char ch < 0x20 then control_symbols ! of_char ch
      else [])"

function escape_json_loop :: "string \<Rightarrow> nat \<Rightarrow> nat \<Rightarrow> string \<Rightarrow> nat \<times> string" where
  "escape_json_loop str last_pos pos ret =
     (if pos < length str
      then let replace = replacement (str ! pos)
           in if replace \<noteq> []
              then escape_json_loop str (pos + 1) (pos + 1)
                     ((if pos > last_pos then ret @ slice last_pos (pos - last_pos) str else ret) @ replace)
              else escape_json_loop str last_pos (pos + 1) ret
      else (last_pos, ret))"
  by pat_completeness auto
termination by (relation "measure (\<lambda>(str, last_pos, pos, ret). length str - pos)") auto

declare escape_json_loop.simps [simp del]

definition EscapeJsonChars :: "string \<Rightarrow> string" where
  "EscapeJsonChars str =
     (case escape_json_loop str 0 0 [] of (last_pos, ret) \<Rightarrow>
        if last_pos < length str then ret @ slice last_pos (length str - last_pos) str else ret)"

lemma proper_prefix: "length (takeWhile P xs) \<noteq> length xs \<Longrightarrow> length xs - Suc n < length xs"
  by (cases xs) auto

function reindent_loop :: "string \<Rightarrow> string \<Rightarrow> string \<Rightarrow> string" where
  "reindent_loop margin str out =
     (let line = takeWhile (\<lambda>c. c \<noteq> CHR 0x0A) str
      in if length line = length str then out @ margin @ str
         else reindent_loop margin (drop (length line + 1) str) (out @ margin @ take (length line + 1) str))"
  by pat_completeness auto
termination by (relation "measure (\<lambda>(margin, str, out). length str)") (simp_all add: proper_prefix)

declare reindent_loop.simps [simp del]

definition Reindent :: "string \<Rightarrow> int \<Rightarrow> string" where
  "Reindent str indent_depth =
     (if indent_depth \<le> 0 then str else reindent_loop (replicate (nat indent_depth) (CHR '' '')) str [])"

section \<open>The writer\<close>

datatype JSONState = kObjectStart | kAfterValue

record JSONWriter =
  jw_out :: string
  jw_compact :: bool
  jw_indent :: int
  jw_state :: JSONState

datatype json_scalar = J_Number int | J_Double string | J_Bool bool | J_Null | J_String string | J_Foreign string

definition JSONWriter_new :: "bool \<Rightarrow> JSONWriter" where
  "JSONWriter_new compact = \<lparr>jw_out = [], jw_compact = compact, jw_indent = 0, jw_state = kObjectStart\<rparr>"

definition put :: "string \<Rightarrow> JSONWriter \<Rightarrow> JSONWriter" where
  "put s w = w\<lparr>jw_out := jw_out w @ s\<rparr>"

definition indent :: "JSONWriter \<Rightarrow> JSONWriter" where
  "indent w = w\<lparr>jw_indent := jw_indent w + 2\<rparr>"

definition deindent :: "JSONWriter \<Rightarrow> JSONWriter" where
  "deindent w = w\<lparr>jw_indent := jw_indent w - 2\<rparr>"

definition advance :: "JSONWriter \<Rightarrow> JSONWriter" where
  "advance w = (if jw_compact w then w else put (replicate (nat (jw_indent w)) (CHR '' '')) w)"

definition write_one_space :: "JSONWriter \<Rightarrow> JSONWriter" where
  "write_one_space w = (if jw_compact w then w else put '' '' w)"

definition write_new_line :: "JSONWriter \<Rightarrow> JSONWriter" where
  "write_new_line w = (if jw_compact w then w else put [CHR 0x0A] w)"

definition write_string :: "string \<Rightarrow> JSONWriter \<Rightarrow> JSONWriter" where
  "write_string str w = put ([quote] @ EscapeJsonChars str @ [quote]) w"

definition write_value :: "json_scalar \<Rightarrow> JSONWriter \<Rightarrow> JSONWriter" where
  "write_value v w =
     (case v of
        J_Number n \<Rightarrow> put (to_string n) w
      | J_Double shown \<Rightarrow> put shown w
      | J_Bool b \<Rightarrow> put (if b then ''true'' else ''false'') w
      | J_Null \<Rightarrow> put ''null'' w
      | J_String str \<Rightarrow> write_string str w
      | J_Foreign json \<Rightarrow> put (Reindent json (jw_indent w)) w)"

definition separate :: "JSONWriter \<Rightarrow> JSONWriter" where
  "separate w = (if jw_state w = kAfterValue then put '','' w else w)"

definition json_start :: "JSONWriter \<Rightarrow> JSONWriter" where
  "json_start w = (indent (put ''{'' (advance (write_new_line (separate w)))))\<lparr>jw_state := kObjectStart\<rparr>"

definition json_end :: "JSONWriter \<Rightarrow> JSONWriter" where
  "json_end w = (put ''}'' (advance (deindent (write_new_line w))))\<lparr>jw_state := kAfterValue\<rparr>"

definition json_objectstart :: "string \<Rightarrow> JSONWriter \<Rightarrow> JSONWriter" where
  "json_objectstart key w =
     (indent (put ''{'' (write_one_space (put '':'' (write_string key (advance (write_new_line (separate w))))))))\<lparr>jw_state := kObjectStart\<rparr>"

definition json_arraystart :: "string \<Rightarrow> JSONWriter \<Rightarrow> JSONWriter" where
  "json_arraystart key w =
     (indent (put ''['' (write_one_space (put '':'' (write_string key (advance (write_new_line (separate w))))))))\<lparr>jw_state := kObjectStart\<rparr>"

definition json_objectend :: "JSONWriter \<Rightarrow> JSONWriter" where
  "json_objectend w =
     (let w = put ''}'' (advance (deindent (write_new_line w)));
          w = (if jw_indent w = 0 then put [CHR 0x0A] w else w)
      in w\<lparr>jw_state := kAfterValue\<rparr>)"

definition json_arrayend :: "JSONWriter \<Rightarrow> JSONWriter" where
  "json_arrayend w = (put '']'' (advance (deindent (write_new_line w))))\<lparr>jw_state := kAfterValue\<rparr>"

definition json_keyvalue :: "string \<Rightarrow> json_scalar \<Rightarrow> JSONWriter \<Rightarrow> JSONWriter" where
  "json_keyvalue key value w =
     (write_value value (write_one_space (put '':'' (write_string key (advance (write_new_line (separate w)))))))\<lparr>jw_state := kAfterValue\<rparr>"

definition json_element :: "json_scalar \<Rightarrow> JSONWriter \<Rightarrow> JSONWriter" where
  "json_element value w = (write_value value (advance (write_new_line (separate w))))\<lparr>jw_state := kAfterValue\<rparr>"

text \<open>The calls a client makes; the writer has no array without a name.\<close>

fun json_call :: "json_scalar bop \<Rightarrow> JSONWriter \<Rightarrow> JSONWriter" where
  "json_call (Put (Some key) v) = json_keyvalue key v"
| "json_call (Put None v) = json_element v"
| "json_call (Begin_dict (Some key)) = json_objectstart key"
| "json_call (Begin_dict None) = json_start"
| "json_call (Begin_array (Some key)) = json_arraystart key"
| "json_call (Begin_array None) = id"
| "json_call (End_dict b) = (if b then json_objectend else json_end)"
| "json_call End_array = json_arrayend"

section \<open>Escaping, character by character\<close>

definition escaped :: "char \<Rightarrow> string" where
  "escaped c = (if replacement c = [] then [c] else replacement c)"

lemma escape_json_loop_spec:
  assumes "last_pos \<le> pos" "pos \<le> length str" "\<forall>i. last_pos \<le> i \<and> i < pos \<longrightarrow> replacement (str ! i) = []"
  shows "case escape_json_loop str last_pos pos ret of (l, r) \<Rightarrow>
    r @ drop l str = ret @ slice last_pos (pos - last_pos) str @ concat (map escaped (drop pos str))"
  using assms
proof (induction str last_pos pos ret rule: escape_json_loop.induct)
  case (1 str last_pos pos ret)
  show ?case
  proof (cases "pos < length str")
    case True
    define c where "c = str ! pos"
    have d: "drop pos str = c # drop (pos + 1) str" using True by (simp add: c_def Cons_nth_drop_Suc)
    show ?thesis
    proof (cases "replacement c = []")
      case r: False
      have "(if pos > last_pos then ret @ slice last_pos (pos - last_pos) str else ret) = ret @ slice last_pos (pos - last_pos) str"
        using "1.prems"(1) by simp
      moreover have "\<forall>i. Suc pos \<le> i \<and> i < Suc pos \<longrightarrow> replacement (str ! i) = []" "escaped c = replacement c"
        using r by (auto simp: escaped_def)
      ultimately show ?thesis using "1.IH"(1) [OF True refl r [unfolded c_def]] True r
        by (subst escape_json_loop.simps) (simp add: Let_def c_def [symmetric] d)
    next
      case r: True
      have "\<forall>i. last_pos \<le> i \<and> i < pos + 1 \<longrightarrow> replacement (str ! i) = []"
        using "1.prems"(3) r by (auto simp: c_def less_Suc_eq)
      moreover have "slice last_pos (pos + 1 - last_pos) str = slice last_pos (pos - last_pos) str @ [c]"
        using "1.prems"(1) True slice_Suc [of last_pos "pos - last_pos" str] by (simp add: c_def Suc_diff_le)
      moreover have "escaped c = [c]" using r by (simp add: escaped_def)
      ultimately show ?thesis using "1.IH"(2) [OF True refl] "1.prems" True r
        by (subst escape_json_loop.simps) (simp add: Let_def c_def [symmetric] d)
    qed
  next
    case False
    then show ?thesis using "1.prems" by (subst escape_json_loop.simps) (simp add: slice_def)
  qed
qed

lemma EscapeJsonChars_spec: "EscapeJsonChars str = concat (map escaped str)"
proof -
  obtain l r where e: "escape_json_loop str 0 0 [] = (l, r)" by fastforce
  then have "r @ drop l str = concat (map escaped str)" using escape_json_loop_spec [of 0 0 str "[]"] by simp
  then show ?thesis by (auto simp: EscapeJsonChars_def e slice_def)
qed

text \<open>Apart from the vertical tab, whose escape JSON does not have, each character is written as itself.\<close>

lemma control_symbol_table:
  "list_all (\<lambda>n. n = 11 \<or> (\<exists>e. control_symbols ! n = [backslash, e] \<and> map_option of_char (simple_escape e) = Some n) \<or>
     (\<exists>a b c d. control_symbols ! n = [backslash, CHR ''u'', a, b, c, d] \<and> hex4 a b c d = Some n)) [0..<32]"
  by (simp add: upt_conv_Cons control_symbols_def u00_def simple_escape_def hex4_def hex_value_def)

lemma escaped_text:
  assumes "str_text is s" "c \<noteq> CHR 0x0B"
  shows "str_text (Byte c # is) (escaped c @ s)"
proof -
  define n :: nat where "n = of_char c"
  have sc: "0 \<le> signed_char c \<and> signed_char c < 0x20 \<longleftrightarrow> n < 32"
    using char_256 [of c] unfolding signed_char_def Let_def n_def [symmetric] by auto
  have inj: "of_char c' = n \<Longrightarrow> c' = c" for c' by (simp add: n_def)
  consider "c = backslash \<or> c = quote" | "c \<noteq> backslash" "c \<noteq> quote" "n < 32" | "c \<noteq> backslash" "c \<noteq> quote" "32 \<le> n"
    by linarith
  then show ?thesis
  proof cases
    case 1
    then have "escaped c = [backslash, c]" "simple_escape c = Some c" by (auto simp: escaped_def replacement_def simple_escape_def)
    then show ?thesis using str_escape [of c c] assms(1) by simp
  next
    case 2
    have "n \<noteq> 11" using assms(2) inj [of "CHR 0x0B"] by auto
    then have t: "(\<exists>e. control_symbols ! n = [backslash, e] \<and> map_option of_char (simple_escape e) = Some n) \<or>
        (\<exists>a b c d. control_symbols ! n = [backslash, CHR ''u'', a, b, c, d] \<and> hex4 a b c d = Some n)"
      using control_symbol_table 2(3) unfolding list_all_iff by auto
    then have e: "escaped c = control_symbols ! n" using 2 sc by (auto simp: escaped_def replacement_def n_def)
    from t show ?thesis
    proof (elim disjE exE conjE)
      fix e
      assume x: "control_symbols ! n = [backslash, e]" "map_option of_char (simple_escape e) = Some n"
      then have "simple_escape e = Some c" using inj by auto
      then show ?thesis using str_escape [of e c] assms(1) by (simp add: e x(1))
    next
      fix x y z u
      assume h: "control_symbols ! n = [backslash, CHR ''u'', x, y, z, u]" "hex4 x y z u = Some n"
      have "code_item n = Byte c" using 2(3) code_item_char [of c] by (simp add: n_def)
      then show ?thesis using str_hex [OF h(2) assms(1)] by (simp add: e h(1))
    qed
  next
    case 3
    then have "escaped c = [c]" using sc by (auto simp: escaped_def replacement_def)
    then show ?thesis using str_raw [of c] 3 assms(1) by (simp add: n_def)
  qed
qed

lemma EscapeJsonChars_text: "CHR 0x0B \<notin> set str \<Longrightarrow> str_text (map Byte str) (EscapeJsonChars str)"
  unfolding EscapeJsonChars_spec by (induction str) (auto intro: str_Nil escaped_text)

section \<open>Refinement\<close>

definition json_doc :: "json_scalar \<Rightarrow> json" where
  "json_doc v =
     (case v of
        J_Number n \<Rightarrow> Num (to_string n)
      | J_Double shown \<Rightarrow> Num shown
      | J_Bool b \<Rightarrow> Bool b
      | J_Null \<Rightarrow> Null
      | J_String s \<Rightarrow> Str (map Byte s)
      | J_Foreign s \<Rightarrow> Null)"

definition plain :: "string \<Rightarrow> bool" where
  "plain s = (CHR 0x0B \<notin> set s)"

fun json_supported :: "json_scalar bop \<Rightarrow> bool" where
  "json_supported (Put k v) =
     ((case k of None \<Rightarrow> True | Some k \<Rightarrow> plain k) \<and>
      (case v of J_Double shown \<Rightarrow> json_number shown | J_String s \<Rightarrow> plain s | J_Foreign _ \<Rightarrow> False | _ \<Rightarrow> True))"
| "json_supported (Begin_dict k) = (case k of None \<Rightarrow> True | Some k \<Rightarrow> plain k)"
| "json_supported (Begin_array k) = (case k of None \<Rightarrow> False | Some k \<Rightarrow> plain k)"
| "json_supported _ = True"

definition margin :: "JSONWriter \<Rightarrow> string" where
  "margin w = (if jw_compact w then [] else CHR 0x0A # replicate (nat (jw_indent w)) (CHR '' ''))"

definition name_text :: "JSONWriter \<Rightarrow> string option \<Rightarrow> string" where
  "name_text w k =
     (case k of None \<Rightarrow> [] | Some k \<Rightarrow> quote # EscapeJsonChars k @ quote # CHR '':'' # (if jw_compact w then [] else '' ''))"

definition value_text :: "json_scalar \<Rightarrow> string" where
  "value_text v =
     (case v of J_Number n \<Rightarrow> to_string n | J_Double shown \<Rightarrow> shown | J_Bool b \<Rightarrow> (if b then ''true'' else ''false'')
        | J_Null \<Rightarrow> ''null'' | J_String s \<Rightarrow> quote # EscapeJsonChars s @ [quote] | J_Foreign s \<Rightarrow> [])"

lemmas json_defs = put_def indent_def deindent_def advance_def write_one_space_def write_new_line_def write_string_def write_value_def
  separate_def json_start_def json_end_def json_objectstart_def json_arraystart_def json_objectend_def json_arrayend_def
  json_keyvalue_def json_element_def

lemma ws_replicate: "ws (replicate n (CHR '' ''))"
  by (induction n) (simp_all add: ws_char_def)

lemma ws_margin: "ws (margin w)"
  by (simp add: margin_def ws_replicate ws_char_def)

lemma json_put:
  "json_supported (Put k v) \<Longrightarrow>
   jw_out (json_call (Put k v) w) = jw_out w @ (if jw_state w = kObjectStart then [] else '','') @ margin w @ name_text w k @ value_text v
   \<and> jw_state (json_call (Put k v) w) = kAfterValue"
  by (cases "jw_state w"; cases k; cases v) (simp_all add: json_defs margin_def name_text_def value_text_def)

lemma json_begin:
  "jw_out (json_call (Begin_dict k) w) = jw_out w @ (if jw_state w = kObjectStart then [] else '','') @ margin w @ name_text w k @ ''{''
   \<and> jw_state (json_call (Begin_dict k) w) = kObjectStart"
  "k \<noteq> None \<Longrightarrow>
   jw_out (json_call (Begin_array k) w) = jw_out w @ (if jw_state w = kObjectStart then [] else '','') @ margin w @ name_text w k @ ''[''
   \<and> jw_state (json_call (Begin_array k) w) = kObjectStart"
  by (cases "jw_state w"; cases k; simp add: json_defs margin_def name_text_def)+

lemma json_close:
  "\<exists>u v. jw_out (json_call (End_dict b) w) = jw_out w @ u @ CHR ''}'' # v \<and> ws u \<and> ws v \<and> jw_state (json_call (End_dict b) w) = kAfterValue"
  "\<exists>u v. jw_out (json_call End_array w) = jw_out w @ u @ CHR '']'' # v \<and> ws u \<and> ws v \<and> jw_state (json_call End_array w) = kAfterValue"
proof -
  define u where "u = (if jw_compact w then [] else CHR 0x0A # replicate (nat (jw_indent w - 2)) (CHR '' ''))"
  have u: "ws u" by (simp add: u_def ws_replicate ws_char_def)
  show "\<exists>u v. jw_out (json_call (End_dict b) w) = jw_out w @ u @ CHR ''}'' # v \<and> ws u \<and> ws v \<and> jw_state (json_call (End_dict b) w) = kAfterValue"
    by (intro exI [of _ u] exI [of _ "if b \<and> jw_indent w = 2 then [CHR 0x0A] else []"])
      (simp add: u, simp add: u_def json_defs Let_def ws_char_def)
  show "\<exists>u v. jw_out (json_call End_array w) = jw_out w @ u @ CHR '']'' # v \<and> ws u \<and> ws v \<and> jw_state (json_call End_array w) = kAfterValue"
    by (intro exI [of _ u] exI [of _ "[]"]) (simp add: u, simp add: u_def json_defs)
qed

lemma name_text_key: "(case k of None \<Rightarrow> True | Some k \<Rightarrow> plain k) \<Longrightarrow> key_text (map_option (map Byte) k) (name_text w k)"
proof (cases k)
  case (Some n)
  assume "case k of None \<Rightarrow> True | Some k \<Rightarrow> plain k"
  then have "str_text (map Byte n) (EscapeJsonChars n)" by (simp add: Some plain_def EscapeJsonChars_text)
  then show ?thesis unfolding Some option.map key_text.simps name_text_def option.case
    by (intro exI [of _ "EscapeJsonChars n"] exI [of _ "[]"] exI [of _ "if jw_compact w then [] else '' ''"]) (simp add: ws_char_def)
qed (simp add: name_text_def)

lemma value_text_val: "json_supported (Put k v) \<Longrightarrow> val_text (json_doc v) (value_text v)"
  using val_num [OF json_number_to_string] val_num val_true val_false val_null val_str [OF EscapeJsonChars_text]
  by (cases v) (simp_all add: json_doc_def value_text_def plain_def)

interpretation jsonw: json_writer json_call jw_out "\<lambda>w. jw_state w = kObjectStart" "map Byte" json_doc json_supported
proof (unfold_locales, goal_cases)
  case (1 k v s)
  then show ?case using json_put [OF 1, of s] name_text_key [of k s] value_text_val [OF 1] ws_margin [of s]
    by (intro exI [of _ "margin s"] exI [of _ "name_text s k"] exI [of _ "value_text v"]) simp
next
  case (2 k s)
  then show ?case using json_begin(1) [of k s] name_text_key [of k s] ws_margin [of s]
    by (intro exI [of _ "margin s"] exI [of _ "name_text s k"]) simp
next
  case (3 k s)
  then show ?case using json_begin(2) [of k s] name_text_key [of k s] ws_margin [of s]
    by (intro exI [of _ "margin s"] exI [of _ "name_text s k"]) (auto split: option.splits)
next
  case (4 b s)
  show ?case using json_close(1) [of b s] by (metis JSONState.distinct(1))
next
  case (5 s)
  show ?case using json_close(2) [of s] by (metis JSONState.distinct(1))
qed

lemma json_writer_document:
  assumes "list_all json_supported calls"
    and "build_all (map Byte) json_doc calls (Elems [], []) = Some (Elems [v], [])"
  shows "parse_json (jw_out (fold json_call calls (JSONWriter_new compact))) = Some v"
proof -
  have "jsonw.refines (Elems [], []) (JSONWriter_new compact)"
    by (simp add: jsonw.refines_def JSONWriter_new_def root)
  from jsonw.refines_all [OF this assms] have "represents (Elems [v], []) (jw_out (fold json_call calls (JSONWriter_new compact)))"
    by (simp add: jsonw.refines_def)
  then have "elems_text [v] (jw_out (fold json_call calls (JSONWriter_new compact)))" by (cases rule: represents.cases) simp
  then show ?thesis using parse_json_text by (cases rule: elems_text.cases) (auto elim: elems_text.cases)
qed



lemma parse_str_prefix: "str_text is s \<Longrightarrow> parse_str (s @ r) = map_option (\<lambda>(js, r). (is @ js, r)) (parse_str r)"
proof (induction rule: str_text.induct)
  case str_Nil
  show ?case by (cases "parse_str r") auto
next
  case (str_raw c "is" s)
  then show ?case by (subst parse_str.simps) (cases "parse_str r", auto)
next
  case (str_escape e c "is" s)
  then have "e \<noteq> CHR ''u''" by (auto simp: simple_escape_def)
  then show ?case using str_escape by (subst parse_str.simps) (cases "parse_str r", auto)
next
  case (str_hex a b c d n "is" s)
  then show ?case by (subst parse_str.simps) (cases "parse_str r", auto)
qed

lemma parse_str_vertical_tab: "CHR 0x0B \<in> set s \<Longrightarrow> parse_str (concat (map escaped s) @ r) = None"
proof (induction s)
  case (Cons c s)
  show ?case
  proof (cases "c = CHR 0x0B")
    case True
    have "escaped (CHR 0x0B) = [backslash, CHR ''v'']"
      by (simp add: escaped_def replacement_def signed_char_def control_symbols_def)
    then show ?thesis using True by (simp add: parse_str.simps simple_escape_def)
  next
    case False
    then have "parse_str (concat (map escaped s) @ r) = None" using Cons by auto
    then show ?thesis using parse_str_prefix [OF escaped_text [OF str_Nil False]] by simp
  qed
qed simp

text \<open>
  A string with a vertical tab is written with an escape that JSON does not have: the text
  of a document that consists of such a string does not parse.
\<close>

theorem json_writer_vertical_tab:
  assumes "CHR 0x0B \<in> set s"
  shows "parse_json (jw_out (json_call (Put None (J_String s)) (JSONWriter_new compact))) = None"
proof -
  define m where "m = margin (JSONWriter_new compact)"
  have "jw_out (json_call (Put None (J_String s)) (JSONWriter_new compact)) = m @ quote # EscapeJsonChars s @ [quote]"
    by (cases compact) (simp_all add: json_defs m_def margin_def JSONWriter_new_def)
  moreover have "ws m" by (simp add: m_def ws_margin)
  ultimately show ?thesis using parse_str_vertical_tab [OF assms, of "[quote]"]
    by (simp add: parse_json_def EscapeJsonChars_spec)
qed

theorem json_writer_vertical_tab_witness:
  "parse_json (jw_out (json_call (Put None (J_String [CHR 0x0B])) (JSONWriter_new True))) = None"
  by (rule json_writer_vertical_tab) simp

end
