(* ===== verification/JsonCalls.thy ===== *)
theory JsonCalls
  imports JsonWriter
begin

text \<open>
  Sequences of calls of the JSON writer and what they add to the container that is open: the
  rules with which the report and the profile are shown to build their documents.
\<close>

type_synonym calls = "json_scalar bop list"

named_theorems call_rules

definition build_calls :: "calls \<Rightarrow> builder \<Rightarrow> builder option" where
  "build_calls = build_all (map Byte) json_doc"

definition adds_members :: "calls \<Rightarrow> (string \<times> json) list \<Rightarrow> bool" where
  "adds_members cs ms =
     (\<forall>old outs. build_calls cs (Members old, outs) = Some (Members (old @ map (\<lambda>(k, v). (map Byte k, v)) ms), outs))"

definition adds_elements :: "calls \<Rightarrow> json list \<Rightarrow> bool" where
  "adds_elements cs xs = (\<forall>old outs. build_calls cs (Elems old, outs) = Some (Elems (old @ xs), outs))"

lemma build_calls_append: "build_calls (cs @ ds) b = (case build_calls cs b of None \<Rightarrow> None | Some b \<Rightarrow> build_calls ds b)"
  unfolding build_calls_def by (induction cs arbitrary: b) (auto split: option.split)

lemma build_calls_Cons: "build_calls (c # cs) b = (case build (map Byte) json_doc c b of None \<Rightarrow> None | Some b \<Rightarrow> build_calls cs b)"
  unfolding build_calls_def by simp

lemma build_calls_Nil [simp]: "build_calls [] b = Some b"
  by (simp add: build_calls_def)

lemma adds_members_append: "adds_members cs ms \<Longrightarrow> adds_members ds ns \<Longrightarrow> adds_members (cs @ ds) (ms @ ns)"
  by (simp add: adds_members_def build_calls_append)

lemma adds_elements_append: "adds_elements cs xs \<Longrightarrow> adds_elements ds ys \<Longrightarrow> adds_elements (cs @ ds) (xs @ ys)"
  by (simp add: adds_elements_def build_calls_append)

lemma adds_members_Nil [call_rules]: "adds_members [] []"
  by (simp add: adds_members_def)

lemma adds_elements_Nil [call_rules]: "adds_elements [] []"
  by (simp add: adds_elements_def)

lemma adds_members_put [call_rules]:
  "adds_members cs ms \<Longrightarrow> adds_members (Put (Some k) v # cs) ((k, json_doc v) # ms)"
  by (simp add: adds_members_def build_calls_Cons)

lemma adds_elements_put [call_rules]: "adds_elements cs xs \<Longrightarrow> adds_elements (Put None v # cs) (json_doc v # xs)"
  by (simp add: adds_elements_def build_calls_Cons)

definition members :: "(string \<times> json) list \<Rightarrow> json" where
  "members ms = Obj (map (\<lambda>(k, v). (map Byte k, v)) ms)"

definition object_calls :: "string option \<Rightarrow> calls \<Rightarrow> calls" where
  "object_calls k cs = Begin_dict k # cs @ [End_dict (k \<noteq> None)]"

definition array_calls :: "string \<Rightarrow> calls \<Rightarrow> calls" where
  "array_calls k cs = Begin_array (Some k) # cs @ [End_array]"

lemma object_in_members:
  "adds_members cs ms \<Longrightarrow> adds_members (object_calls (Some k) cs) [(k, members ms)]"
  by (simp add: adds_members_def object_calls_def build_calls_Cons build_calls_append members_def)

lemma array_in_members:
  "adds_elements cs xs \<Longrightarrow> adds_members (array_calls k cs) [(k, Arr xs)]"
  by (simp add: adds_members_def adds_elements_def array_calls_def build_calls_Cons build_calls_append)

lemma object_in_elements:
  "adds_members cs ms \<Longrightarrow> adds_elements (Begin_dict None # cs @ [End_dict b]) [members ms]"
  by (simp add: adds_members_def adds_elements_def build_calls_Cons build_calls_append members_def)

lemma adds_members_concat:
  "(\<And>x. x \<in> set xs \<Longrightarrow> adds_members (f x) (g x)) \<Longrightarrow> adds_members (concat (map f xs)) (concat (map g xs))"
  by (induction xs) (auto intro: adds_members_append adds_members_Nil)

lemma adds_elements_concat:
  "(\<And>x. x \<in> set xs \<Longrightarrow> adds_elements (f x) (g x)) \<Longrightarrow> adds_elements (concat (map f xs)) (concat (map g xs))"
  by (induction xs) (auto intro: adds_elements_append adds_elements_Nil)

lemma adds_members_if: "(b \<Longrightarrow> adds_members cs ms) \<Longrightarrow> (\<not> b \<Longrightarrow> adds_members ds ns) \<Longrightarrow>
    adds_members (if b then cs else ds) (if b then ms else ns)"
  by simp

lemma document_of_calls:
  assumes "adds_elements cs [v]" "list_all json_supported cs"
  shows "parse_json (jw_out (fold json_call cs (JSONWriter_new compact))) = Some v"
  using json_writer_document [OF assms(2), of v compact] assms(1) by (simp add: adds_elements_def build_calls_def)

end
