(* ===== verification/Profile.thy ===== *)
theory Profile
  imports JsonCalls
begin

text \<open>
  The CPU profile that src/src/aworker_profiler.cc writes, and the start and stop of the
  profiler. A profile is what V8 reports of it: a tree of nodes, the sampled nodes and
  their timestamps, all of them arguments; times are 64 bits wide.
\<close>

datatype CpuProfileNode = CpuProfileNode
  (node_id: nat) (hit_count: nat) (function_name: string) (script_id: int) (bailout_reason: string)
  (script_url: string) (line_number: int) (column_number: int) (node_children: "CpuProfileNode list")

record CpuProfile =
  profile_title :: string
  top_down_root :: CpuProfileNode
  start_time :: "64 word"
  end_time :: "64 word"
  samples :: "(CpuProfileNode \<times> 64 word) list"

definition int64 :: "64 word \<Rightarrow> json_scalar" where
  "int64 w = J_Number (sint w)"

fun SerializeNode :: "CpuProfileNode \<Rightarrow> calls" where
  "SerializeNode (CpuProfileNode i hits name script bailout url line col kids) =
     [Begin_dict None,
      Put (Some ''id'') (J_Number (int i)),
      Put (Some ''hitCount'') (J_Number (int hits)),
      Begin_dict (Some ''callFrame''),
      Put (Some ''functionName'') (J_String (c_string name)),
      Put (Some ''scriptId'') (J_Number script),
      Put (Some ''bailoutReason'') (J_String (c_string bailout)),
      Put (Some ''url'') (J_String (c_string url)),
      Put (Some ''lineNumber'') (J_Number line),
      Put (Some ''columnNumber'') (J_Number col),
      End_dict True,
      Begin_array (Some ''children'')] @
     map (\<lambda>kid. Put None (J_Number (int (node_id kid)))) kids @
     [End_array, End_dict False] @
     concat (map SerializeNode kids)"

text \<open>The deltas: the timestamp at \<open>index\<close> minus the one before it, or minus the start time.\<close>

definition time_delta :: "CpuProfile \<Rightarrow> nat \<Rightarrow> 64 word" where
  "time_delta p index =
     (let prev = (if index = 0 then start_time p else snd (samples p ! (index - 1)))
      in snd (samples p ! index) - prev)"

definition Serialize :: "CpuProfile \<Rightarrow> calls" where
  "Serialize p =
     [Begin_dict None,
      Put (Some ''typeId'') (J_String ''aworker-cpu-profile''),
      Put (Some ''title'') (J_String (c_string (profile_title p))),
      Begin_array (Some ''nodes'')] @
     SerializeNode (top_down_root p) @
     [End_array,
      Put (Some ''startTime'') (int64 (start_time p)),
      Put (Some ''endTime'') (int64 (end_time p)),
      Begin_array (Some ''samples'')] @
     map (\<lambda>index. Put None (J_Number (int (node_id (fst (samples p ! index)))))) [0..<length (samples p)] @
     [End_array,
      Begin_array (Some ''timeDeltas'')] @
     map (\<lambda>index. Put None (int64 (time_delta p index))) [0..<length (samples p)] @
     [End_array,
      End_dict False]"

text \<open>The file: none if it cannot be opened.\<close>

definition Serialize_file :: "bool \<Rightarrow> CpuProfile \<Rightarrow> string option" where
  "Serialize_file is_open p =
     (if \<not> is_open then None else Some (jw_out (fold json_call (Serialize p) (JSONWriter_new False))))"

text \<open>
  The process-wide profiler: absent, or with the title its running profile was started under. V8 gives a
  profile back when one runs under the title asked for, and null otherwise.
\<close>

definition StartCpuProfiler :: "string \<Rightarrow> string option \<Rightarrow> string option" where
  "StartCpuProfiler t cpu_profiler = (case cpu_profiler of Some running \<Rightarrow> Some running | None \<Rightarrow> Some (c_string t))"

definition StopCpuProfiler ::
  "(string \<Rightarrow> CpuProfile option) \<Rightarrow> bool \<Rightarrow> string \<Rightarrow> string option \<Rightarrow> (string option \<times> string option) outcome" where
  "StopCpuProfiler StopProfiling is_open t cpu_profiler =
     (case cpu_profiler of
        None \<Rightarrow> Inr (None, None)
      | Some running \<Rightarrow>
          (case StopProfiling (c_string t) of
             None \<Rightarrow> Inl Null_deref
           | Some profile \<Rightarrow> Inr (Serialize_file is_open profile, None)))"

section \<open>The document\<close>

fun preorder :: "CpuProfileNode \<Rightarrow> CpuProfileNode list" where
  "preorder (CpuProfileNode i hits name script bailout url line col kids) =
     CpuProfileNode i hits name script bailout url line col kids # concat (map preorder kids)"

definition number :: "int \<Rightarrow> json" where
  "number n = Num (to_string n)"

definition text_value :: "string \<Rightarrow> json" where
  "text_value s = Str (map Byte (c_string s))"

definition node_doc :: "CpuProfileNode \<Rightarrow> json" where
  "node_doc n = members
     [(''id'', number (int (node_id n))), (''hitCount'', number (int (hit_count n))),
      (''callFrame'', members
        [(''functionName'', text_value (function_name n)), (''scriptId'', number (script_id n)),
         (''bailoutReason'', text_value (bailout_reason n)), (''url'', text_value (script_url n)),
         (''lineNumber'', number (line_number n)), (''columnNumber'', number (column_number n))]),
      (''children'', Arr (map (\<lambda>kid. number (int (node_id kid))) (node_children n)))]"

definition profile_doc :: "CpuProfile \<Rightarrow> json" where
  "profile_doc p = members
     [(''typeId'', text_value ''aworker-cpu-profile''), (''title'', text_value (profile_title p)),
      (''nodes'', Arr (map node_doc (preorder (top_down_root p)))),
      (''startTime'', number (sint (start_time p))), (''endTime'', number (sint (end_time p))),
      (''samples'', Arr (map (\<lambda>(n, t). number (int (node_id n))) (samples p))),
      (''timeDeltas'', Arr (map (\<lambda>(t, u). number (sint (t - u)))
         (zip (map snd (samples p)) (start_time p # map snd (samples p)))))]"

lemma adds_elements_map: "adds_elements (map (\<lambda>x. Put None (f x)) xs) (map (\<lambda>x. json_doc (f x)) xs)"
  by (induction xs) (auto intro: call_rules)

lemma frame_members:
  "adds_members [Begin_dict (Some k), Put (Some k1) v1, Put (Some k2) v2, Put (Some k3) v3, Put (Some k4) v4, Put (Some k5) v5,
      Put (Some k6) v6, End_dict b]
     [(k, members [(k1, json_doc v1), (k2, json_doc v2), (k3, json_doc v3), (k4, json_doc v4), (k5, json_doc v5), (k6, json_doc v6)])]"
  by (simp add: adds_members_def build_calls_Cons members_def)

lemma node_object:
  "adds_elements
     ([Begin_dict None, Put (Some ''id'') (J_Number (int i)), Put (Some ''hitCount'') (J_Number (int hits)),
       Begin_dict (Some ''callFrame''), Put (Some ''functionName'') (J_String (c_string name)), Put (Some ''scriptId'') (J_Number script),
       Put (Some ''bailoutReason'') (J_String (c_string bailout)), Put (Some ''url'') (J_String (c_string url)),
       Put (Some ''lineNumber'') (J_Number line), Put (Some ''columnNumber'') (J_Number col), End_dict True,
       Begin_array (Some ''children'')] @ map (\<lambda>kid. Put None (J_Number (int (node_id kid)))) kids @ [End_array, End_dict False])
     [node_doc (CpuProfileNode i hits name script bailout url line col kids)]"
  using adds_elements_map [of "\<lambda>kid. J_Number (int (node_id kid))" kids]
  by (simp add: adds_elements_def build_calls_Cons build_calls_append node_doc_def members_def number_def text_value_def json_doc_def)

lemma SerializeNode_elements: "adds_elements (SerializeNode n) (map node_doc (preorder n))"
proof (induction n)
  case (CpuProfileNode i hits name script bailout url line col kids)
  have "adds_elements (concat (map SerializeNode kids)) (concat (map (\<lambda>n. map node_doc (preorder n)) kids))"
    by (rule adds_elements_concat) (rule CpuProfileNode)
  from adds_elements_append [OF node_object this] show ?case by (simp add: map_concat comp_def)
qed

lemma time_deltas:
  "map (time_delta p) [0..<length (samples p)] =
     map (\<lambda>(t, u). t - u) (zip (map snd (samples p)) (start_time p # map snd (samples p)))"
  by (rule nth_equalityI) (auto simp: time_delta_def Let_def nth_Cons split: nat.split)

lemma Serialize_elements: "adds_elements (Serialize p) [profile_doc p]"
proof -
  define ids where "ids = map (\<lambda>index. Put None (J_Number (int (node_id (fst (samples p ! index))))) :: json_scalar bop) [0..<length (samples p)]"
  define ts where "ts = map (\<lambda>index. Put None (int64 (time_delta p index)) :: json_scalar bop) [0..<length (samples p)]"
  have i: "adds_elements ids (map (\<lambda>(n, t). number (int (node_id n))) (samples p))"
  proof -
    have "map (\<lambda>index. json_doc (J_Number (int (node_id (fst (samples p ! index)))))) [0..<length (samples p)] =
        map (\<lambda>(n, t). number (int (node_id n))) (samples p)"
      by (rule nth_equalityI) (simp_all add: number_def json_doc_def split_beta)
    then show ?thesis unfolding ids_def using adds_elements_map by metis
  qed
  have t: "adds_elements ts (map (\<lambda>(t, u). number (sint (t - u))) (zip (map snd (samples p)) (start_time p # map snd (samples p))))"
  proof -
    have "map (\<lambda>index. json_doc (int64 (time_delta p index))) [0..<length (samples p)] =
        map (\<lambda>w. number (sint w)) (map (time_delta p) [0..<length (samples p)])"
      by (simp add: number_def json_doc_def int64_def)
    then show ?thesis unfolding ts_def time_deltas using adds_elements_map [of "\<lambda>index. int64 (time_delta p index)" "[0..<length (samples p)]"]
      by (simp add: comp_def case_prod_beta')
  qed
  show ?thesis
    using i t SerializeNode_elements [of "top_down_root p"] unfolding Serialize_def ids_def [symmetric] ts_def [symmetric] profile_doc_def
    by (simp add: adds_elements_def build_calls_Cons build_calls_append members_def number_def text_value_def json_doc_def int64_def c_string_def)
qed


definition example_profile :: CpuProfile where
  "example_profile =
     (let leaf = CpuProfileNode 2 1 ''f'' 7 [] ''a.js'' 3 4 [];
          top = CpuProfileNode 1 0 ''(root)'' 0 [] [] 0 0 [leaf]
      in \<lparr>profile_title = ''aworker'', top_down_root = top, start_time = 100, end_time = 300, samples = [(leaf, 150), (top, 140)]\<rparr>)"


end
