(* ===== verification/Report.thy ===== *)
theory Report
  imports JsonCalls
begin

text \<open>
  The diagnostic report, src/src/diag_report.cc and src/src/diag_report_utils.cc, as the sequence of
  calls it makes of the JSON writer. Everything the report asks of the operating system, of libuv and of V8
  is part of the facts it is given: the record below and the handles of the loop. Of the floating point arithmetic
  on processor times only the printed result is kept.
\<close>

type_synonym key_value = "string \<times> string"

definition put_text :: "string \<Rightarrow> string \<Rightarrow> json_scalar bop" where
  "put_text k s = Put (Some k) (J_String (c_string s))"

definition put_number :: "string \<Rightarrow> int \<Rightarrow> json_scalar bop" where
  "put_number k n = Put (Some k) (J_Number n)"

definition put_bool :: "string \<Rightarrow> bool \<Rightarrow> json_scalar bop" where
  "put_bool k b = Put (Some k) (J_Bool b)"

definition put_null :: "string \<Rightarrow> json_scalar bop" where
  "put_null k = Put (Some k) J_Null"

definition if_some :: "'a option \<Rightarrow> ('a \<Rightarrow> calls) \<Rightarrow> calls" where
  "if_some x f = (case x of None \<Rightarrow> [] | Some y \<Rightarrow> f y)"

section \<open>Values\<close>

definition hex_lower :: "nat \<Rightarrow> char" where
  "hex_lower n = (if n < 10 then char_of (48 + n) else char_of (87 + n))"

fun hex_digits :: "nat \<Rightarrow> nat \<Rightarrow> string" where
  "hex_digits 0 n = []"
| "hex_digits (Suc k) n = hex_digits k (n div 16) @ [hex_lower (n mod 16)]"

text \<open>\<open>ValueToHexString\<close> of a 64-bit value: sixteen digits, padded with zeros.\<close>

definition ValueToHexString :: "64 word \<Rightarrow> string" where
  "ValueToHexString value = ''0x'' @ hex_digits 16 (unat value)"

fun padded :: "nat \<Rightarrow> char \<Rightarrow> string \<Rightarrow> string" where
  "padded width fill s = replicate (width - length s) fill @ s"

record tm =
  tm_year :: int
  tm_mon :: int
  tm_mday :: int
  tm_hour :: int
  tm_min :: int
  tm_sec :: int

definition two :: "int \<Rightarrow> string" where
  "two n = padded 2 (CHR ''0'') (to_string n)"

text \<open>The format \<open>%4d-%02d-%02dT%02d:%02d:%02dZ\<close>, for fields that are not negative.\<close>

definition timebuf :: "tm \<Rightarrow> string" where
  "timebuf t =
     padded 4 (CHR '' '') (to_string (tm_year t + 1900)) @ ''-'' @ two (tm_mon t + 1) @ ''-'' @ two (tm_mday t) @ ''T'' @
     two (tm_hour t) @ '':'' @ two (tm_min t) @ '':'' @ two (tm_sec t) @ ''Z''"

text \<open>The generated file name; \<open>seq\<close> is the process-wide counter after its increment.\<close>

definition MakeFilename :: "tm \<Rightarrow> int \<Rightarrow> int \<Rightarrow> string \<Rightarrow> string \<Rightarrow> string" where
  "MakeFilename t pid seq prefix ext =
     prefix @ ''.'' @ padded 4 (CHR ''0'') (to_string (tm_year t + 1900)) @ two (tm_mon t + 1) @ two (tm_mday t) @
     ''.'' @ two (tm_hour t) @ two (tm_min t) @ two (tm_sec t) @ ''.'' @ to_string pid @
     ''.'' @ padded 3 (CHR ''0'') (to_string seq) @ ''.'' @ ext"

section \<open>The JavaScript error\<close>

text \<open>
  The error of the report: none, an object with its \<open>stack\<close> (if it can be read) and its own properties (if they can be
  listed; a key is none if it is not a string, a value none if it cannot be read as a string), or another
  value with its text.
\<close>

datatype js_error =
    Empty
  | Error_object "string option" "(string option \<times> string option) list option"
  | Other_value "string option"

definition find_newline :: "string \<Rightarrow> int" where
  "find_newline ss =
     (let line = takeWhile (\<lambda>c. c \<noteq> CHR 0x0A) ss in if length line = length ss then - 1 else int (length line))"

definition iswspace :: "char \<Rightarrow> bool" where
  "iswspace c = (c = CHR '' '' \<or> c = CHR 0x09 \<or> c = CHR 0x0A \<or> c = CHR 0x0B \<or> c = CHR 0x0C \<or> c = CHR 0x0D)"

function stack_loop :: "string \<Rightarrow> calls" where
  "stack_loop ss =
     (let line = find_newline ss
      in if line = - 1 then []
         else Put None (J_String (dropWhile iswspace (take (nat line) ss))) # stack_loop (drop (nat (line + 1)) ss))"
  by pat_completeness auto
termination
  by (relation "measure length") (simp_all add: find_newline_def Let_def nat_add_distrib proper_prefix split: if_splits)

declare stack_loop.simps [simp del]

definition PrintErrorText :: "string \<Rightarrow> calls" where
  "PrintErrorText ss =
     (let line = find_newline ss
      in if line = - 1 then [Put (Some ''message'') (J_String ss)]
         else [Put (Some ''message'') (J_String (take (nat line) ss)), Begin_array (Some ''stack'')] @
              stack_loop (drop (nat (line + 1)) ss) @ [End_array])"

record stack_sample =
  frames_count :: nat
  vm_state :: string
  stack_frames :: "(string \<times> string \<times> int \<times> int) list"

definition PrintJavaScriptErrorStackNoEval :: "stack_sample \<Rightarrow> string \<Rightarrow> calls" where
  "PrintJavaScriptErrorStackNoEval sample trigger =
     (if frames_count sample = 0
      then [Put (Some ''message'') (J_String (''No stack, VmState: '' @ vm_state sample)),
            Begin_array (Some ''stack''),
            Put None (J_String ''Unavailable.''),
            End_array]
      else [put_text ''message'' trigger, Begin_array (Some ''stack'')] @
           map (\<lambda>(fn, script, line, col).
             Put None (J_String (''at '' @ c_string fn @ '' ('' @ c_string script @ '':'' @ to_string line @ '':'' @ to_string col @ '')''))) (stack_frames sample) @
           [End_array])"

definition PrintJavaScriptErrorStack :: "stack_sample \<Rightarrow> js_error \<Rightarrow> string \<Rightarrow> calls" where
  "PrintJavaScriptErrorStack sample err trigger =
     (if c_string trigger = ''FatalError'' \<or> c_string trigger = ''Signal''
      then PrintJavaScriptErrorStackNoEval sample trigger
      else PrintErrorText
        (case err of
           Error_object stack _ \<Rightarrow> (case stack of None \<Rightarrow> [] | Some ss \<Rightarrow> ss)
         | Other_value (Some ss) \<Rightarrow> ss
         | _ \<Rightarrow> []))"

definition PrintJavaScriptErrorProperties :: "js_error \<Rightarrow> calls" where
  "PrintJavaScriptErrorProperties err =
     [Begin_dict (Some ''errorProperties'')] @
     (case err of
        Error_object _ (Some props) \<Rightarrow>
          concat (map (\<lambda>(k, v).
            case (k, v) of
              (Some k, Some v) \<Rightarrow>
                if c_string k = ''stack'' \<or> c_string k = ''message'' then [] else [Put (Some k) (J_String v)]
            | _ \<Rightarrow> []) props)
      | _ \<Rightarrow> []) @
     [End_dict True]"

section \<open>The handles of the loop\<close>

datatype uv_type =
  UV_FS_EVENT | UV_FS_POLL | UV_TCP | UV_UDP | UV_NAMED_PIPE | UV_TIMER | UV_TTY | UV_POLL | UV_OTHER string

text \<open>An address: the host that name resolution and the numeric conversion give, if any, and the port.\<close>

record sockaddr =
  sa_nameinfo :: "string option"
  sa_numeric :: "string option"
  sa_port :: int

text \<open>
  The answer of libuv to a question for a name, asked with a buffer of the given size: the name and its length, the size that is
  needed, or an error.
\<close>

datatype uv_reply = Reply_ok string nat | Reply_nobufs nat | Reply_error

type_synonym uv_question = "nat \<Rightarrow> uv_reply"

record uv_handle =
  h_type :: uv_type
  h_type_name :: string
  h_is_active :: bool
  h_has_ref :: bool
  h_address :: "64 word"
  h_sockname :: "sockaddr option"
  h_peername :: "sockaddr option"
  h_pipe_sockname :: uv_question
  h_pipe_peername :: uv_question
  h_path :: uv_question
  h_timeout :: "64 word"
  h_now :: "64 word"
  h_repeat :: "64 word"
  h_winsize :: "(int \<times> int) option"
  h_send_size :: int
  h_recv_size :: int
  h_fd :: "int option"
  h_write_queue_size :: nat
  h_readable :: bool
  h_writable :: bool

definition ReportEndpoint :: "sockaddr option \<Rightarrow> string \<Rightarrow> calls" where
  "ReportEndpoint addr name =
     (case addr of
        None \<Rightarrow> [put_null name]
      | Some a \<Rightarrow>
          (let host = (case sa_nameinfo a of Some host \<Rightarrow> Some host | None \<Rightarrow> sa_numeric a)
           in [Begin_dict (Some name)] @ if_some host (\<lambda>host. [put_text ''host'' host]) @ [put_number ''port'' (sa_port a), End_dict True]))"

definition ReportEndpoints :: "uv_handle \<Rightarrow> calls" where
  "ReportEndpoints h = ReportEndpoint (h_sockname h) ''localEndpoint'' @ ReportEndpoint (h_peername h) ''remoteEndpoint''"

text \<open>The buffer for the names of a pipe (null or a text) and its size, after a question and after \<open>Realloc\<close>.\<close>

fun after_reply :: "uv_reply \<Rightarrow> string option \<times> nat \<Rightarrow> string option \<times> nat" where
  "after_reply (Reply_ok name n) (buffer, buffer_size) = (map_option (\<lambda>_. name) buffer, n)"
| "after_reply (Reply_nobufs n) (buffer, buffer_size) = (buffer, n)"
| "after_reply Reply_error (buffer, buffer_size) = (buffer, buffer_size)"

definition grown :: "nat \<Rightarrow> string option \<Rightarrow> string option" where
  "grown n buffer = (if n = 0 then None else Some (case buffer of None \<Rightarrow> [] | Some s \<Rightarrow> s))"

definition pipe_endpoint :: "string \<Rightarrow> uv_question \<Rightarrow> string option \<times> nat \<Rightarrow> calls \<times> string option \<times> nat" where
  "pipe_endpoint name ask = (\<lambda>(buffer, buffer_size).
     let rc = ask buffer_size;
         (buffer, buffer_size) = after_reply rc (buffer, buffer_size);
         (rc, buffer, buffer_size) =
           (case rc of
              Reply_nobufs _ \<Rightarrow>
                let buffer = grown buffer_size buffer
                in if buffer \<noteq> None then let rc = ask buffer_size in (rc, after_reply rc (buffer, buffer_size)) else (rc, buffer, buffer_size)
            | _ \<Rightarrow> (rc, buffer, buffer_size))
     in ((case (rc, buffer) of
            (Reply_ok _ _, Some s) \<Rightarrow> if buffer_size \<noteq> 0 then [put_text name s] else [put_null name]
          | _ \<Rightarrow> [put_null name]), buffer, buffer_size))"

definition ReportPipeEndpoints :: "uv_handle \<Rightarrow> calls" where
  "ReportPipeEndpoints h =
     (case pipe_endpoint ''localEndpoint'' (h_pipe_sockname h) (None, 0) of (calls, buffer, buffer_size) \<Rightarrow>
      case pipe_endpoint ''remoteEndpoint'' (h_pipe_peername h) (buffer, buffer_size) of (calls', _) \<Rightarrow> calls @ calls')"

definition ReportPath :: "uv_handle \<Rightarrow> calls" where
  "ReportPath h =
     (if h_type h = UV_FS_EVENT
      then (case h_path h 0 of
              Reply_nobufs buffer_size \<Rightarrow>
                (case h_path h buffer_size of Reply_ok path _ \<Rightarrow> [put_text ''filename'' path] | _ \<Rightarrow> [put_null ''filename''])
            | _ \<Rightarrow> [put_null ''filename''])
      else [put_null ''filename''])"

definition stdio_name :: "int \<Rightarrow> calls" where
  "stdio_name fd =
     (if fd = 0 then [put_text ''stdio'' ''stdin'']
      else if fd = 1 then [put_text ''stdio'' ''stdout'']
      else if fd = 2 then [put_text ''stdio'' ''stderr'']
      else [])"

definition WalkHandle :: "uv_handle \<Rightarrow> calls" where
  "WalkHandle h =
     [Begin_dict None,
      put_text ''type'' (h_type_name h),
      put_bool ''is_active'' (h_is_active h),
      put_bool ''is_referenced'' (h_has_ref h),
      put_text ''address'' (ValueToHexString (h_address h))] @
     (case h_type h of
        UV_FS_EVENT \<Rightarrow> ReportPath h
      | UV_FS_POLL \<Rightarrow> ReportPath h
      | UV_TCP \<Rightarrow> ReportEndpoints h
      | UV_UDP \<Rightarrow> ReportEndpoints h
      | UV_NAMED_PIPE \<Rightarrow> ReportPipeEndpoints h
      | UV_TIMER \<Rightarrow>
          [put_number ''repeat'' (uint (h_repeat h)),
           put_number ''firesInMsFromNow'' (sint (h_timeout h - h_now h)),
           put_bool ''expired'' (h_now h \<ge> h_timeout h)]
      | UV_TTY \<Rightarrow> if_some (h_winsize h) (\<lambda>(width, height). [put_number ''width'' width, put_number ''height'' height])
      | _ \<Rightarrow> []) @
     (if h_type h = UV_TCP \<or> h_type h = UV_UDP \<or> h_type h = UV_NAMED_PIPE
      then [put_number ''sendBufferSize'' (h_send_size h), put_number ''recvBufferSize'' (h_recv_size h)] else []) @
     (if h_type h = UV_TCP \<or> h_type h = UV_NAMED_PIPE \<or> h_type h = UV_TTY \<or> h_type h = UV_UDP \<or> h_type h = UV_POLL
      then if_some (h_fd h) (\<lambda>fd. put_number ''fd'' fd # stdio_name fd) else []) @
     (if h_type h = UV_TCP \<or> h_type h = UV_NAMED_PIPE \<or> h_type h = UV_TTY
      then [put_number ''writeQueueSize'' (int (h_write_queue_size h)),
            put_bool ''readable'' (h_readable h),
            put_bool ''writable'' (h_writable h)] else []) @
     [End_dict False]"

section \<open>The sections of the report\<close>

record heap_space =
  space_name :: string
  space_size :: nat
  physical_space_size :: nat
  space_used_size :: nat
  space_available_size :: nat

record heap_stats =
  total_heap_size :: nat
  total_physical_size :: nat
  used_heap_size :: nat
  total_available_size :: nat
  heap_size_limit :: nat
  heap_spaces :: "heap_space list"

record rusage =
  ru_utime :: "int \<times> int"
  ru_stime :: "int \<times> int"
  ru_maxrss :: int
  ru_majflt :: int
  ru_minflt :: int
  ru_inblock :: int
  ru_oublock :: int

record facts =
  f_time :: tm
  f_timeofday :: "(int \<times> int) option"
  f_pid :: int
  f_cwd :: "string option"
  f_version :: string
  f_libc_version :: "string option"
  f_glibc_compiler :: "string option"
  f_arch :: string
  f_platform :: string
  f_component_versions :: "string \<Rightarrow> string"
  f_uname :: "(string \<times> string \<times> string \<times> string) option"
  f_host :: "string option"
  f_sample :: stack_sample
  f_native_frames :: "(64 word \<times> string) list"
  f_heap :: heap_stats
  f_handles :: "uv_handle list option"
  f_loop_alive :: bool
  f_loop_address :: "64 word"
  f_hrtime :: "64 word"
  f_time_origin :: "64 word"
  f_rusage :: "rusage option"
  f_environ :: "key_value list option"
  f_rlimit :: "string \<Rightarrow> (nat option \<times> nat option) option"
  f_loaded_libraries :: "string list"

definition version_keys :: "string list" where
  "version_keys = [''ada'', ''aworker'', ''curl'', ''v8'', ''uv'', ''zlib'']"

definition PrintComponentVersions :: "facts \<Rightarrow> calls" where
  "PrintComponentVersions F =
     [Begin_dict (Some ''componentVersions'')] @
     map (\<lambda>key. Put (Some key) (J_String (f_component_versions F key))) version_keys @
     [End_dict True]"

definition PrintVersionInformation :: "facts \<Rightarrow> calls" where
  "PrintVersionInformation F =
     [put_text ''aworkerVersion'' (f_version F)] @
     if_some (f_libc_version F) (\<lambda>v. [put_text ''glibcVersionRuntime'' v]) @
     if_some (f_glibc_compiler F) (\<lambda>v. [put_text ''glibcVersionCompiler'' v]) @
     [put_number ''wordSize'' 64,
      put_text ''arch'' (f_arch F),
      put_text ''platform'' (f_platform F)] @
     PrintComponentVersions F @
     if_some (f_uname F) (\<lambda>(sysname, release, version, machine).
       [put_text ''osName'' sysname,
        put_text ''osRelease'' release,
        put_text ''osVersion'' version,
        put_text ''osMachine'' machine]) @
     if_some (f_host F) (\<lambda>host. [put_text ''host'' host])"

definition PrintNativeStack :: "facts \<Rightarrow> calls" where
  "PrintNativeStack F =
     [Begin_array (Some ''nativeStack'')] @
     concat (map (\<lambda>(pc, symbol).
       [Begin_dict None,
        put_text ''pc'' (ValueToHexString pc),
        put_text ''symbol'' symbol,
        End_dict False]) (drop 1 (f_native_frames F))) @
     [End_array]"

definition PrintGCStatistics :: "facts \<Rightarrow> calls" where
  "PrintGCStatistics F =
     [Begin_dict (Some ''javascriptHeap''),
      put_number ''totalMemory'' (int (total_heap_size (f_heap F))),
      put_number ''totalCommittedMemory'' (int (total_physical_size (f_heap F))),
      put_number ''usedMemory'' (int (used_heap_size (f_heap F))),
      put_number ''availableMemory'' (int (total_available_size (f_heap F))),
      put_number ''memoryLimit'' (int (heap_size_limit (f_heap F))),
      Begin_dict (Some ''heapSpaces'')] @
     concat (map (\<lambda>sp.
       [Begin_dict (Some (c_string (space_name sp))),
        put_number ''memorySize'' (int (space_size sp)),
        put_number ''committedMemory'' (int (physical_space_size sp)),
        put_number ''capacity'' (int (space_used_size sp + space_available_size sp)),
        put_number ''used'' (int (space_used_size sp)),
        put_number ''available'' (int (space_available_size sp)),
        End_dict True]) (heap_spaces (f_heap F))) @
     [End_dict True,
      End_dict True]"

definition PrintUvLoopResources :: "facts \<Rightarrow> calls" where
  "PrintUvLoopResources F =
     [Begin_array (Some ''libuv'')] @
     if_some (f_handles F) (\<lambda>handles.
       concat (map WalkHandle handles) @
       [Begin_dict None,
        put_text ''type'' ''loop'',
        put_bool ''is_active'' (f_loop_alive F),
        put_text ''address'' (ValueToHexString (f_loop_address F)),
        End_dict False]) @
     [End_array]"

text \<open>
  The processor times in seconds and the percentage of the uptime, as a stream prints the doubles: an argument
  (uptime, user time, system time).
\<close>

type_synonym cpu_texts = "nat \<Rightarrow> int \<times> int \<Rightarrow> int \<times> int \<Rightarrow> string \<times> string \<times> string"

definition PrintResourceUsage :: "cpu_texts \<Rightarrow> facts \<Rightarrow> calls" where
  "PrintResourceUsage show_cpu F =
     (let uptime = unat (f_hrtime F - f_time_origin F) div 1000000000;
          uptime = (if uptime = 0 then 1 else uptime)
      in [Begin_dict (Some ''resourceUsage'')] @
         if_some (f_rusage F) (\<lambda>ru.
           case show_cpu uptime (ru_utime ru) (ru_stime ru) of (user_cpu, kernel_cpu, cpu_percentage) \<Rightarrow>
           [Put (Some ''userCpuSeconds'') (J_Double user_cpu),
            Put (Some ''kernelCpuSeconds'') (J_Double kernel_cpu),
            Put (Some ''cpuConsumptionPercent'') (J_Double cpu_percentage),
            put_number ''maxRss'' (ru_maxrss ru * 1024),
            Begin_dict (Some ''pageFaults''),
            put_number ''IORequired'' (ru_majflt ru),
            put_number ''IONotRequired'' (ru_minflt ru),
            End_dict True,
            Begin_dict (Some ''fsActivity''),
            put_number ''reads'' (ru_inblock ru),
            put_number ''writes'' (ru_oublock ru),
            End_dict True]) @
         [End_dict True])"

definition PrintLoadedLibraries :: "facts \<Rightarrow> calls" where
  "PrintLoadedLibraries F =
     [Begin_array (Some ''sharedObjects'')] @
     map (\<lambda>module_name. Put None (J_String module_name)) (f_loaded_libraries F) @
     [End_array]"

definition rlimit_strings :: "string list" where
  "rlimit_strings =
     [''core_file_size_blocks'', ''data_seg_size_kbytes'', ''file_size_blocks'', ''max_locked_memory_bytes'',
      ''max_memory_size_kbytes'', ''open_files'', ''stack_size_bytes'', ''cpu_time_seconds'', ''max_user_processes'',
      ''virtual_memory_kbytes'']"

definition put_limit :: "string \<Rightarrow> nat option \<Rightarrow> json_scalar bop" where
  "put_limit k limit = (case limit of None \<Rightarrow> put_text k ''unlimited'' | Some n \<Rightarrow> put_number k (int n))"

definition PrintSystemInformation :: "facts \<Rightarrow> calls" where
  "PrintSystemInformation F =
     [Begin_dict (Some ''environmentVariables'')] @
     if_some (f_environ F) (\<lambda>items. map (\<lambda>(name, value). Put (Some (c_string name)) (J_String (c_string value))) items) @
     [End_dict True,
      Begin_dict (Some ''userLimits'')] @
     concat (map (\<lambda>description.
       if_some (f_rlimit F description) (\<lambda>(soft, hard).
         [Begin_dict (Some description),
          put_limit ''soft'' soft,
          put_limit ''hard'' hard,
          End_dict True])) rlimit_strings) @
     [End_dict True] @
     PrintLoadedLibraries F"

definition WriteDiagReport :: "cpu_texts \<Rightarrow> facts \<Rightarrow> string \<Rightarrow> string \<Rightarrow> string \<Rightarrow> js_error \<Rightarrow> calls" where
  "WriteDiagReport show_cpu F message trigger filename err =
     [Begin_dict None,
      Begin_dict (Some ''header''),
      put_number ''reportVersion'' 2,
      put_text ''event'' message,
      put_text ''trigger'' trigger] @
     (if filename \<noteq> [] then [Put (Some ''filename'') (J_String filename)] else [put_null ''filename'']) @
     [put_text ''dumpEventTime'' (timebuf (f_time F))] @
     if_some (f_timeofday F) (\<lambda>(sec, usec). [put_text ''dumpEventTimeStamp'' (to_string (sec * 1000 + usec div 1000))]) @
     [put_number ''processId'' (f_pid F)] @
     if_some (f_cwd F) (\<lambda>buf. [put_text ''cwd'' buf]) @
     PrintVersionInformation F @
     [End_dict True,
      Begin_dict (Some ''javascriptStack'')] @
     PrintJavaScriptErrorStack (f_sample F) err trigger @
     PrintJavaScriptErrorProperties err @
     [End_dict True] @
     PrintNativeStack F @
     PrintGCStatistics F @
     PrintUvLoopResources F @
     PrintResourceUsage show_cpu F @
     PrintSystemInformation F @
     [End_dict True]"

text \<open>Where the report goes, and what the call returns: the name, or nothing if the file cannot be opened.\<close>

datatype report_target = Stdout | Stderr | Report_file string

definition report_target :: "string \<Rightarrow> string \<Rightarrow> report_target" where
  "report_target filename report_directory =
     (if filename = ''stdout'' then Stdout
      else if filename = ''stderr'' then Stderr
      else if length report_directory > 0 then Report_file (report_directory @ ''/'' @ filename)
      else Report_file filename)"

definition TriggerDiagReport ::
  "(string \<Rightarrow> bool) \<Rightarrow> cpu_texts \<Rightarrow> facts \<Rightarrow> string \<Rightarrow> string \<Rightarrow> bool \<Rightarrow> int \<Rightarrow> string \<Rightarrow> string \<Rightarrow> js_error \<Rightarrow>
   (report_target \<times> string) option \<times> string" where
  "TriggerDiagReport can_open show_cpu F report_filename report_directory compact seq message trigger err =
     (let filename = (if report_filename = [] then MakeFilename (f_time F) (f_pid F) seq ''report'' ''json'' else report_filename);
          target = report_target filename report_directory;
          opened = (case target of Report_file path \<Rightarrow> can_open path | _ \<Rightarrow> True)
      in if \<not> opened then (None, [])
         else (Some (target, jw_out (fold json_call (WriteDiagReport show_cpu F message trigger filename err) (JSONWriter_new compact))), filename))"

text \<open>The report to a given stream: no file name, never compact.\<close>

definition GetDiagReport :: "cpu_texts \<Rightarrow> facts \<Rightarrow> string \<Rightarrow> string \<Rightarrow> js_error \<Rightarrow> string" where
  "GetDiagReport show_cpu F message trigger err =
     jw_out (fold json_call (WriteDiagReport show_cpu F message trigger [] err) (JSONWriter_new False))"

end
