(* ===== verification/ReportDocument.thy ===== *)
theory ReportDocument
  imports Report
begin

text \<open>
  The document a diagnostic report is, section by section, from the facts it is given, and the proof
  that the calls of src/src/diag_report.cc build it.
\<close>

definition text_doc :: "string \<Rightarrow> json" where
  "text_doc s = Str (map Byte (c_string s))"

definition raw_doc :: "string \<Rightarrow> json" where
  "raw_doc s = Str (map Byte s)"

definition num_doc :: "int \<Rightarrow> json" where
  "num_doc n = Num (to_string n)"

definition opt :: "'a option \<Rightarrow> ('a \<Rightarrow> 'b list) \<Rightarrow> 'b list" where
  "opt x f = (case x of None \<Rightarrow> [] | Some y \<Rightarrow> f y)"

lemma put_docs [simp]:
  "build (map Byte) json_doc (put_text k s) (Members old, outs) = Some (Members (old @ [(map Byte k, text_doc s)]), outs)"
  "build (map Byte) json_doc (put_number k n) (Members old, outs) = Some (Members (old @ [(map Byte k, num_doc n)]), outs)"
  "build (map Byte) json_doc (put_bool k b) (Members old, outs) = Some (Members (old @ [(map Byte k, Bool b)]), outs)"
  "build (map Byte) json_doc (put_null k) (Members old, outs) = Some (Members (old @ [(map Byte k, Null)]), outs)"
  by (simp_all add: put_text_def put_number_def put_bool_def put_null_def json_doc_def text_doc_def num_doc_def)

lemma scalar_docs: "json_doc (J_String s) = raw_doc s" "json_doc (J_Double t) = Num t"
  by (simp_all add: json_doc_def raw_doc_def)

lemma adds_members_if_some: "(\<And>y. x = Some y \<Longrightarrow> adds_members (f y) (g y)) \<Longrightarrow> adds_members (if_some x f) (opt x g)"
  by (cases x) (simp_all add: if_some_def opt_def adds_members_Nil)

lemma adds_elements_if_some: "(\<And>y. x = Some y \<Longrightarrow> adds_elements (f y) (g y)) \<Longrightarrow> adds_elements (if_some x f) (opt x g)"
  by (cases x) (simp_all add: if_some_def opt_def adds_elements_Nil)

lemmas adds_simps = adds_members_def adds_elements_def build_calls_Cons build_calls_append members_def scalar_docs

definition version_members :: "facts \<Rightarrow> (string \<times> json) list" where
  "version_members F =
     [(''aworkerVersion'', text_doc (f_version F))] @
     opt (f_libc_version F) (\<lambda>v. [(''glibcVersionRuntime'', text_doc v)]) @
     opt (f_glibc_compiler F) (\<lambda>v. [(''glibcVersionCompiler'', text_doc v)]) @
     [(''wordSize'', num_doc 64), (''arch'', text_doc (f_arch F)), (''platform'', text_doc (f_platform F))] @
     [(''componentVersions'', members (map (\<lambda>k. (k, raw_doc (f_component_versions F k))) version_keys))] @
     opt (f_uname F) (\<lambda>(sysname, release, version, machine).
       [(''osName'', text_doc sysname), (''osRelease'', text_doc release), (''osVersion'', text_doc version), (''osMachine'', text_doc machine)]) @
     opt (f_host F) (\<lambda>host. [(''host'', text_doc host)])"

lemma adds_member_map: "adds_members (map (\<lambda>x. Put (Some (k x)) (v x)) xs) (map (\<lambda>x. (k x, json_doc (v x))) xs)"
  by (induction xs) (auto intro: call_rules)

lemma component_members:
  "adds_members (PrintComponentVersions F) [(''componentVersions'', members (map (\<lambda>k. (k, raw_doc (f_component_versions F k))) version_keys))]"
  using adds_member_map [of "\<lambda>k. k" "\<lambda>k. J_String (f_component_versions F k)" version_keys]
  by (simp add: PrintComponentVersions_def adds_simps)

lemma version_information: "adds_members (PrintVersionInformation F) (version_members F)"
  unfolding PrintVersionInformation_def version_members_def
  by (intro adds_members_append adds_members_if_some component_members) (simp_all add: adds_simps split: prod.split)

text \<open>All lines of a text; the last one is what follows the last newline.\<close>

fun lines_of :: "string \<Rightarrow> string list" where
  "lines_of [] = [[]]"
| "lines_of (c # s) = (if c = CHR 0x0A then [] # lines_of s else (case lines_of s of l # ls \<Rightarrow> (c # l) # ls | [] \<Rightarrow> []))"

definition error_members :: "string \<Rightarrow> (string \<times> json) list" where
  "error_members ss =
     (case lines_of ss of
        l # ls \<Rightarrow> (''message'', raw_doc l) #
          (if ls = [] then [] else [(''stack'', Arr (map (\<lambda>l. raw_doc (dropWhile iswspace l)) (butlast ls)))])
      | [] \<Rightarrow> [])"

lemma lines_of_nonempty: "lines_of s \<noteq> []"
  by (induction s) (auto split: list.splits)

lemma find_newline_cases:
  "find_newline ss = - 1 \<and> lines_of ss = [ss] \<or>
   (\<exists>l r. ss = l @ CHR 0x0A # r \<and> find_newline ss = int (length l) \<and> lines_of ss = l # lines_of r)"
proof (induction ss)
  case Nil
  show ?case by (simp add: find_newline_def)
next
  case (Cons c s)
  show ?case
  proof (cases "c = CHR 0x0A")
    case True
    then show ?thesis by (intro disjI2 exI [of _ "[]"] exI [of _ s]) (simp add: find_newline_def)
  next
    case False
    then have f: "find_newline (c # s) = (if find_newline s = - 1 then - 1 else find_newline s + 1)"
      by (simp add: find_newline_def Let_def)
    from Cons show ?thesis
    proof (elim disjE exE conjE)
      assume "find_newline s = - 1" "lines_of s = [s]"
      then show ?thesis using False f by simp
    next
      fix l r
      assume "s = l @ CHR 0x0A # r" "find_newline s = int (length l)" "lines_of s = l # lines_of r"
      then show ?thesis using False f by (intro disjI2 exI [of _ "c # l"] exI [of _ r]) simp
    qed
  qed
qed

lemma adds_element_map: "adds_elements (map (\<lambda>x. Put None (v x)) xs) (map (\<lambda>x. json_doc (v x)) xs)"
  by (induction xs) (auto intro: call_rules)

definition stack_lines_calls :: "string list \<Rightarrow> calls" where
  "stack_lines_calls ls = map (\<lambda>l. Put None (J_String (dropWhile iswspace l))) ls"

lemma stack_loop_lines: "stack_loop ss = stack_lines_calls (butlast (lines_of ss))"
proof (induction ss rule: stack_loop.induct)
  case (1 ss)
  from find_newline_cases [of ss] show ?case
  proof (elim disjE exE conjE)
    assume "find_newline ss = - 1" "lines_of ss = [ss]"
    then show ?thesis by (subst stack_loop.simps) (simp add: stack_lines_calls_def)
  next
    fix l r
    assume s: "ss = l @ CHR 0x0A # r" "find_newline ss = int (length l)" "lines_of ss = l # lines_of r"
    have "stack_loop r = stack_lines_calls (butlast (lines_of r))"
      using 1 [OF refl] s by (simp add: nat_add_distrib)
    then show ?thesis using s lines_of_nonempty [of r]
      by (subst stack_loop.simps) (simp add: Let_def nat_add_distrib stack_lines_calls_def)
  qed
qed

lemma stack_lines: "adds_elements (stack_loop ss) (map (\<lambda>l. raw_doc (dropWhile iswspace l)) (butlast (lines_of ss)))"
  using adds_element_map [of "\<lambda>l. J_String (dropWhile iswspace l)"] by (simp add: stack_loop_lines stack_lines_calls_def scalar_docs)

lemma error_text: "adds_members (PrintErrorText ss) (error_members ss)"
proof -
  from find_newline_cases [of ss] show ?thesis
  proof (elim disjE exE conjE)
    assume "find_newline ss = - 1" "lines_of ss = [ss]"
    then show ?thesis by (simp add: PrintErrorText_def error_members_def adds_simps)
  next
    fix l r
    assume s: "ss = l @ CHR 0x0A # r" "find_newline ss = int (length l)" "lines_of ss = l # lines_of r"
    show ?thesis using stack_lines [of r] lines_of_nonempty [of r]
      by (simp add: PrintErrorText_def error_members_def s(2,3) Let_def nat_add_distrib adds_simps) (simp add: s(1) build_calls_Cons)
  qed
qed

definition stack_members :: "stack_sample \<Rightarrow> js_error \<Rightarrow> string \<Rightarrow> (string \<times> json) list" where
  "stack_members sample err trigger =
     (if c_string trigger = ''FatalError'' \<or> c_string trigger = ''Signal''
      then if frames_count sample = 0
           then [(''message'', raw_doc (''No stack, VmState: '' @ vm_state sample)), (''stack'', Arr [raw_doc ''Unavailable.''])]
           else [(''message'', text_doc trigger),
                 (''stack'', Arr (map (\<lambda>(fn, script, line, col).
                    raw_doc (''at '' @ c_string fn @ '' ('' @ c_string script @ '':'' @ to_string line @ '':'' @ to_string col @ '')'')) (stack_frames sample)))]
      else error_members
        (case err of
           Error_object stack _ \<Rightarrow> (case stack of None \<Rightarrow> [] | Some ss \<Rightarrow> ss)
         | Other_value (Some ss) \<Rightarrow> ss
         | _ \<Rightarrow> []))"

lemma error_stack: "adds_members (PrintJavaScriptErrorStack sample err trigger) (stack_members sample err trigger)"
proof -
  have "adds_elements
      (map (\<lambda>(fn, script, line, col).
        Put None (J_String (''at '' @ c_string fn @ '' ('' @ c_string script @ '':'' @ to_string line @ '':'' @ to_string col @ '')''))) fs)
      (map (\<lambda>(fn, script, line, col).
        raw_doc (''at '' @ c_string fn @ '' ('' @ c_string script @ '':'' @ to_string line @ '':'' @ to_string col @ '')'')) fs)" for fs
    by (induction fs) (auto intro: call_rules simp: scalar_docs [symmetric])
  then show ?thesis
    using error_text
    by (auto simp: PrintJavaScriptErrorStack_def stack_members_def PrintJavaScriptErrorStackNoEval_def adds_simps)
qed

definition property_members :: "js_error \<Rightarrow> (string \<times> json) list" where
  "property_members err =
     (case err of
        Error_object _ (Some props) \<Rightarrow>
          [(k, raw_doc v). (Some k, Some v) \<leftarrow> props, c_string k \<noteq> ''stack'', c_string k \<noteq> ''message'']
      | _ \<Rightarrow> [])"

lemma error_properties:
  "adds_members (PrintJavaScriptErrorProperties err) [(''errorProperties'', members (property_members err))]"
proof -
  have "adds_members
      (concat (map (\<lambda>(k, v). case (k, v) of
          (Some k, Some v) \<Rightarrow> if c_string k = ''stack'' \<or> c_string k = ''message'' then [] else [Put (Some k) (J_String v)]
        | _ \<Rightarrow> []) props))
      (concat (map (\<lambda>(k, v). case (k, v) of
          (Some k, Some v) \<Rightarrow> if c_string k = ''stack'' \<or> c_string k = ''message'' then [] else [(k, raw_doc v)]
        | _ \<Rightarrow> []) props))" for props
    by (rule adds_members_concat) (auto simp: adds_simps split: option.splits)
  moreover have "property_members (Error_object st (Some props)) =
      concat (map (\<lambda>(k, v). case (k, v) of
          (Some k, Some v) \<Rightarrow> if c_string k = ''stack'' \<or> c_string k = ''message'' then [] else [(k, raw_doc v)]
        | _ \<Rightarrow> []) props)" for st props
    by (induction props) (auto simp: property_members_def split: option.splits)
  ultimately have "adds_members
      (case err of
        Error_object _ (Some props) \<Rightarrow>
          concat (map (\<lambda>(k, v).
            case (k, v) of
              (Some k, Some v) \<Rightarrow>
                if c_string k = ''stack'' \<or> c_string k = ''message'' then [] else [Put (Some k) (J_String v)]
            | _ \<Rightarrow> []) props)
      | _ \<Rightarrow> []) (property_members err)"
    by (cases err) (auto simp: adds_members_Nil property_members_def [of "Error_object _ None"] property_members_def [of Empty]
        property_members_def [of "Other_value _"] split: option.split)
  then show ?thesis by (simp add: PrintJavaScriptErrorProperties_def adds_simps)
qed

definition native_elements :: "facts \<Rightarrow> json list" where
  "native_elements F =
     map (\<lambda>(pc, symbol). members [(''pc'', text_doc (ValueToHexString pc)), (''symbol'', text_doc symbol)]) (drop 1 (f_native_frames F))"

lemma native_stack: "adds_members (PrintNativeStack F) [(''nativeStack'', Arr (native_elements F))]"
proof -
  have "adds_elements (concat (map (\<lambda>(pc, symbol).
       [Begin_dict None, put_text ''pc'' (ValueToHexString pc), put_text ''symbol'' symbol, End_dict False]) fs))
     (concat (map (\<lambda>(pc, symbol). [members [(''pc'', text_doc (ValueToHexString pc)), (''symbol'', text_doc symbol)]]) fs))" for fs
    by (rule adds_elements_concat) (auto simp: adds_simps)
  moreover have "concat (map (\<lambda>(pc, symbol). [members [(''pc'', text_doc (ValueToHexString pc)), (''symbol'', text_doc symbol)]]) (drop 1 (f_native_frames F))) =
      native_elements F"
    by (simp add: native_elements_def case_prod_beta')
  ultimately have "adds_elements (concat (map (\<lambda>(pc, symbol).
       [Begin_dict None, put_text ''pc'' (ValueToHexString pc), put_text ''symbol'' symbol, End_dict False]) (drop 1 (f_native_frames F)))) (native_elements F)"
    by metis
  then show ?thesis by (simp add: PrintNativeStack_def adds_simps)
qed

definition space_member :: "heap_space \<Rightarrow> string \<times> json" where
  "space_member sp =
     (c_string (space_name sp), members
        [(''memorySize'', num_doc (int (space_size sp))), (''committedMemory'', num_doc (int (physical_space_size sp))),
         (''capacity'', num_doc (int (space_used_size sp + space_available_size sp))), (''used'', num_doc (int (space_used_size sp))),
         (''available'', num_doc (int (space_available_size sp)))])"

definition heap_members :: "heap_stats \<Rightarrow> (string \<times> json) list" where
  "heap_members H =
     [(''totalMemory'', num_doc (int (total_heap_size H))), (''totalCommittedMemory'', num_doc (int (total_physical_size H))),
      (''usedMemory'', num_doc (int (used_heap_size H))), (''availableMemory'', num_doc (int (total_available_size H))),
      (''memoryLimit'', num_doc (int (heap_size_limit H))), (''heapSpaces'', members (map space_member (heap_spaces H)))]"

lemma gc_statistics: "adds_members (PrintGCStatistics F) [(''javascriptHeap'', members (heap_members (f_heap F)))]"
proof -
  have "adds_members (concat (map (\<lambda>sp.
       [Begin_dict (Some (c_string (space_name sp))), put_number ''memorySize'' (int (space_size sp)),
        put_number ''committedMemory'' (int (physical_space_size sp)),
        put_number ''capacity'' (int (space_used_size sp + space_available_size sp)),
        put_number ''used'' (int (space_used_size sp)), put_number ''available'' (int (space_available_size sp)),
        End_dict True]) sps)) (concat (map (\<lambda>sp. [space_member sp]) sps))" for sps
    by (rule adds_members_concat) (simp add: adds_simps space_member_def)
  then show ?thesis by (simp add: PrintGCStatistics_def heap_members_def adds_simps)
qed

definition usage_members :: "cpu_texts \<Rightarrow> nat \<Rightarrow> rusage \<Rightarrow> (string \<times> json) list" where
  "usage_members show_cpu uptime ru =
     (case show_cpu uptime (ru_utime ru) (ru_stime ru) of (user_cpu, kernel_cpu, cpu_percentage) \<Rightarrow>
        [(''userCpuSeconds'', Num user_cpu), (''kernelCpuSeconds'', Num kernel_cpu), (''cpuConsumptionPercent'', Num cpu_percentage),
         (''maxRss'', num_doc (ru_maxrss ru * 1024)),
         (''pageFaults'', members [(''IORequired'', num_doc (ru_majflt ru)), (''IONotRequired'', num_doc (ru_minflt ru))]),
         (''fsActivity'', members [(''reads'', num_doc (ru_inblock ru)), (''writes'', num_doc (ru_oublock ru))])])"

definition uptime_seconds :: "facts \<Rightarrow> nat" where
  "uptime_seconds F = max 1 (unat (f_hrtime F - f_time_origin F) div 1000000000)"

lemma resource_usage:
  "adds_members (PrintResourceUsage show_cpu F) [(''resourceUsage'', members (opt (f_rusage F) (usage_members show_cpu (uptime_seconds F))))]"
proof -
  have "(if unat (f_hrtime F - f_time_origin F) div 1000000000 = 0 then 1 else unat (f_hrtime F - f_time_origin F) div 1000000000) = uptime_seconds F"
    unfolding uptime_seconds_def by simp
  then have "PrintResourceUsage show_cpu F = [Begin_dict (Some ''resourceUsage'')] @
      if_some (f_rusage F) (\<lambda>ru.
           case show_cpu (uptime_seconds F) (ru_utime ru) (ru_stime ru) of (user_cpu, kernel_cpu, cpu_percentage) \<Rightarrow>
           [Put (Some ''userCpuSeconds'') (J_Double user_cpu),
            Put (Some ''kernelCpuSeconds'') (J_Double kernel_cpu),
            Put (Some ''cpuConsumptionPercent'') (J_Double cpu_percentage),
            put_number ''maxRss'' (ru_maxrss ru * 1024),
            Begin_dict (Some ''pageFaults''),
            put_number ''IORequired'' (ru_majflt ru),
            put_number ''IONotRequired'' (ru_minflt ru),
            End_dict True,
            Begin_dict (Some ''fsActivity''),
            put_number ''reads'' (ru_inblock ru),
            put_number ''writes'' (ru_oublock ru),
            End_dict True]) @ [End_dict True]"
    unfolding PrintResourceUsage_def Let_def by (simp only:)
  then show ?thesis
    by (cases "f_rusage F") (simp_all add: if_some_def opt_def usage_members_def adds_simps split: prod.split)
qed

text \<open>The member that names a handle, and the members every handle has.\<close>

definition handle_members :: "uv_handle \<Rightarrow> (string \<times> json) list" where
  "handle_members h =
     [(''type'', text_doc (h_type_name h)), (''is_active'', Bool (h_is_active h)), (''is_referenced'', Bool (h_has_ref h)),
      (''address'', text_doc (ValueToHexString (h_address h)))]"

definition describes :: "uv_handle \<Rightarrow> json \<Rightarrow> bool" where
  "describes h v = (\<exists>ms. v = members (handle_members h @ ms))"

definition some_members :: "calls \<Rightarrow> bool" where
  "some_members cs = (\<exists>ms. adds_members cs ms)"

lemma some_members_append: "some_members cs \<Longrightarrow> some_members ds \<Longrightarrow> some_members (cs @ ds)"
  unfolding some_members_def using adds_members_append by blast

lemma some_members_Nil: "some_members []"
  unfolding some_members_def using adds_members_Nil by blast

lemma some_members_puts:
  "some_members cs \<Longrightarrow> some_members (put_text k s # cs)"
  "some_members cs \<Longrightarrow> some_members (put_number k n # cs)"
  "some_members cs \<Longrightarrow> some_members (put_bool k b # cs)"
  "some_members cs \<Longrightarrow> some_members (put_null k # cs)"
  unfolding some_members_def put_text_def put_number_def put_bool_def put_null_def using adds_members_put by blast+

lemma some_members_object: "some_members cs \<Longrightarrow> some_members ([Begin_dict (Some k)] @ cs @ [End_dict True])"
  unfolding some_members_def using object_in_members by (fastforce simp: object_calls_def)

lemma endpoint_members: "some_members (ReportEndpoint addr name)"
proof (cases addr)
  case (Some a)
  have "some_members ([Begin_dict (Some name)] @ (if_some (case sa_nameinfo a of Some host \<Rightarrow> Some host | None \<Rightarrow> sa_numeric a)
      (\<lambda>host. [put_text ''host'' host]) @ [put_number ''port'' (sa_port a)]) @ [End_dict True])"
    by (intro some_members_object some_members_append)
       (auto simp: if_some_def intro: some_members_puts some_members_Nil split: option.split)
  then show ?thesis by (simp add: Some ReportEndpoint_def Let_def)
qed (simp add: ReportEndpoint_def some_members_puts some_members_Nil)

lemma pipe_endpoint_members: "some_members (fst (pipe_endpoint name ask b))"
  by (cases b) (auto simp: pipe_endpoint_def Let_def intro: some_members_puts some_members_Nil split: uv_reply.split option.split prod.split)

lemma pipe_members: "some_members (ReportPipeEndpoints h)"
  unfolding ReportPipeEndpoints_def
  using pipe_endpoint_members some_members_append by (simp add: case_prod_beta')

lemma path_members: "some_members (ReportPath h)"
  by (auto simp: ReportPath_def intro: some_members_puts some_members_Nil split: uv_reply.split)

lemma handle_object: "\<exists>v. describes h v \<and> adds_elements (WalkHandle h) [v]"
proof -
  define head where "head = [put_text ''type'' (h_type_name h), put_bool ''is_active'' (h_is_active h),
      put_bool ''is_referenced'' (h_has_ref h), put_text ''address'' (ValueToHexString (h_address h))]"
  obtain rest where w: "WalkHandle h = Begin_dict None # (head @ rest) @ [End_dict False]" and r: "some_members rest"
  proof
    show "WalkHandle h = Begin_dict None # (head @ butlast (drop 5 (WalkHandle h))) @ [End_dict False]"
      by (simp add: WalkHandle_def head_def butlast_append)
    show "some_members (butlast (drop 5 (WalkHandle h)))"
      by (cases "h_type h"; cases "h_fd h"; cases "h_winsize h")
         (simp_all add: WalkHandle_def butlast_append ReportEndpoints_def if_some_def stdio_name_def
            some_members_append some_members_puts some_members_Nil endpoint_members pipe_members path_members split: prod.split)
  qed
  from r obtain ms where "adds_members rest ms" unfolding some_members_def ..
  moreover have "adds_members head (handle_members h)"
    by (simp add: head_def handle_members_def adds_simps)
  ultimately have "adds_elements (WalkHandle h) [members (handle_members h @ ms)]"
    unfolding w by (intro object_in_elements adds_members_append)
  then show ?thesis unfolding describes_def by blast
qed

definition loop_doc :: "facts \<Rightarrow> json" where
  "loop_doc F = members [(''type'', text_doc ''loop''), (''is_active'', Bool (f_loop_alive F)),
     (''address'', text_doc (ValueToHexString (f_loop_address F)))]"

lemma handle_objects: "\<exists>vs. list_all2 describes hs vs \<and> adds_elements (concat (map WalkHandle hs)) vs"
proof (induction hs)
  case Nil
  show ?case using adds_elements_Nil by (intro exI [of _ "[]"]) simp
next
  case (Cons h hs)
  from Cons obtain vs where vs: "list_all2 describes hs vs" "adds_elements (concat (map WalkHandle hs)) vs" by blast
  from handle_object [of h] obtain v where "describes h v" "adds_elements (WalkHandle h) [v]" by blast
  then show ?case using vs adds_elements_append [of "WalkHandle h" "[v]"] by (intro exI [of _ "v # vs"]) simp
qed

definition libuv_elements :: "facts \<Rightarrow> json list \<Rightarrow> bool" where
  "libuv_elements F vs =
     (case f_handles F of None \<Rightarrow> vs = [] | Some hs \<Rightarrow> \<exists>us. vs = us @ [loop_doc F] \<and> list_all2 describes hs us)"

lemma uv_loop_resources: "\<exists>vs. libuv_elements F vs \<and> adds_members (PrintUvLoopResources F) [(''libuv'', Arr vs)]"
proof (cases "f_handles F")
  case None
  then show ?thesis by (intro exI [of _ "[]"]) (simp add: libuv_elements_def PrintUvLoopResources_def if_some_def adds_simps)
next
  case (Some hs)
  obtain us where "list_all2 describes hs us" "adds_elements (concat (map WalkHandle hs)) us"
    using handle_objects by blast
  then show ?thesis
    by (intro exI [of _ "us @ [loop_doc F]"]) (simp add: Some libuv_elements_def loop_doc_def PrintUvLoopResources_def if_some_def adds_simps)
qed

definition limit_doc :: "nat option \<Rightarrow> json" where
  "limit_doc limit = (case limit of None \<Rightarrow> text_doc ''unlimited'' | Some n \<Rightarrow> num_doc (int n))"

definition environment_members :: "facts \<Rightarrow> (string \<times> json) list" where
  "environment_members F = opt (f_environ F) (map (\<lambda>(name, value). (c_string name, raw_doc (c_string value))))"

definition limit_members :: "facts \<Rightarrow> (string \<times> json) list" where
  "limit_members F =
     concat (map (\<lambda>description.
       opt (f_rlimit F description) (\<lambda>(soft, hard).
         [(description, members [(''soft'', limit_doc soft), (''hard'', limit_doc hard)])])) rlimit_strings)"

lemma put_limit_doc [simp]:
  "build (map Byte) json_doc (put_limit k n) (Members old, outs) = Some (Members (old @ [(map Byte k, limit_doc n)]), outs)"
  by (simp add: put_limit_def limit_doc_def split: option.split)

lemma system_information:
  "adds_members (PrintSystemInformation F)
     [(''environmentVariables'', members (environment_members F)), (''userLimits'', members (limit_members F)),
      (''sharedObjects'', Arr (map raw_doc (f_loaded_libraries F)))]"
proof -
  have "adds_members (map (\<lambda>(name, value). Put (Some (c_string name)) (J_String (c_string value))) items)
     (map (\<lambda>(name, value). (c_string name, raw_doc (c_string value))) items)" for items
    by (induction items) (auto intro: call_rules simp: scalar_docs [symmetric])
  then have e: "adds_members (if_some (f_environ F) (map (\<lambda>(name, value). Put (Some (c_string name)) (J_String (c_string value)))))
     (environment_members F)"
    unfolding environment_members_def by (intro adds_members_if_some)
  have l: "adds_members (concat (map (\<lambda>description. if_some (f_rlimit F description) (\<lambda>(soft, hard).
         [Begin_dict (Some description), put_limit ''soft'' soft, put_limit ''hard'' hard, End_dict True])) rlimit_strings)) (limit_members F)"
    unfolding limit_members_def by (intro adds_members_concat adds_members_if_some) (simp add: adds_simps split: prod.split)
  have "adds_elements (map (\<lambda>module_name. Put None (J_String module_name)) (f_loaded_libraries F)) (map raw_doc (f_loaded_libraries F))"
    using adds_element_map [of J_String "f_loaded_libraries F"] by (simp add: scalar_docs)
  with e l show ?thesis by (simp add: PrintSystemInformation_def PrintLoadedLibraries_def adds_simps)
qed

definition header_members :: "facts \<Rightarrow> string \<Rightarrow> string \<Rightarrow> string \<Rightarrow> (string \<times> json) list" where
  "header_members F message trigger filename =
     [(''reportVersion'', num_doc 2), (''event'', text_doc message), (''trigger'', text_doc trigger),
      (''filename'', if filename = [] then Null else raw_doc filename), (''dumpEventTime'', text_doc (timebuf (f_time F)))] @
     opt (f_timeofday F) (\<lambda>(sec, usec). [(''dumpEventTimeStamp'', text_doc (to_string (sec * 1000 + usec div 1000)))]) @
     [(''processId'', num_doc (f_pid F))] @
     opt (f_cwd F) (\<lambda>buf. [(''cwd'', text_doc buf)]) @
     version_members F"

definition report_members :: "cpu_texts \<Rightarrow> facts \<Rightarrow> string \<Rightarrow> string \<Rightarrow> string \<Rightarrow> js_error \<Rightarrow> json list \<Rightarrow> (string \<times> json) list" where
  "report_members show_cpu F message trigger filename err handles =
     [(''header'', members (header_members F message trigger filename)),
      (''javascriptStack'', members (stack_members (f_sample F) err trigger @ [(''errorProperties'', members (property_members err))])),
      (''nativeStack'', Arr (native_elements F)),
      (''javascriptHeap'', members (heap_members (f_heap F))),
      (''libuv'', Arr handles),
      (''resourceUsage'', members (opt (f_rusage F) (usage_members show_cpu (uptime_seconds F)))),
      (''environmentVariables'', members (environment_members F)),
      (''userLimits'', members (limit_members F)),
      (''sharedObjects'', Arr (map raw_doc (f_loaded_libraries F)))]"

definition header_calls :: "facts \<Rightarrow> string \<Rightarrow> string \<Rightarrow> string \<Rightarrow> calls" where
  "header_calls F message trigger filename =
     [put_number ''reportVersion'' 2, put_text ''event'' message, put_text ''trigger'' trigger] @
     (if filename \<noteq> [] then [Put (Some ''filename'') (J_String filename)] else [put_null ''filename'']) @
     [put_text ''dumpEventTime'' (timebuf (f_time F))] @
     if_some (f_timeofday F) (\<lambda>(sec, usec). [put_text ''dumpEventTimeStamp'' (to_string (sec * 1000 + usec div 1000))]) @
     [put_number ''processId'' (f_pid F)] @
     if_some (f_cwd F) (\<lambda>buf. [put_text ''cwd'' buf]) @
     PrintVersionInformation F"

lemma header: "adds_members (header_calls F message trigger filename) (header_members F message trigger filename)"
  using version_information [of F]
  by (cases "f_timeofday F"; cases "f_cwd F") (auto simp: header_calls_def header_members_def if_some_def opt_def adds_simps)

lemma report_calls:
  "WriteDiagReport show_cpu F message trigger filename err =
     Begin_dict None #
       (object_calls (Some ''header'') (header_calls F message trigger filename) @
        object_calls (Some ''javascriptStack'') (PrintJavaScriptErrorStack (f_sample F) err trigger @ PrintJavaScriptErrorProperties err) @
        PrintNativeStack F @ PrintGCStatistics F @ PrintUvLoopResources F @ PrintResourceUsage show_cpu F @ PrintSystemInformation F) @
       [End_dict True]"
  by (simp add: WriteDiagReport_def header_calls_def object_calls_def split del: if_split)

lemma report_elements:
  "\<exists>handles. libuv_elements F handles \<and>
     adds_elements (WriteDiagReport show_cpu F message trigger filename err)
       [members (report_members show_cpu F message trigger filename err handles)]"
proof -
  obtain handles where h: "libuv_elements F handles" "adds_members (PrintUvLoopResources F) [(''libuv'', Arr handles)]"
    using uv_loop_resources by blast
  have "report_members show_cpu F message trigger filename err handles =
      [(''header'', members (header_members F message trigger filename))] @
      [(''javascriptStack'', members (stack_members (f_sample F) err trigger @ [(''errorProperties'', members (property_members err))]))] @
      [(''nativeStack'', Arr (native_elements F))] @
      [(''javascriptHeap'', members (heap_members (f_heap F)))] @
      [(''libuv'', Arr handles)] @
      [(''resourceUsage'', members (opt (f_rusage F) (usage_members show_cpu (uptime_seconds F))))] @
      [(''environmentVariables'', members (environment_members F)), (''userLimits'', members (limit_members F)),
       (''sharedObjects'', Arr (map raw_doc (f_loaded_libraries F)))]"
    by (simp add: report_members_def)
  then have "adds_elements (WriteDiagReport show_cpu F message trigger filename err)
       [members (report_members show_cpu F message trigger filename err handles)]"
    unfolding report_calls
    by (simp only:)
      (intro object_in_elements adds_members_append object_in_members header error_stack error_properties
         native_stack gc_statistics resource_usage system_information h(2))
  with h(1) show ?thesis by blast
qed


lemma plain_simps [simp]:
  "plain (s @ t) = (plain s \<and> plain t)" "plain [] = True" "plain (c # s) = (c \<noteq> CHR 0x0B \<and> plain s)"
  by (auto simp: plain_def)

lemma plain_c_string: "plain s \<Longrightarrow> plain (c_string s)"
  unfolding plain_def c_string_def using set_takeWhileD by fastforce

lemma plain_nat_text [simp]: "plain (nat_text n)"
  using nat_text_digits [of n] by (auto simp: plain_def digits_def list_all_iff digit_def)

lemma plain_to_string [simp]: "plain (to_string n)"
  by (simp add: to_string_def)

lemma plain_timebuf [simp]: "plain (timebuf t)"
  by (simp add: timebuf_def two_def plain_def [of "replicate _ _"])

lemma plain_hex [simp]: "plain (ValueToHexString w)"
proof -
  have h: "hex_lower (m mod 16) \<noteq> CHR 0x0B" for m
  proof -
    have "m mod 16 < 16" by simp
    then have "(of_char (hex_lower (m mod 16)) :: nat) \<ge> 48" by (auto simp: hex_lower_def)
    then show ?thesis by auto
  qed
  have "plain (hex_digits k n)" for k n by (induction k arbitrary: n) (simp_all add: h)
  then show ?thesis by (simp add: ValueToHexString_def)
qed

definition example_facts :: facts where
  "example_facts =
     \<lparr>f_time = \<lparr>tm_year = 124, tm_mon = 0, tm_mday = 2, tm_hour = 3, tm_min = 4, tm_sec = 5\<rparr>, f_timeofday = Some (1, 2000), f_pid = 42,
      f_cwd = Some ''/'', f_version = ''v1'', f_libc_version = Some ''2.31'', f_glibc_compiler = None, f_arch = ''x64'', f_platform = ''linux'',
      f_component_versions = (\<lambda>_. ''1''), f_uname = None, f_host = Some ''h'',
      f_sample = \<lparr>frames_count = 0, vm_state = ''JS'', stack_frames = []\<rparr>, f_native_frames = [(1, ''f''), (2, ''g'')],
      f_heap = \<lparr>total_heap_size = 1, total_physical_size = 2, used_heap_size = 3, total_available_size = 4, heap_size_limit = 5,
                heap_spaces = [\<lparr>space_name = ''new'', space_size = 1, physical_space_size = 2, space_used_size = 3, space_available_size = 4\<rparr>]\<rparr>,
      f_handles = None, f_loop_alive = True, f_loop_address = 7, f_hrtime = 5, f_time_origin = 3, f_rusage = None,
      f_environ = Some [(''A'', ''b'')], f_rlimit = (\<lambda>_. Some (None, Some 3)), f_loaded_libraries = [''libc'']\<rparr>"


text \<open>
  The stack of an error is written from its text by lines: the first line is the message and every later line but the last
  is an element of the stack, with its leading blanks removed. The stack text of V8 does not end with a newline, so its last
  frame is not in the report; a text of two lines gives an empty stack.
\<close>

theorem error_stack_drops_last_line:
  "PrintErrorText ss =
     Put (Some ''message'') (J_String (hd (lines_of ss))) #
     (if tl (lines_of ss) = [] then []
      else Begin_array (Some ''stack'') # stack_lines_calls (butlast (tl (lines_of ss))) @ [End_array])"
proof -
  from find_newline_cases [of ss] show ?thesis
  proof (elim disjE exE conjE)
    assume "find_newline ss = - 1" "lines_of ss = [ss]"
    then show ?thesis by (simp add: PrintErrorText_def)
  next
    fix l r
    assume s: "ss = l @ CHR 0x0A # r" "find_newline ss = int (length l)" "lines_of ss = l # lines_of r"
    have "take (nat (find_newline ss)) ss = l" "drop (nat (find_newline ss + 1)) ss = r"
      by (simp only: s(2), simp add: s(1) nat_add_distrib)+
    then show ?thesis using s(2,3) lines_of_nonempty [of r]
      by (simp add: PrintErrorText_def stack_loop_lines Let_def)
  qed
qed

end
