(* ===== verification/Hashtable.thy ===== *)
theory Hashtable
  imports CText "HOL-Library.Multiset"
begin

text \<open>
  The hash table of argtable3 (deps/argtable/argtable3.c, lines 443 to 864): chained buckets, a table of primes for the
  sizes, an iterator that can remove. A chain is a list of entries; a pointer of the iterator into the chain of its bucket is a
  position in that list. What an operation frees is part of its result.
\<close>

section \<open>The table\<close>

record ('k, 'v) entry =
  e_k :: 'k
  e_v :: 'v
  e_h :: u32

record ('k, 'v) arg_hashtable =
  tablelength :: nat
  table :: "('k, 'v) entry list list"
  entrycount :: u32
  loadlimit :: nat
  primeindex :: nat
  hashfn :: "'k \<Rightarrow> u32"
  eqfn :: "'k \<Rightarrow> 'k \<Rightarrow> bool"

text \<open>The heap blocks the table owns: keys, values and its own entries.\<close>

datatype ('k, 'v) block = Key_block 'k | Value_block 'v | Entry_block

definition primes :: "nat list" where
  "primes = [53, 97, 193, 389, 769, 1543, 3079, 6151, 12289, 24593, 49157, 98317, 196613, 393241, 786433, 1572869, 3145739,
     6291469, 12582917, 25165843, 50331653, 100663319, 201326611, 402653189, 805306457, 1610612741]"

text \<open>
  The product of an unsigned and the float 0.65, rounded up. The float is 10905190 / 2^24; the operand and the product
  are rounded to the 24 bits of a float, to nearest and ties to even.
\<close>

fun bit_length :: "nat \<Rightarrow> nat" where
  "bit_length n = (if n = 0 then 0 else Suc (bit_length (n div 2)))"

declare bit_length.simps [simp del]

definition round_float :: "nat \<Rightarrow> nat" where
  "round_float n =
     (let s = bit_length n - 24; q = n div 2 ^ s; r = 2 * (n mod 2 ^ s)
      in (if r > 2 ^ s \<or> (r = 2 ^ s \<and> odd q) then q + 1 else q) * 2 ^ s)"

definition load_limit :: "nat \<Rightarrow> nat" where
  "load_limit n = (round_float (round_float n * 10905190) + (2 ^ 24 - 1)) div 2 ^ 24"

definition enhanced_hash :: "('k, 'v) arg_hashtable \<Rightarrow> 'k \<Rightarrow> u32" where
  "enhanced_hash h k =
     (let i = hashfn h k;
          i = i + NOT (push_bit 9 i);
          i = i XOR (drop_bit 14 i OR push_bit 18 i);
          i = i + push_bit 4 i;
          i = i XOR (drop_bit 10 i OR push_bit 22 i)
      in i)"

definition index_for :: "nat \<Rightarrow> u32 \<Rightarrow> nat" where
  "index_for n hashvalue = unat hashvalue mod n"

fun find_prime :: "nat \<Rightarrow> nat list \<Rightarrow> nat \<Rightarrow> nat \<times> nat" where
  "find_prime minsize [] pindex = (hd primes, pindex)"
| "find_prime minsize (p # ps) pindex = (if p > minsize then (p, pindex) else find_prime minsize ps (Suc pindex))"

definition arg_hashtable_create :: "u32 \<Rightarrow> ('k \<Rightarrow> u32) \<Rightarrow> ('k \<Rightarrow> 'k \<Rightarrow> bool) \<Rightarrow> ('k, 'v) arg_hashtable option" where
  "arg_hashtable_create minsize hash eq =
     (if minsize > 2 ^ 30 then None
      else (case find_prime (unat minsize) primes 0 of (n, pindex) \<Rightarrow>
        Some \<lparr>tablelength = n, table = replicate n [], entrycount = 0, loadlimit = load_limit n, primeindex = pindex,
              hashfn = hash, eqfn = eq\<rparr>))"

fun transfer_chain :: "nat \<Rightarrow> ('k, 'v) entry list \<Rightarrow> ('k, 'v) entry list list \<Rightarrow> ('k, 'v) entry list list" where
  "transfer_chain newsize [] newtable = newtable"
| "transfer_chain newsize (e # es) newtable =
     (let index = index_for newsize (e_h e) in transfer_chain newsize es (newtable[index := e # newtable ! index]))"

fun transfer :: "nat \<Rightarrow> ('k, 'v) entry list list \<Rightarrow> ('k, 'v) entry list list \<Rightarrow> ('k, 'v) entry list list" where
  "transfer newsize [] newtable = newtable"
| "transfer newsize (c # cs) newtable = transfer newsize cs (transfer_chain newsize c newtable)"

definition arg_hashtable_expand :: "('k, 'v) arg_hashtable \<Rightarrow> ('k, 'v) arg_hashtable" where
  "arg_hashtable_expand h =
     (if primeindex h = length primes - 1 then h
      else let newsize = primes ! Suc (primeindex h)
           in h\<lparr>primeindex := Suc (primeindex h), table := transfer newsize (table h) (replicate newsize []),
                tablelength := newsize, loadlimit := load_limit newsize\<rparr>)"

definition arg_hashtable_count :: "('k, 'v) arg_hashtable \<Rightarrow> u32" where
  "arg_hashtable_count h = entrycount h"

definition arg_hashtable_insert :: "'k \<Rightarrow> 'v \<Rightarrow> ('k, 'v) arg_hashtable \<Rightarrow> ('k, 'v) arg_hashtable" where
  "arg_hashtable_insert k v h =
     (let h = (if unat (entrycount h + 1) > loadlimit h then arg_hashtable_expand h else h);
          e = \<lparr>e_k = k, e_v = v, e_h = enhanced_hash h k\<rparr>;
          index = index_for (tablelength h) (e_h e)
      in h\<lparr>table := (table h)[index := e # table h ! index], entrycount := entrycount h + 1\<rparr>)"

definition entry_matches :: "('k, 'v) arg_hashtable \<Rightarrow> 'k \<Rightarrow> ('k, 'v) entry \<Rightarrow> bool" where
  "entry_matches h k e = (enhanced_hash h k = e_h e \<and> eqfn h k (e_k e))"

fun search_chain :: "(('k, 'v) entry \<Rightarrow> bool) \<Rightarrow> ('k, 'v) entry list \<Rightarrow> 'v option" where
  "search_chain matches [] = None"
| "search_chain matches (e # es) = (if matches e then Some (e_v e) else search_chain matches es)"

definition arg_hashtable_search :: "'k \<Rightarrow> ('k, 'v) arg_hashtable \<Rightarrow> 'v option" where
  "arg_hashtable_search k h =
     search_chain (entry_matches h k) (table h ! index_for (tablelength h) (enhanced_hash h k))"

fun remove_chain :: "(('k, 'v) entry \<Rightarrow> bool) \<Rightarrow> ('k, 'v) entry list \<Rightarrow> ('k, 'v) entry list \<times> ('k, 'v) entry option" where
  "remove_chain matches [] = ([], None)"
| "remove_chain matches (e # es) =
     (if matches e then (es, Some e) else case remove_chain matches es of (es', r) \<Rightarrow> (e # es', r))"

definition arg_hashtable_remove :: "'k \<Rightarrow> ('k, 'v) arg_hashtable \<Rightarrow> ('k, 'v) arg_hashtable \<times> ('k, 'v) block list" where
  "arg_hashtable_remove k h =
     (let index = index_for (tablelength h) (enhanced_hash h k)
      in case remove_chain (entry_matches h k) (table h ! index) of
           (_, None) \<Rightarrow> (h, [])
         | (c, Some e) \<Rightarrow>
             (h\<lparr>table := (table h)[index := c], entrycount := entrycount h - 1\<rparr>, [Key_block (e_k e), Value_block (e_v e), Entry_block]))"

definition arg_hashtable_destroy :: "bool \<Rightarrow> ('k, 'v) arg_hashtable \<Rightarrow> ('k, 'v) block list" where
  "arg_hashtable_destroy free_values h =
     concat (map (\<lambda>c. concat (map (\<lambda>e.
       if free_values then [Key_block (e_k e), Value_block (e_v e), Entry_block] else [Key_block (e_k e), Entry_block]) c)) (table h))"

fun change_chain :: "(('k, 'v) entry \<Rightarrow> bool) \<Rightarrow> 'v \<Rightarrow> ('k, 'v) entry list \<Rightarrow> ('k, 'v) entry list \<times> 'v option" where
  "change_chain matches v [] = ([], None)"
| "change_chain matches v (e # es) =
     (if matches e then (e\<lparr>e_v := v\<rparr> # es, Some (e_v e)) else case change_chain matches v es of (es', r) \<Rightarrow> (e # es', r))"

text \<open>The table and whether the key was there; the old value is freed.\<close>

definition arg_hashtable_change :: "'k \<Rightarrow> 'v \<Rightarrow> ('k, 'v) arg_hashtable \<Rightarrow> ('k, 'v) arg_hashtable \<times> ('k, 'v) block list \<times> bool" where
  "arg_hashtable_change k v h =
     (let index = index_for (tablelength h) (enhanced_hash h k)
      in case change_chain (entry_matches h k) v (table h ! index) of
           (_, None) \<Rightarrow> (h, [], False)
         | (c, Some old) \<Rightarrow> (h\<lparr>table := (table h)[index := c]\<rparr>, [Value_block old], True))"

section \<open>The iterator\<close>

record itr =
  itr_e :: "nat option"
  itr_parent :: "nat option"
  itr_index :: nat

fun find_bucket :: "'a list list \<Rightarrow> nat \<Rightarrow> nat option" where
  "find_bucket [] j = None"
| "find_bucket (c # cs) j = (if c \<noteq> [] then Some j else find_bucket cs (Suc j))"

definition arg_hashtable_itr_create :: "('k, 'v) arg_hashtable \<Rightarrow> itr" where
  "arg_hashtable_itr_create h =
     (let it = \<lparr>itr_e = None, itr_parent = None, itr_index = tablelength h\<rparr>
      in if entrycount h = 0 then it
         else case find_bucket (table h) 0 of
                None \<Rightarrow> it
              | Some i \<Rightarrow> it\<lparr>itr_e := Some 0, itr_index := i\<rparr>)"

definition itr_entry :: "('k, 'v) arg_hashtable \<Rightarrow> itr \<Rightarrow> ('k, 'v) entry outcome" where
  "itr_entry h it = (case itr_e it of None \<Rightarrow> Inl Null_deref | Some p \<Rightarrow> Inr (table h ! itr_index it ! p))"

definition arg_hashtable_itr_key :: "('k, 'v) arg_hashtable \<Rightarrow> itr \<Rightarrow> 'k outcome" where
  "arg_hashtable_itr_key h it = obind (itr_entry h it) (\<lambda>e. Inr (e_k e))"

definition arg_hashtable_itr_value :: "('k, 'v) arg_hashtable \<Rightarrow> itr \<Rightarrow> 'v outcome" where
  "arg_hashtable_itr_value h it = obind (itr_entry h it) (\<lambda>e. Inr (e_v e))"

text \<open>The end of the chain is reached: the next bucket that has an entry.\<close>

definition next_bucket :: "('k, 'v) arg_hashtable \<Rightarrow> itr \<Rightarrow> itr \<times> bool" where
  "next_bucket h it =
     (let j = Suc (itr_index it); it = it\<lparr>itr_parent := None, itr_index := j\<rparr>
      in if tablelength h \<le> j then (it\<lparr>itr_e := None\<rparr>, False)
         else case find_bucket (drop j (table h)) j of
                None \<Rightarrow> (it\<lparr>itr_index := tablelength h, itr_e := None\<rparr>, False)
              | Some j \<Rightarrow> (it\<lparr>itr_index := j, itr_e := Some 0\<rparr>, True))"

definition arg_hashtable_itr_advance :: "('k, 'v) arg_hashtable \<Rightarrow> itr \<Rightarrow> itr \<times> bool" where
  "arg_hashtable_itr_advance h it =
     (case itr_e it of
        None \<Rightarrow> (it, False)
      | Some p \<Rightarrow>
          if Suc p < length (table h ! itr_index it) then (it\<lparr>itr_parent := Some p, itr_e := Some (Suc p)\<rparr>, True)
          else next_bucket h it)"

text \<open>
  Removal unlinks the entry and advances past it. The entry that followed takes its position, and the parent
  stays.
\<close>

definition arg_hashtable_itr_remove ::
  "('k, 'v) arg_hashtable \<Rightarrow> itr \<Rightarrow> (('k, 'v) arg_hashtable \<times> itr \<times> bool \<times> ('k, 'v) block list) outcome" where
  "arg_hashtable_itr_remove h it =
     (case itr_e it of
        None \<Rightarrow> Inl Null_deref
      | Some p \<Rightarrow>
          let chain = table h ! itr_index it;
              e = chain ! p;
              rest = drop (Suc p) chain;
              chain' = (case itr_parent it of None \<Rightarrow> rest | Some q \<Rightarrow> take (Suc q) chain @ rest);
              h' = h\<lparr>table := (table h)[itr_index it := chain'], entrycount := entrycount h - 1\<rparr>;
              (it', ret) = (if rest \<noteq> [] then (it\<lparr>itr_e := Some (case itr_parent it of None \<Rightarrow> 0 | Some q \<Rightarrow> Suc q)\<rparr>, True) else next_bucket h' it)
          in Inr (h', it', ret, [Key_block (e_k e), Value_block (e_v e), Entry_block]))"

fun search_position :: "('e \<Rightarrow> bool) \<Rightarrow> 'e list \<Rightarrow> nat \<Rightarrow> nat option" where
  "search_position matches [] p = None"
| "search_position matches (e # es) p = (if matches e then Some p else search_position matches es (Suc p))"

definition arg_hashtable_itr_search :: "('k, 'v) arg_hashtable \<Rightarrow> 'k \<Rightarrow> itr \<Rightarrow> itr \<times> bool" where
  "arg_hashtable_itr_search h k it =
     (let index = index_for (tablelength h) (enhanced_hash h k)
      in case search_position (entry_matches h k) (table h ! index) 0 of
           None \<Rightarrow> (it, False)
         | Some p \<Rightarrow> (\<lparr>itr_e = Some p, itr_parent = (if p = 0 then None else Some (p - 1)), itr_index = index\<rparr>, True))"

section \<open>Well-formed tables\<close>

definition in_bucket :: "('k \<Rightarrow> u32) \<Rightarrow> nat \<Rightarrow> nat \<Rightarrow> ('k, 'v) entry \<Rightarrow> bool" where
  "in_bucket hash n i e = (e_h e = hash (e_k e) \<and> index_for n (e_h e) = i)"

definition buckets_ok :: "('k \<Rightarrow> u32) \<Rightarrow> ('k, 'v) entry list list \<Rightarrow> bool" where
  "buckets_ok hash t = (\<forall>i < length t. list_all (in_bucket hash (length t) i) (t ! i))"

definition hash_wf :: "('k, 'v) arg_hashtable \<Rightarrow> bool" where
  "hash_wf h =
     (primeindex h < length primes \<and> tablelength h = primes ! primeindex h \<and> length (table h) = tablelength h \<and>
      loadlimit h = load_limit (tablelength h) \<and> buckets_ok (enhanced_hash h) (table h) \<and>
      entrycount h = of_nat (length (concat (table h))))"

definition pairs :: "('k, 'v) arg_hashtable \<Rightarrow> ('k \<times> 'v) multiset" where
  "pairs h = {# (e_k e, e_v e). e \<in># mset (concat (table h)) #}"

lemma concat_bucket: "i < length t \<Longrightarrow> concat t = concat (take i t) @ t ! i @ concat (drop (Suc i) t)"
  using id_take_nth_drop [of i t] by (metis concat.simps(2) concat_append)

lemma concat_update: "i < length t \<Longrightarrow> concat (t[i := c]) = concat (take i t) @ c @ concat (drop (Suc i) t)"
  by (simp add: upd_conv_take_nth_drop)

lemma index_for_less: "0 < n \<Longrightarrow> index_for n w < n"
  by (simp add: index_for_def)

lemma primes_pos: "i < length primes \<Longrightarrow> 0 < primes ! i"
proof -
  have "list_all (\<lambda>p. 0 < p) primes" by (simp add: primes_def)
  then show "i < length primes \<Longrightarrow> 0 < primes ! i" by (simp add: list_all_length)
qed

lemma hash_wf_pos: "hash_wf h \<Longrightarrow> 0 < tablelength h"
  by (simp add: hash_wf_def primes_pos)

lemma hash_wf_index: "hash_wf h \<Longrightarrow> index_for (tablelength h) w < length (table h)"
  using index_for_less [OF hash_wf_pos, of h w] by (simp add: hash_wf_def)

lemma buckets_ok_update:
  "buckets_ok hash t \<Longrightarrow> list_all (in_bucket hash (length t) i) c \<Longrightarrow> buckets_ok hash (t[i := c])"
  by (simp add: buckets_ok_def) (metis nth_list_update_eq nth_list_update_neq)

lemma enhanced_hash_cong: "hashfn h = hashfn h' \<Longrightarrow> enhanced_hash h = enhanced_hash h'"
  by (rule ext) (simp add: enhanced_hash_def)

lemma transfer_chain:
  assumes "buckets_ok hash nt" "length nt = n" "0 < n" "list_all (\<lambda>e. e_h e = hash (e_k e)) es"
  shows "buckets_ok hash (transfer_chain n es nt) \<and> length (transfer_chain n es nt) = n \<and>
         mset (concat (transfer_chain n es nt)) = mset es + mset (concat nt)"
  using assms
proof (induction es arbitrary: nt)
  case (Cons e es)
  define i where "i = index_for n (e_h e)"
  have i: "i < length nt" using Cons.prems by (simp add: i_def index_for_less)
  have b: "buckets_ok hash (nt[i := e # nt ! i])"
    using Cons.prems i by (intro buckets_ok_update) (simp_all add: in_bucket_def i_def buckets_ok_def)
  have "mset (concat (nt[i := e # nt ! i])) = mset (e # concat nt)"
    using concat_update [OF i] concat_bucket [OF i] by simp
  then show ?case using Cons.IH [OF b] Cons.prems by (simp add: i_def Let_def)
qed simp

lemma transfer:
  assumes "buckets_ok hash nt" "length nt = n" "0 < n" "list_all (list_all (\<lambda>e. e_h e = hash (e_k e))) cs"
  shows "buckets_ok hash (transfer n cs nt) \<and> length (transfer n cs nt) = n \<and>
         mset (concat (transfer n cs nt)) = mset (concat cs) + mset (concat nt)"
  using assms
proof (induction cs arbitrary: nt)
  case (Cons c cs)
  from transfer_chain [of hash nt n c] Cons.prems Cons.IH [of "transfer_chain n c nt"] show ?case by simp
qed simp

lemma expand:
  assumes "hash_wf h"
  shows "hash_wf (arg_hashtable_expand h)" "pairs (arg_hashtable_expand h) = pairs h"
    "hashfn (arg_hashtable_expand h) = hashfn h" "eqfn (arg_hashtable_expand h) = eqfn h"
    "entrycount (arg_hashtable_expand h) = entrycount h"
proof -
  let ?n = "primes ! Suc (primeindex h)"
  have w: "buckets_ok (enhanced_hash h) (table h)" "primeindex h < length primes"
    "entrycount h = of_nat (length (concat (table h)))" using assms by (simp_all add: hash_wf_def)
  have "list_all (list_all (\<lambda>e. e_h e = enhanced_hash h (e_k e))) (table h)"
    using w(1) by (auto simp: buckets_ok_def list_all_length in_bucket_def)
  moreover have "buckets_ok (enhanced_hash h) (replicate ?n [])" by (simp add: buckets_ok_def)
  moreover have "0 < ?n" if "primeindex h \<noteq> length primes - 1" using that w(2) by (intro primes_pos) simp
  ultimately have t: "primeindex h \<noteq> length primes - 1 \<Longrightarrow>
      buckets_ok (enhanced_hash h) (transfer ?n (table h) (replicate ?n [])) \<and>
      length (transfer ?n (table h) (replicate ?n [])) = ?n \<and>
      mset (concat (transfer ?n (table h) (replicate ?n []))) = mset (concat (table h))"
    using transfer [of "enhanced_hash h" "replicate ?n []" ?n "table h"] by (simp add: concat_replicate_trivial)
  then have l: "primeindex h \<noteq> length primes - 1 \<Longrightarrow>
      length (concat (transfer ?n (table h) (replicate ?n []))) = length (concat (table h))"
    using mset_eq_length by blast
  let ?h = "arg_hashtable_expand h"
  show hf: "hashfn ?h = hashfn h" "eqfn ?h = eqfn h" "entrycount ?h = entrycount h"
    by (simp_all add: arg_hashtable_expand_def Let_def)
  show "pairs ?h = pairs h" using t by (simp add: arg_hashtable_expand_def Let_def pairs_def)
  show "hash_wf ?h"
    using assms t l w enhanced_hash_cong [OF hf(1)]
    by (cases "primeindex h = length primes - 1") (simp_all add: arg_hashtable_expand_def Let_def hash_wf_def)
qed

lemma pairs_bucket:
  "i < length (table h) \<Longrightarrow>
   pairs h = {# (e_k e, e_v e). e \<in># mset (table h ! i) #} + {# (e_k e, e_v e). e \<in># mset (concat (take i (table h)) @ concat (drop (Suc i) (table h))) #}"
  using concat_bucket [of i "table h"] by (simp add: pairs_def)

lemma in_pairs: "p \<in># pairs h \<longleftrightarrow> (\<exists>i < length (table h). \<exists>e \<in> set (table h ! i). p = (e_k e, e_v e))"
proof -
  have "p \<in># pairs h \<longleftrightarrow> (\<exists>c \<in> set (table h). \<exists>e \<in> set c. p = (e_k e, e_v e))" by (auto simp: pairs_def)
  then show ?thesis by (metis in_set_conv_nth)
qed

lemma pairs_update:
  "i < length (table h) \<Longrightarrow>
   pairs (h\<lparr>table := (table h)[i := c], entrycount := n\<rparr>) =
     {# (e_k e, e_v e). e \<in># mset c #} + {# (e_k e, e_v e). e \<in># mset (concat (take i (table h)) @ concat (drop (Suc i) (table h))) #}"
  using concat_update [of i "table h" c] by (simp add: pairs_def)

lemma wf_update:
  assumes "hash_wf h" "i < length (table h)" "list_all (in_bucket (enhanced_hash h) (tablelength h) i) c"
    and "n + of_nat (length (table h ! i)) = entrycount h + of_nat (length c)"
  shows "hash_wf (h\<lparr>table := (table h)[i := c], entrycount := n\<rparr>)"
proof -
  let ?h = "h\<lparr>table := (table h)[i := c], entrycount := n\<rparr>"
  have e: "enhanced_hash ?h = enhanced_hash h" by (rule enhanced_hash_cong) simp
  have w: "buckets_ok (enhanced_hash h) (table h)" "length (table h) = tablelength h"
    "entrycount h = of_nat (length (concat (table h)))" using assms(1) by (simp_all add: hash_wf_def)
  let ?r = "length (concat (take i (table h))) + length (concat (drop (Suc i) (table h)))"
  have "n = of_nat ?r + of_nat (length c)"
    using assms(4) unfolding w(3) concat_bucket [OF assms(2)] by (simp add: algebra_simps)
  then have n: "n = of_nat (length (concat ((table h)[i := c])))"
    unfolding concat_update [OF assms(2)] by (simp add: algebra_simps)
  have b: "buckets_ok (enhanced_hash h) ((table h)[i := c])"
    by (rule buckets_ok_update [OF w(1)]) (simp add: w(2) assms(3))
  from assms(1) show ?thesis unfolding hash_wf_def e using b n by simp
qed

lemma bucket_entries: "hash_wf h \<Longrightarrow> i < length (table h) \<Longrightarrow> list_all (in_bucket (enhanced_hash h) (tablelength h) i) (table h ! i)"
  unfolding hash_wf_def buckets_ok_def by metis

lemma remove_chain_None: "remove_chain m c = (c', None) \<Longrightarrow> c' = c \<and> (\<forall>e \<in> set c. \<not> m e)"
  by (induction c arbitrary: c') (auto split: if_splits prod.splits)

lemma remove_chain_Some: "remove_chain m c = (c', Some e) \<Longrightarrow> m e \<and> mset c = add_mset e (mset c')"
  by (induction c arbitrary: c') (auto split: if_splits prod.splits)

lemma search_chain_None: "search_chain m c = None \<longleftrightarrow> (\<forall>e \<in> set c. \<not> m e)"
  by (induction c) auto

lemma search_chain_Some: "search_chain m c = Some v \<Longrightarrow> \<exists>e \<in> set c. m e \<and> e_v e = v"
  by (induction c) (auto split: if_splits)

lemma change_chain_None: "change_chain m v c = (c', None) \<Longrightarrow> c' = c \<and> (\<forall>e \<in> set c. \<not> m e)"
  by (induction c arbitrary: c') (auto split: if_splits prod.splits)

lemma change_chain_Some:
  "change_chain m v c = (c', Some old) \<Longrightarrow>
   \<exists>xs e ys. c = xs @ e # ys \<and> c' = xs @ e\<lparr>e_v := v\<rparr> # ys \<and> m e \<and> e_v e = old"
proof (induction c arbitrary: c')
  case (Cons a c)
  show ?case
  proof (cases "m a")
    case True
    then show ?thesis using Cons.prems by (intro exI [of _ "[]"] exI [of _ a] exI [of _ c]) auto
  next
    case False
    then obtain c1 where c1: "change_chain m v c = (c1, Some old)" "c' = a # c1" using Cons.prems by (auto split: prod.splits)
    from Cons.IH [OF c1(1)] obtain xs e ys where "c = xs @ e # ys" "c1 = xs @ e\<lparr>e_v := v\<rparr> # ys" "m e" "e_v e = old" by blast
    then show ?thesis using c1(2) by (intro exI [of _ "a # xs"] exI [of _ e] exI [of _ ys]) auto
  qed
qed simp

lemma search_position:
  "search_position m c p0 =
     (case remove_chain m c of (_, None) \<Rightarrow> None | (_, Some e) \<Rightarrow> Some (p0 + length (takeWhile (\<lambda>e. \<not> m e) c)))"
  by (induction c arbitrary: p0) (auto split: prod.split option.split)

lemma remove_chain_position:
  "remove_chain m c = (c', Some e) \<Longrightarrow>
   let p = length (takeWhile (\<lambda>e. \<not> m e) c) in p < length c \<and> c ! p = e \<and> c' = take p c @ drop (Suc p) c"
proof (induction c arbitrary: c')
  case (Cons a c)
  then show ?case by (cases "m a") (auto simp: Let_def split: prod.splits)
qed simp

section \<open>What the operations do\<close>

lemma insert_ok:
  assumes "hash_wf h"
  shows "hash_wf (arg_hashtable_insert k v h)" "pairs (arg_hashtable_insert k v h) = add_mset (k, v) (pairs h)"
    "hashfn (arg_hashtable_insert k v h) = hashfn h" "eqfn (arg_hashtable_insert k v h) = eqfn h"
proof -
  define g where "g = (if unat (entrycount h + 1) > loadlimit h then arg_hashtable_expand h else h)"
  have g: "hash_wf g" "pairs g = pairs h" "hashfn g = hashfn h" "eqfn g = eqfn h"
    using assms expand [OF assms] by (simp_all add: g_def)
  define i where "i = index_for (tablelength g) (enhanced_hash g k)"
  define e :: "('a, 'b) entry" where "e = \<lparr>e_k = k, e_v = v, e_h = enhanced_hash g k\<rparr>"
  have i: "i < length (table g)" unfolding i_def by (rule hash_wf_index [OF g(1)])
  have r: "arg_hashtable_insert k v h = g\<lparr>table := (table g)[i := e # table g ! i], entrycount := entrycount g + 1\<rparr>"
    unfolding arg_hashtable_insert_def g_def [symmetric] Let_def e_def i_def by simp
  show "hash_wf (arg_hashtable_insert k v h)" unfolding r
    by (rule wf_update [OF g(1) i]) (simp_all add: bucket_entries [OF g(1) i], simp add: in_bucket_def e_def i_def)
  show "pairs (arg_hashtable_insert k v h) = add_mset (k, v) (pairs h)"
    unfolding r pairs_update [OF i] g(2) [symmetric] pairs_bucket [OF i] by (simp add: e_def)
  show "hashfn (arg_hashtable_insert k v h) = hashfn h" "eqfn (arg_hashtable_insert k v h) = eqfn h"
    unfolding r by (simp_all add: g)
qed

definition pair_blocks :: "'k \<times> 'v \<Rightarrow> ('k, 'v) block list" where
  "pair_blocks p = [Key_block (fst p), Value_block (snd p), Entry_block]"

lemma removed_entry:
  assumes wf: "hash_wf h" and i: "i < length (table h)" and c: "mset (table h ! i) = add_mset e (mset c)"
  defines "g \<equiv> h\<lparr>table := (table h)[i := c], entrycount := entrycount h - 1\<rparr>"
  shows "hash_wf g" "pairs h = add_mset (e_k e, e_v e) (pairs g)" "hashfn g = hashfn h" "eqfn g = eqfn h"
proof -
  have sub: "set c \<subseteq> set (table h ! i)" using c by (metis mset_subset_eq_add_right set_mset_mono set_mset_mset add_mset_add_single union_commute)
  have "length (table h ! i) = Suc (length c)" using arg_cong [OF c, of size] by simp
  then show "hash_wf g" unfolding g_def using bucket_entries [OF wf i] sub
    by (intro wf_update [OF wf i]) (auto simp: list_all_iff)
  show "pairs h = add_mset (e_k e, e_v e) (pairs g)"
    unfolding g_def pairs_update [OF i] pairs_bucket [OF i] c by simp
  show "hashfn g = hashfn h" "eqfn g = eqfn h" by (simp_all add: g_def)
qed

definition same_functions :: "('k, 'v) arg_hashtable \<Rightarrow> ('k, 'v) arg_hashtable \<Rightarrow> bool" where
  "same_functions g h = (hashfn g = hashfn h \<and> eqfn g = eqfn h)"

definition bucket_of :: "('k, 'v) arg_hashtable \<Rightarrow> 'k \<Rightarrow> ('k, 'v) entry list" where
  "bucket_of h k = table h ! index_for (tablelength h) (enhanced_hash h k)"

lemma remove_ok:
  assumes wf: "hash_wf h"
  shows "arg_hashtable_remove k h = (h, []) \<and> (\<forall>e \<in> set (bucket_of h k). \<not> entry_matches h k e) \<or>
         (\<exists>g p. arg_hashtable_remove k h = (g, pair_blocks p) \<and> hash_wf g \<and> same_functions g h \<and>
            pairs h = add_mset p (pairs g) \<and> eqfn h k (fst p))"
proof -
  let ?i = "index_for (tablelength h) (enhanced_hash h k)"
  obtain c r where rc: "remove_chain (entry_matches h k) (table h ! ?i) = (c, r)" by fastforce
  show ?thesis
  proof (cases r)
    case None
    with rc have "arg_hashtable_remove k h = (h, [])" by (simp add: arg_hashtable_remove_def)
    then show ?thesis using remove_chain_None [of "entry_matches h k"] rc None unfolding bucket_of_def by blast
  next
    case (Some e)
    note rc = rc [unfolded Some]
    from remove_chain_Some [OF rc] have m: "entry_matches h k e" "mset (table h ! ?i) = add_mset e (mset c)" by simp_all
    note g = removed_entry [OF wf hash_wf_index [OF wf] m(2)]
    have "arg_hashtable_remove k h =
        (h\<lparr>table := (table h)[?i := c], entrycount := entrycount h - 1\<rparr>, pair_blocks (e_k e, e_v e))"
      by (simp add: arg_hashtable_remove_def rc pair_blocks_def)
    moreover have "eqfn h k (e_k e)" using m(1) by (simp add: entry_matches_def)
    ultimately show ?thesis using g by (intro disjI2 exI [of _ "(e_k e, e_v e)"]) (auto simp: same_functions_def)
  qed
qed

lemma change_ok:
  assumes wf: "hash_wf h"
  shows "arg_hashtable_change k v h = (h, [], False) \<and> (\<forall>e \<in> set (bucket_of h k). \<not> entry_matches h k e) \<or>
         (\<exists>g p. arg_hashtable_change k v h = (g, [Value_block (snd p)], True) \<and> hash_wf g \<and> same_functions g h \<and>
            length (table g) = length (table h) \<and> map length (table g) = map length (table h) \<and>
            eqfn h k (fst p) \<and> pairs h + {#(fst p, v)#} = add_mset p (pairs g))"
proof -
  let ?i = "index_for (tablelength h) (enhanced_hash h k)"
  note i = hash_wf_index [OF wf]
  obtain c r where rc: "change_chain (entry_matches h k) v (table h ! ?i) = (c, r)" by fastforce
  show ?thesis
  proof (cases r)
    case None
    with rc have "arg_hashtable_change k v h = (h, [], False)" by (simp add: arg_hashtable_change_def)
    then show ?thesis using change_chain_None [of "entry_matches h k" v] rc None unfolding bucket_of_def by blast
  next
    case (Some old)
    from change_chain_Some [OF rc [unfolded Some]] obtain xs e ys where c: "table h ! ?i = xs @ e # ys"
      "c = xs @ e\<lparr>e_v := v\<rparr> # ys" "entry_matches h k e" "e_v e = old" by blast
    let ?g = "h\<lparr>table := (table h)[?i := c], entrycount := entrycount h\<rparr>"
    have "hash_wf ?g" using bucket_entries [OF wf i, of "enhanced_hash h k"] c(1,2)
      by (intro wf_update [OF wf i]) (auto simp: in_bucket_def)
    moreover have "arg_hashtable_change k v h = (?g, [Value_block (snd (e_k e, old))], True)"
      by (simp add: arg_hashtable_change_def rc Some)
    moreover have "pairs h + {#(fst (e_k e, old), v)#} = add_mset (e_k e, old) (pairs ?g)"
      unfolding pairs_update [OF i] pairs_bucket [OF i, of "enhanced_hash h k"] c(1,2) using c(4) by simp
    moreover have "eqfn h k (fst (e_k e, old))" using c(3) by (simp add: entry_matches_def)
    moreover have "map length (table ?g) = map length (table h)"
      using i [of "enhanced_hash h k"] c(1,2) by (simp add: map_update list_update_same_conv)
    ultimately show ?thesis by (intro disjI2 exI [of _ ?g] exI [of _ "(e_k e, old)"]) (simp add: same_functions_def)
  qed
qed

locale hash_keys =
  fixes hash :: "'k \<Rightarrow> u32" and eq :: "'k \<Rightarrow> 'k \<Rightarrow> bool"
  assumes respects: "eq k k' \<Longrightarrow> hash k = hash k'"
begin

definition keyed :: "('k, 'v) arg_hashtable \<Rightarrow> bool" where
  "keyed h = (hash_wf h \<and> hashfn h = hash \<and> eqfn h = eq)"

lemma keyed_insert: "keyed h \<Longrightarrow> keyed (arg_hashtable_insert k v h) \<and> pairs (arg_hashtable_insert k v h) = add_mset (k, v) (pairs h)"
  by (simp add: keyed_def insert_ok)

lemma matching_bucket:
  assumes "keyed h" "(k', v) \<in># pairs h" "eq k k'"
  shows "\<exists>e \<in> set (table h ! index_for (tablelength h) (enhanced_hash h k)). entry_matches h k e \<and> e_k e = k' \<and> e_v e = v"
proof -
  from assms(2) obtain i e where e: "i < length (table h)" "e \<in> set (table h ! i)" "e_k e = k'" "e_v e = v"
    by (auto simp: in_pairs)
  have wf: "hash_wf h" using assms(1) by (simp add: keyed_def)
  from bucket_entries [OF wf e(1)] e(2,3) have "e_h e = enhanced_hash h k'" "index_for (tablelength h) (e_h e) = i"
    by (auto simp: list_all_iff in_bucket_def)
  moreover have "enhanced_hash h k' = enhanced_hash h k"
    using respects [OF assms(3)] assms(1) by (simp add: keyed_def enhanced_hash_def)
  ultimately show ?thesis using e assms by (intro bexI [of _ e]) (auto simp: entry_matches_def keyed_def)
qed

lemma bucket_pair:
  assumes "keyed h" "e \<in> set (table h ! index_for (tablelength h) w)"
  shows "(e_k e, e_v e) \<in># pairs h"
  using assms hash_wf_index [of h w] by (auto simp: keyed_def in_pairs)

lemma no_match:
  assumes "keyed h" "\<forall>e \<in> set (bucket_of h k). \<not> entry_matches h k e"
  shows "\<forall>p \<in># pairs h. \<not> eq k (fst p)"
  using matching_bucket [OF assms(1)] assms(2) by (metis bucket_of_def prod.collapse)

lemma keyed_search:
  assumes "keyed h"
  shows "case arg_hashtable_search k h of
           None \<Rightarrow> \<forall>p \<in># pairs h. \<not> eq k (fst p)
         | Some v \<Rightarrow> \<exists>k'. (k', v) \<in># pairs h \<and> eq k k'"
proof (cases "arg_hashtable_search k h")
  case None
  then have "\<forall>p \<in># pairs h. \<not> eq k (fst p)"
    by (intro no_match [OF assms]) (simp add: arg_hashtable_search_def bucket_of_def search_chain_None)
  then show ?thesis using None by simp
next
  case (Some v)
  then obtain e where "e \<in> set (table h ! index_for (tablelength h) (enhanced_hash h k))" "entry_matches h k e" "e_v e = v"
    using search_chain_Some unfolding arg_hashtable_search_def by metis
  then show ?thesis using Some assms bucket_pair [OF assms] by (auto simp: entry_matches_def keyed_def)
qed

lemma keyed_remove:
  assumes "keyed h"
  shows "arg_hashtable_remove k h = (h, []) \<and> (\<forall>p \<in># pairs h. \<not> eq k (fst p)) \<or>
         (\<exists>g p. arg_hashtable_remove k h = (g, pair_blocks p) \<and> keyed g \<and> pairs h = add_mset p (pairs g) \<and> eq k (fst p))"
  using remove_ok [of h k] no_match [OF assms] assms unfolding keyed_def same_functions_def by metis

lemma keyed_change:
  assumes "keyed h"
  shows "arg_hashtable_change k v h = (h, [], False) \<and> (\<forall>p \<in># pairs h. \<not> eq k (fst p)) \<or>
         (\<exists>g p. arg_hashtable_change k v h = (g, [Value_block (snd p)], True) \<and> keyed g \<and> eq k (fst p) \<and>
            pairs h + {#(fst p, v)#} = add_mset p (pairs g))"
  using change_ok [of h k v] no_match [OF assms] assms unfolding keyed_def same_functions_def by metis

end

section \<open>Iteration\<close>

definition itr_valid :: "('k, 'v) arg_hashtable \<Rightarrow> itr \<Rightarrow> bool" where
  "itr_valid h it =
     (case itr_e it of
        None \<Rightarrow> True
      | Some p \<Rightarrow> itr_index it < length (table h) \<and> p < length (table h ! itr_index it) \<and>
          itr_parent it = (if p = 0 then None else Some (p - 1)))"

text \<open>The entries an iterator has still to visit, the current one first.\<close>

definition remaining :: "('k, 'v) arg_hashtable \<Rightarrow> itr \<Rightarrow> ('k, 'v) entry list" where
  "remaining h it =
     (case itr_e it of
        None \<Rightarrow> []
      | Some p \<Rightarrow> drop p (table h ! itr_index it) @ concat (drop (Suc (itr_index it)) (table h)))"

lemma find_bucket_None: "find_bucket cs j = None \<longleftrightarrow> concat cs = []"
  by (induction cs arbitrary: j) auto

lemma find_bucket_Some:
  "find_bucket cs j = Some i \<Longrightarrow> \<exists>d < length cs. i = j + d \<and> cs ! d \<noteq> [] \<and> concat cs = cs ! d @ concat (drop (Suc d) cs)"
proof (induction cs arbitrary: j)
  case (Cons c cs)
  show ?case
  proof (cases "c = []")
    case True
    with Cons.prems Cons.IH [of "Suc j"] obtain d where "d < length cs" "i = Suc j + d" "cs ! d \<noteq> []"
      "concat cs = cs ! d @ concat (drop (Suc d) cs)" by auto
    then show ?thesis using True by (intro exI [of _ "Suc d"]) simp
  next
    case False
    then show ?thesis using Cons.prems by (intro exI [of _ 0]) simp
  qed
qed simp

lemma itr_create:
  assumes "hash_wf h" "length (concat (table h)) < 2 ^ 32"
  shows "itr_valid h (arg_hashtable_itr_create h) \<and> remaining h (arg_hashtable_itr_create h) = concat (table h)"
proof (cases "find_bucket (table h) 0")
  case None
  then have "concat (table h) = []" using find_bucket_None [of "table h" 0] by simp
  then show ?thesis using None by (simp add: arg_hashtable_itr_create_def Let_def itr_valid_def remaining_def)
next
  case (Some i)
  from find_bucket_Some [OF this] have i: "i < length (table h)" "table h ! i \<noteq> []"
    "concat (table h) = table h ! i @ concat (drop (Suc i) (table h))" by auto
  have "unat (entrycount h) = length (concat (table h))"
    using assms by (simp add: hash_wf_def unsigned_of_nat take_bit_nat_eq_self)
  then have "entrycount h \<noteq> 0" using i(2,3) by auto
  then show ?thesis using Some i by (simp add: arg_hashtable_itr_create_def Let_def itr_valid_def remaining_def)
qed

lemma next_bucket:
  assumes "length (table h) = tablelength h"
  shows "itr_valid h (fst (next_bucket h it)) \<and> remaining h (fst (next_bucket h it)) = concat (drop (Suc (itr_index it)) (table h)) \<and>
         (snd (next_bucket h it) \<longleftrightarrow> itr_e (fst (next_bucket h it)) \<noteq> None)"
proof (cases "tablelength h \<le> Suc (itr_index it)")
  case True
  then show ?thesis using assms by (simp add: next_bucket_def Let_def itr_valid_def remaining_def)
next
  case False
  let ?cs = "drop (Suc (itr_index it)) (table h)"
  show ?thesis
  proof (cases "find_bucket ?cs (Suc (itr_index it))")
    case None
    then have "concat ?cs = []" using find_bucket_None [of ?cs "Suc (itr_index it)"] by simp
    then show ?thesis using False None
      by (simp add: next_bucket_def Let_def itr_valid_def remaining_def)
  next
    case (Some j)
    from find_bucket_Some [OF this] obtain d where "d < length ?cs" "j = Suc (itr_index it) + d" "?cs ! d \<noteq> []"
      "concat ?cs = ?cs ! d @ concat (drop (Suc d) ?cs)" by blast
    then show ?thesis using False Some by (simp add: next_bucket_def Let_def itr_valid_def remaining_def add.commute add.left_commute)
  qed
qed

lemma itr_advance:
  assumes "length (table h) = tablelength h" "itr_valid h it"
  shows "itr_valid h (fst (arg_hashtable_itr_advance h it)) \<and>
         remaining h (fst (arg_hashtable_itr_advance h it)) = tl (remaining h it)"
proof (cases "itr_e it")
  case None
  then show ?thesis by (simp add: arg_hashtable_itr_advance_def itr_valid_def remaining_def)
next
  case (Some p)
  then have v: "itr_index it < length (table h)" "p < length (table h ! itr_index it)" using assms(2) by (simp_all add: itr_valid_def)
  have d: "drop p (table h ! itr_index it) = table h ! itr_index it ! p # drop (Suc p) (table h ! itr_index it)"
    using v by (simp add: Cons_nth_drop_Suc)
  show ?thesis
  proof (cases "Suc p < length (table h ! itr_index it)")
    case True
    then show ?thesis using Some v d by (simp add: arg_hashtable_itr_advance_def itr_valid_def remaining_def)
  next
    case False
    then show ?thesis using next_bucket [OF assms(1), of it] Some d by (simp add: arg_hashtable_itr_advance_def remaining_def)
  qed
qed

lemma itr_remove:
  assumes wf: "hash_wf h" and v: "itr_valid h it" and p: "itr_e it = Some p"
  defines "e \<equiv> table h ! itr_index it ! p"
  shows "\<exists>g it' ret. arg_hashtable_itr_remove h it = Inr (g, it', ret, pair_blocks (e_k e, e_v e)) \<and>
    hash_wf g \<and> itr_valid g it' \<and> (ret \<longleftrightarrow> itr_e it' \<noteq> None) \<and> remaining g it' = tl (remaining h it) \<and>
    pairs h = add_mset (e_k e, e_v e) (pairs g) \<and> hashfn g = hashfn h \<and> eqfn g = eqfn h"
proof -
  let ?i = "itr_index it"
  let ?c = "table h ! ?i"
  define c' where "c' = take p ?c @ drop (Suc p) ?c"
  define g where "g = h\<lparr>table := (table h)[?i := c'], entrycount := entrycount h - 1\<rparr>"
  have i: "?i < length (table h)" "p < length ?c" "itr_parent it = (if p = 0 then None else Some (p - 1))"
    using v p by (simp_all add: itr_valid_def)
  have c: "?c = take p ?c @ e # drop (Suc p) ?c" unfolding e_def using i(2) by (simp add: id_take_nth_drop)
  then have m: "mset ?c = add_mset e (mset c')" unfolding c'_def by (metis mset_append mset.simps(2) union_mset_add_mset_right)
  note g = removed_entry [OF wf i(1) m, folded g_def]
  have lg: "length (table g) = tablelength g" using g(1) by (simp add: hash_wf_def)
  have gi: "table g ! ?i = c'" "drop (Suc ?i) (table g) = drop (Suc ?i) (table h)"
    using i(1) by (simp_all add: g_def)
  have rm: "remaining h it = e # drop (Suc p) ?c @ concat (drop (Suc ?i) (table h))"
    unfolding remaining_def p e_def using i(2) by (simp add: Cons_nth_drop_Suc [symmetric])
  have cc: "(case itr_parent it of None \<Rightarrow> drop (Suc p) ?c | Some q \<Rightarrow> take (Suc q) ?c @ drop (Suc p) ?c) = c'"
    "(case itr_parent it of None \<Rightarrow> 0 | Some q \<Rightarrow> Suc q) = p"
    using i(3) by (simp_all add: c'_def)
  show ?thesis
  proof (cases "drop (Suc p) ?c = []")
    case True
    then have "arg_hashtable_itr_remove h it = Inr (g, fst (next_bucket g it), snd (next_bucket g it), pair_blocks (e_k e, e_v e))"
      by (simp add: arg_hashtable_itr_remove_def p Let_def cc g_def [symmetric] e_def pair_blocks_def split_beta)
    then show ?thesis using next_bucket [OF lg, of it] g rm True gi(2) by simp
  next
    case False
    let ?t = "it\<lparr>itr_e := Some p\<rparr>"
    have "arg_hashtable_itr_remove h it = Inr (g, ?t, True, pair_blocks (e_k e, e_v e))"
      using False by (simp add: arg_hashtable_itr_remove_def p Let_def cc g_def [symmetric] e_def pair_blocks_def)
    moreover have "itr_valid g ?t" using i False by (simp add: itr_valid_def gi c'_def g_def)
    moreover have "remaining g ?t = tl (remaining h it)" using i(2) rm by (simp add: remaining_def gi c'_def)
    ultimately show ?thesis using g by simp
  qed
qed

lemma itr_search:
  assumes "hash_wf h" "itr_valid h it"
  shows "itr_valid h (fst (arg_hashtable_itr_search h k it))"
proof -
  let ?i = "index_for (tablelength h) (enhanced_hash h k)"
  obtain c r where rc: "remove_chain (entry_matches h k) (table h ! ?i) = (c, r)" by fastforce
  show ?thesis
  proof (cases r)
    case None
    then show ?thesis using assms(2) rc by (simp add: arg_hashtable_itr_search_def search_position Let_def)
  next
    case (Some e)
    then show ?thesis using remove_chain_position [of "entry_matches h k" "table h ! ?i" c e] rc hash_wf_index [OF assms(1)]
      by (simp add: arg_hashtable_itr_search_def search_position Let_def itr_valid_def)
  qed
qed

text \<open>A walk over the table: the key and value of every position until the iterator is at the end.\<close>

fun itr_walk :: "nat \<Rightarrow> ('k, 'v) arg_hashtable \<Rightarrow> itr \<Rightarrow> ('k \<times> 'v) list option" where
  "itr_walk 0 h it = None"
| "itr_walk (Suc n) h it =
     (case (arg_hashtable_itr_key h it, arg_hashtable_itr_value h it) of
        (Inr k, Inr v) \<Rightarrow> map_option (\<lambda>ps. (k, v) # ps) (itr_walk n h (fst (arg_hashtable_itr_advance h it)))
      | _ \<Rightarrow> Some [])"

lemma itr_walk_remaining:
  assumes "length (table h) = tablelength h" "itr_valid h it" "length (remaining h it) < n"
  shows "itr_walk n h it = Some (map (\<lambda>e. (e_k e, e_v e)) (remaining h it))"
  using assms(2,3)
proof (induction n arbitrary: it)
  case (Suc n)
  show ?case
  proof (cases "itr_e it")
    case None
    then show ?thesis by (simp add: arg_hashtable_itr_key_def itr_entry_def remaining_def)
  next
    case (Some p)
    let ?e = "table h ! itr_index it ! p"
    have r: "remaining h it = ?e # tl (remaining h it)"
      using Some Suc.prems(1) by (simp add: remaining_def itr_valid_def Cons_nth_drop_Suc [symmetric])
    have "length (tl (remaining h it)) < n" using Suc.prems(2) r by (metis Suc_less_eq length_Cons)
    with itr_advance [OF assms(1) Suc.prems(1)] Suc.IH [of "fst (arg_hashtable_itr_advance h it)"] show ?thesis
      by (subst r) (simp add: arg_hashtable_itr_key_def arg_hashtable_itr_value_def itr_entry_def Some)
  qed
qed simp

section \<open>Sequences of calls\<close>

text \<open>
  A client: calls on the table and on one iterator, with the blocks that were handed to the table or allocated by it and
  those it freed. An insertion or a removal ends the iteration, because it may move or free the entry the iterator is at.
\<close>

datatype ('k, 'v) ht_call =
    Insert 'k 'v
  | Remove 'k
  | Change 'k 'v
  | Itr_create
  | Itr_search 'k
  | Itr_advance
  | Itr_remove

record ('k, 'v) ht_client =
  ht :: "('k, 'v) arg_hashtable"
  ht_itr :: "itr option"
  taken :: "('k, 'v) block list"
  freed :: "('k, 'v) block list"

definition with_itr :: "('k, 'v) ht_client \<Rightarrow> (itr \<Rightarrow> 'a outcome) \<Rightarrow> 'a outcome" where
  "with_itr s f = (case ht_itr s of None \<Rightarrow> Inl Null_deref | Some it \<Rightarrow> f it)"

fun ht_step :: "('k, 'v) ht_call \<Rightarrow> ('k, 'v) ht_client \<Rightarrow> ('k, 'v) ht_client outcome" where
  "ht_step (Insert k v) s =
     Inr (s\<lparr>ht := arg_hashtable_insert k v (ht s), ht_itr := None, taken := taken s @ [Key_block k, Value_block v, Entry_block]\<rparr>)"
| "ht_step (Remove k) s =
     (case arg_hashtable_remove k (ht s) of (h, bs) \<Rightarrow> Inr (s\<lparr>ht := h, ht_itr := None, freed := freed s @ bs\<rparr>))"
| "ht_step (Change k v) s =
     (case arg_hashtable_change k v (ht s) of (h, bs, found) \<Rightarrow>
        Inr (s\<lparr>ht := h, taken := taken s @ (if found then [Value_block v] else []), freed := freed s @ bs\<rparr>))"
| "ht_step Itr_create s = Inr (s\<lparr>ht_itr := Some (arg_hashtable_itr_create (ht s))\<rparr>)"
| "ht_step (Itr_search k) s = with_itr s (\<lambda>it. Inr (s\<lparr>ht_itr := Some (fst (arg_hashtable_itr_search (ht s) k it))\<rparr>))"
| "ht_step Itr_advance s = with_itr s (\<lambda>it. Inr (s\<lparr>ht_itr := Some (fst (arg_hashtable_itr_advance (ht s) it))\<rparr>))"
| "ht_step Itr_remove s =
     with_itr s (\<lambda>it. obind (arg_hashtable_itr_remove (ht s) it) (\<lambda>(h, it, ret, bs).
       Inr (s\<lparr>ht := h, ht_itr := Some it, freed := freed s @ bs\<rparr>)))"

fun ht_run :: "('k, 'v) ht_call list \<Rightarrow> ('k, 'v) ht_client \<Rightarrow> ('k, 'v) ht_client outcome" where
  "ht_run [] s = Inr s"
| "ht_run (c # cs) s = obind (ht_step c s) (ht_run cs)"

definition ht_client_new :: "('k, 'v) arg_hashtable \<Rightarrow> ('k, 'v) ht_client" where
  "ht_client_new h = \<lparr>ht = h, ht_itr = None, taken = [], freed = []\<rparr>"

definition owned :: "('k, 'v) arg_hashtable \<Rightarrow> ('k, 'v) block multiset" where
  "owned h = (\<Sum>p \<in># pairs h. mset (pair_blocks p))"

definition client_ok :: "('k, 'v) ht_client \<Rightarrow> bool" where
  "client_ok s =
     (hash_wf (ht s) \<and> (\<forall>it. ht_itr s = Some it \<longrightarrow> itr_valid (ht s) it) \<and> mset (taken s) = mset (freed s) + owned (ht s))"

lemma owned_destroy: "mset (arg_hashtable_destroy True h) = owned h"
proof -
  have "mset (concat (map (\<lambda>e. pair_blocks (e_k e, e_v e)) c)) = (\<Sum>e \<in># mset c. mset (pair_blocks (e_k e, e_v e)))" for c :: "('a, 'b) entry list"
    by (induction c) simp_all
  then have "mset (concat (map (\<lambda>c. concat (map (\<lambda>e. pair_blocks (e_k e, e_v e)) c)) t)) =
      (\<Sum>e \<in># mset (concat t). mset (pair_blocks (e_k e, e_v e)))" for t :: "('a, 'b) entry list list"
    by (induction t) simp_all
  then show ?thesis
    by (simp add: arg_hashtable_destroy_def owned_def pairs_def pair_blocks_def multiset.map_comp comp_def)
qed

lemma itr_create_valid: "itr_valid h (arg_hashtable_itr_create h)"
  using find_bucket_Some [of "table h" 0]
  by (auto simp: arg_hashtable_itr_create_def Let_def itr_valid_def split: option.split)

lemma itr_valid_cong: "map length (table g) = map length (table h) \<Longrightarrow> itr_valid g it = itr_valid h it"
proof -
  assume m: "map length (table g) = map length (table h)"
  then have "length (table g) = length (table h)" by (metis length_map)
  moreover have "length (table g ! i) = length (table h ! i)" if "i < length (table h)" for i
    using m that calculation by (metis nth_map)
  ultimately show ?thesis unfolding itr_valid_def by (cases "itr_index it < length (table h)") (simp_all split: option.split)
qed

lemma ht_step_ok:
  assumes "client_ok s" "ht_step c s = Inr s'"
  shows "client_ok s' \<and> same_functions (ht s') (ht s)"
proof -
  have wf: "hash_wf (ht s)" and len: "length (table (ht s)) = tablelength (ht s)"
    using assms(1) by (simp_all add: client_ok_def hash_wf_def)
  show ?thesis
  proof (cases c)
    case (Insert k v)
    have "owned (arg_hashtable_insert k v (ht s)) = mset (pair_blocks (k, v)) + owned (ht s)"
      by (simp add: owned_def insert_ok [OF wf])
    moreover have "s' = s\<lparr>ht := arg_hashtable_insert k v (ht s), ht_itr := None, taken := taken s @ pair_blocks (k, v)\<rparr>"
      using assms(2) Insert by (simp add: pair_blocks_def)
    ultimately show ?thesis using assms(1) insert_ok [OF wf, of k v] by (simp add: client_ok_def same_functions_def)
  next
    case (Remove k)
    from remove_ok [OF wf, of k] show ?thesis
    proof (elim disjE exE conjE)
      fix g p
      assume g: "arg_hashtable_remove k (ht s) = (g, pair_blocks p)" "hash_wf g" "same_functions g (ht s)" "pairs (ht s) = add_mset p (pairs g)"
      then have "owned (ht s) = mset (pair_blocks p) + owned g" by (simp add: owned_def)
      then show ?thesis using assms Remove g by (auto simp: client_ok_def)
    qed (use assms Remove in \<open>auto simp: client_ok_def same_functions_def\<close>)
  next
    case (Change k v)
    from change_ok [OF wf, of k v] show ?thesis
    proof (elim disjE exE conjE)
      fix g p
      assume g: "arg_hashtable_change k v (ht s) = (g, [Value_block (snd p)], True)" "hash_wf g" "same_functions g (ht s)"
        "map length (table g) = map length (table (ht s))" "pairs (ht s) + {#(fst p, v)#} = add_mset p (pairs g)"
      from arg_cong [OF g(5), of "\<lambda>ps. \<Sum>p \<in># ps. mset (pair_blocks p)"]
      have "owned (ht s) + mset (pair_blocks (fst p, v)) = mset (pair_blocks p) + owned g"
        unfolding owned_def by (simp add: ac_simps)
      then have "owned (ht s) + {#Value_block v#} = add_mset (Value_block (snd p)) (owned g)"
        unfolding pair_blocks_def by (simp add: add_mset_commute)
      moreover have "s' = s\<lparr>ht := g, taken := taken s @ [Value_block v], freed := freed s @ [Value_block (snd p)]\<rparr>"
        using assms(2) Change g(1) by simp
      ultimately show ?thesis using assms(1) g(2,3) itr_valid_cong [OF g(4)] by (simp add: client_ok_def)
    qed (use assms Change in \<open>auto simp: same_functions_def\<close>)
  next
    case Itr_create
    then show ?thesis using assms itr_create_valid by (auto simp: client_ok_def same_functions_def)
  next
    case (Itr_search k)
    then show ?thesis using assms itr_search [OF wf] by (auto simp: client_ok_def same_functions_def with_itr_def split: option.splits)
  next
    case Itr_advance
    then show ?thesis using assms itr_advance [OF len] by (auto simp: client_ok_def same_functions_def with_itr_def split: option.splits)
  next
    case Itr_remove
    then obtain it where it: "ht_itr s = Some it" "itr_valid (ht s) it"
      using assms by (auto simp: client_ok_def with_itr_def split: option.splits)
    with assms Itr_remove obtain p where p: "itr_e it = Some p"
      by (cases "itr_e it") (auto simp: with_itr_def arg_hashtable_itr_remove_def)
    from itr_remove [OF wf it(2) p] obtain g it' ret q where g: "arg_hashtable_itr_remove (ht s) it = Inr (g, it', ret, pair_blocks q)"
      "hash_wf g" "itr_valid g it'" "pairs (ht s) = add_mset q (pairs g)" "hashfn g = hashfn (ht s)" "eqfn g = eqfn (ht s)" by blast
    then have "owned (ht s) = mset (pair_blocks q) + owned g" by (simp add: owned_def)
    then show ?thesis using assms Itr_remove it g by (auto simp: client_ok_def same_functions_def with_itr_def)
  qed
qed

lemma find_prime:
  "\<exists>p \<in> set ps. p > m \<Longrightarrow> \<exists>d < length ps. find_prime m ps j = (ps ! d, j + d) \<and> ps ! d > m"
proof (induction ps arbitrary: j)
  case (Cons p ps)
  show ?case
  proof (cases "p > m")
    case True
    then show ?thesis by (intro exI [of _ 0]) simp
  next
    case False
    with Cons.prems Cons.IH [of "Suc j"] obtain d where "d < length ps" "find_prime m ps (Suc j) = (ps ! d, Suc j + d)" "ps ! d > m"
      by auto
    then show ?thesis using False by (intro exI [of _ "Suc d"]) simp
  qed
qed simp

lemma create_ok:
  assumes "arg_hashtable_create minsize hash eq = Some h"
  shows "hash_wf h" "pairs h = {#}" "hashfn h = hash" "eqfn h = eq" "unat minsize < tablelength h"
proof -
  have "minsize \<le> 2 ^ 30" using assms by (auto simp: arg_hashtable_create_def split: if_splits)
  then have "unat minsize \<le> 2 ^ 30" by (simp add: word_le_nat_alt)
  then have "\<exists>p \<in> set primes. p > unat minsize" by (intro bexI [of _ 1610612741]) (simp_all add: primes_def)
  from find_prime [OF this, of 0] obtain d where d: "d < length primes" "find_prime (unat minsize) primes 0 = (primes ! d, d)"
    "primes ! d > unat minsize" by auto
  then have h: "h = \<lparr>tablelength = primes ! d, table = replicate (primes ! d) [], entrycount = 0, loadlimit = load_limit (primes ! d),
      primeindex = d, hashfn = hash, eqfn = eq\<rparr>"
    using assms by (simp add: arg_hashtable_create_def split: if_splits)
  show "hash_wf h" using d(1) by (simp add: h hash_wf_def buckets_ok_def)
  show "pairs h = {#}" "hashfn h = hash" "eqfn h = eq" "unat minsize < tablelength h"
    using d(3) by (simp_all add: h pairs_def)
qed

lemma ht_run_ok: "client_ok s \<Longrightarrow> ht_run cs s = Inr s' \<Longrightarrow> client_ok s' \<and> same_functions (ht s') (ht s)"
proof (induction cs arbitrary: s)
  case (Cons c cs)
  then obtain t where t: "ht_step c s = Inr t" "ht_run cs t = Inr s'" by (auto simp: obind_eq_Inr)
  from ht_step_ok [OF Cons.prems(1) t(1)] Cons.IH [OF _ t(2)] show ?case by (simp add: same_functions_def)
qed (simp add: same_functions_def)

lemma client_new_ok: "arg_hashtable_create minsize hash eq = Some h \<Longrightarrow> client_ok (ht_client_new h)"
  using create_ok [of minsize hash eq h] by (simp add: client_ok_def ht_client_new_def owned_def)

text \<open>
  C39: Every sequence of calls on a new table and its iterator, with any hash and comparison functions, leaves a well-formed
  table: its size is the prime of its index, its load limit that of its size, every entry has the hash of its key and is in
  the bucket of that hash, and the count is the number of entries; an iterator that was not ended is at the end or at an
  entry of its bucket, with the parent that precedes it.
\<close>

theorem hashtable_well_formed:
  assumes "arg_hashtable_create minsize hash eq = Some h" "ht_run cs (ht_client_new h) = Inr s"
  shows "hash_wf (ht s) \<and> (\<forall>it. ht_itr s = Some it \<longrightarrow> itr_valid (ht s) it)"
  using ht_run_ok [OF client_new_ok [OF assms(1)] assms(2)] by (simp add: client_ok_def)

definition example_calls :: "(nat, nat) ht_call list" where
  "example_calls = [Insert 1 10, Insert 54 20, Itr_create, Itr_search 54, Itr_advance, Change 1 11, Remove 7]"

definition example_table :: "(nat, nat) arg_hashtable" where
  "example_table = the (arg_hashtable_create 16 of_nat (=))"

lemma example_table: "arg_hashtable_create 16 of_nat (=) = Some example_table"
  by (simp add: example_table_def arg_hashtable_create_def primes_def)

lemma example_run: "\<exists>s. ht_run example_calls (ht_client_new example_table) = Inr s"
  by (simp add: example_calls_def with_itr_def ht_client_new_def split: prod.split)

theorem hashtable_well_formed_witness:
  "\<exists>s. ht_run example_calls (ht_client_new example_table) = Inr s \<and> hash_wf (ht s)"
  using example_run hashtable_well_formed [OF example_table] by blast

text \<open>
  C40: The table frees every block exactly once: the keys and values handed to it and the entries it allocated are,
  as a multiset, those freed by the calls and those that \<open>arg_hashtable_destroy\<close> frees at the end.
\<close>

theorem hashtable_frees_once:
  assumes "arg_hashtable_create minsize hash eq = Some h" "ht_run cs (ht_client_new h) = Inr s"
  shows "mset (taken s) = mset (freed s @ arg_hashtable_destroy True (ht s))"
  using ht_run_ok [OF client_new_ok [OF assms(1)] assms(2)] by (simp add: client_ok_def owned_destroy)

theorem hashtable_frees_once_witness:
  "\<exists>s. ht_run example_calls (ht_client_new example_table) = Inr s \<and> mset (taken s) = mset (freed s @ arg_hashtable_destroy True (ht s))"
  using example_run hashtable_frees_once [OF example_table] by blast

end
