(* ===== verification/ArgCmd.thy ===== *)
theory ArgCmd
  imports Hashtable
begin

text \<open>
  The command registry of argtable3 (deps/argtable/argtable3.c, lines 4558 to 4731), a client of the hash table with
  C strings as keys, and its proof against a finite map from command names. Assertions are enabled: a failed one aborts.
\<close>

record 'p arg_cmd_info_t =
  cmd_name :: string
  cmd_description :: string
  cmd_proc :: "'p option"

type_synonym 'p registry = "(string, 'p arg_cmd_info_t) arg_hashtable"

fun hash_loop :: "string \<Rightarrow> u32 \<Rightarrow> u32" where
  "hash_loop [] hash = hash"
| "hash_loop (c # str) hash =
     (if c = CHR 0x00 then hash else hash_loop str ((push_bit 5 hash + hash) + word_of_int (signed_char c)))"

definition hash_key :: "string \<Rightarrow> u32" where
  "hash_key key = hash_loop key 5381"

definition equal_keys :: "string \<Rightarrow> string \<Rightarrow> bool" where
  "equal_keys key1 key2 = (c_string key1 = c_string key2)"

definition arg_cmd_init :: "'p registry option" where
  "arg_cmd_init = arg_hashtable_create 32 hash_key equal_keys"

definition arg_cmd_uninit :: "'p registry \<Rightarrow> (string, 'p arg_cmd_info_t) block list" where
  "arg_cmd_uninit s_hashtable = arg_hashtable_destroy True s_hashtable"

definition arg_cmd_register :: "string \<Rightarrow> 'p option \<Rightarrow> string \<Rightarrow> 'p registry \<Rightarrow> 'p registry outcome" where
  "arg_cmd_register name proc description s_hashtable =
     obind (CHECK (length (c_string name) < 100)) (\<lambda>_.
     obind (CHECK (length (c_string description) < 256)) (\<lambda>_.
       let s_hashtable = (if arg_hashtable_search name s_hashtable \<noteq> None then fst (arg_hashtable_remove name s_hashtable) else s_hashtable);
           cmd_info = \<lparr>cmd_name = c_string name, cmd_description = c_string description, cmd_proc = proc\<rparr>;
           k = c_string name
       in Inr (arg_hashtable_insert k cmd_info s_hashtable)))"

definition arg_cmd_unregister :: "string \<Rightarrow> 'p registry \<Rightarrow> 'p registry" where
  "arg_cmd_unregister name s_hashtable = fst (arg_hashtable_remove name s_hashtable)"

definition arg_cmd_info :: "string \<Rightarrow> 'p registry \<Rightarrow> 'p arg_cmd_info_t option" where
  "arg_cmd_info name s_hashtable = arg_hashtable_search name s_hashtable"

text \<open>The procedure that a dispatch calls.\<close>

definition arg_cmd_dispatch :: "string \<Rightarrow> 'p registry \<Rightarrow> 'p outcome" where
  "arg_cmd_dispatch name s_hashtable =
     (case arg_cmd_info name s_hashtable of
        None \<Rightarrow> Inl Check_failed
      | Some cmd_info \<Rightarrow> (case cmd_proc cmd_info of None \<Rightarrow> Inl Check_failed | Some proc \<Rightarrow> Inr proc))"

definition arg_cmd_count :: "'p registry \<Rightarrow> u32" where
  "arg_cmd_count s_hashtable = arg_hashtable_count s_hashtable"

definition arg_cmd_itr_create :: "'p registry \<Rightarrow> itr" where
  "arg_cmd_itr_create s_hashtable = arg_hashtable_itr_create s_hashtable"

definition arg_cmd_itr_advance :: "'p registry \<Rightarrow> itr \<Rightarrow> itr \<times> bool" where
  "arg_cmd_itr_advance s_hashtable it = arg_hashtable_itr_advance s_hashtable it"

definition arg_cmd_itr_key :: "'p registry \<Rightarrow> itr \<Rightarrow> string outcome" where
  "arg_cmd_itr_key s_hashtable it = arg_hashtable_itr_key s_hashtable it"

definition arg_cmd_itr_value :: "'p registry \<Rightarrow> itr \<Rightarrow> 'p arg_cmd_info_t outcome" where
  "arg_cmd_itr_value s_hashtable it = arg_hashtable_itr_value s_hashtable it"

definition arg_cmd_itr_search :: "'p registry \<Rightarrow> string \<Rightarrow> itr \<Rightarrow> itr \<times> bool" where
  "arg_cmd_itr_search s_hashtable k it = arg_hashtable_itr_search s_hashtable k it"

section \<open>The finite map\<close>

datatype 'p cmd_call = Register string "'p option" string | Unregister string

fun cmd_step :: "'p cmd_call \<Rightarrow> 'p registry \<Rightarrow> 'p registry outcome" where
  "cmd_step (Register name proc description) h = arg_cmd_register name proc description h"
| "cmd_step (Unregister name) h = Inr (arg_cmd_unregister name h)"

fun cmd_run :: "'p cmd_call list \<Rightarrow> 'p registry \<Rightarrow> 'p registry outcome" where
  "cmd_run [] h = Inr h"
| "cmd_run (c # cs) h = obind (cmd_step c h) (cmd_run cs)"

fun cmd_spec :: "'p cmd_call \<Rightarrow> (string \<rightharpoonup> 'p arg_cmd_info_t) \<Rightarrow> (string \<rightharpoonup> 'p arg_cmd_info_t)" where
  "cmd_spec (Register name proc description) m =
     m(c_string name \<mapsto> \<lparr>cmd_name = c_string name, cmd_description = c_string description, cmd_proc = proc\<rparr>)"
| "cmd_spec (Unregister name) m = m(c_string name := None)"

definition map_pairs :: "('k \<rightharpoonup> 'v) \<Rightarrow> ('k \<times> 'v) multiset" where
  "map_pairs m = {# (k, the (m k)). k \<in># mset_set (dom m) #}"

lemma hash_loop_c_string: "hash_loop s hash = hash_loop (c_string s) hash"
  by (induction s arbitrary: hash) (simp_all add: c_string_def)

interpretation cmd_keys: hash_keys hash_key equal_keys
  by unfold_locales (metis equal_keys_def hash_key_def hash_loop_c_string)

definition refines_map :: "'p registry \<Rightarrow> (string \<rightharpoonup> 'p arg_cmd_info_t) \<Rightarrow> bool" where
  "refines_map h m = (cmd_keys.keyed h \<and> finite (dom m) \<and> (\<forall>k \<in> dom m. c_string k = k) \<and> pairs h = map_pairs m)"

lemma c_string_idem [simp]: "c_string (c_string s) = c_string s"
  by (auto simp: c_string_def takeWhile_eq_all_conv dest: set_takeWhileD)

lemma in_map_pairs: "finite (dom m) \<Longrightarrow> p \<in># map_pairs m \<longleftrightarrow> m (fst p) = Some (snd p)"
  by (cases p) (auto simp: map_pairs_def)

lemma map_pairs_new: "finite (dom m) \<Longrightarrow> m k = None \<Longrightarrow> map_pairs (m(k \<mapsto> v)) = add_mset (k, v) (map_pairs m)"
proof -
  assume "finite (dom m)" "m k = None"
  moreover from this have "k \<notin> dom m" by auto
  ultimately have "map_pairs (m(k \<mapsto> v)) = add_mset (k, v) {# (x, the ((m(k \<mapsto> v)) x)). x \<in># mset_set (dom m) #}"
    by (simp add: map_pairs_def)
  also have "{# (x, the ((m(k \<mapsto> v)) x)). x \<in># mset_set (dom m) #} = map_pairs m"
    unfolding map_pairs_def using \<open>k \<notin> dom m\<close> \<open>finite (dom m)\<close> by (intro image_mset_cong) auto
  finally show ?thesis .
qed

lemma map_pairs_delete: "finite (dom m) \<Longrightarrow> m k = Some v \<Longrightarrow> map_pairs m = add_mset (k, v) (map_pairs (m(k := None)))"
  using map_pairs_new [of "m(k := None)" k v] by (simp add: fun_upd_idem)

lemma refines_search:
  assumes "refines_map h m"
  shows "arg_hashtable_search name h = m (c_string name)"
proof -
  have k: "cmd_keys.keyed h" "finite (dom m)" "\<And>k. k \<in> dom m \<Longrightarrow> c_string k = k" "pairs h = map_pairs m"
    using assms by (simp_all add: refines_map_def)
  show ?thesis
  proof (cases "arg_hashtable_search name h")
    case None
    with cmd_keys.keyed_search [OF k(1), of name] have "\<forall>p \<in># map_pairs m. c_string name \<noteq> c_string (fst p)"
      by (simp add: k(4) equal_keys_def)
    then have "m (c_string name) \<noteq> Some v" for v
      using in_map_pairs [OF k(2), of "(c_string name, v)"] by (metis c_string_idem fst_conv snd_conv)
    then show ?thesis using None by (metis not_None_eq)
  next
    case (Some v)
    with cmd_keys.keyed_search [OF k(1), of name] obtain k' where "(k', v) \<in># map_pairs m" "c_string name = c_string k'"
      by (auto simp: k(4) equal_keys_def)
    then show ?thesis using Some in_map_pairs [OF k(2), of "(k', v)"] k(3) [of k'] by (simp add: domI)
  qed
qed

lemma refines_remove:
  assumes "refines_map h m"
  shows "refines_map (fst (arg_hashtable_remove name h)) (m(c_string name := None))"
proof -
  have k: "cmd_keys.keyed h" "finite (dom m)" "\<And>k. k \<in> dom m \<Longrightarrow> c_string k = k" "pairs h = map_pairs m"
    using assms by (simp_all add: refines_map_def)
  from cmd_keys.keyed_remove [OF k(1), of name] show ?thesis
  proof (elim disjE exE conjE)
    assume r: "arg_hashtable_remove name h = (h, [])" "\<forall>p \<in># pairs h. \<not> equal_keys name (fst p)"
    then have "m (c_string name) \<noteq> Some v" for v
      using in_map_pairs [OF k(2), of "(c_string name, v)"] by (metis c_string_idem equal_keys_def fst_conv k(4) snd_conv)
    then have "m(c_string name := None) = m" by (metis fun_upd_idem not_None_eq)
    then show ?thesis using r assms by simp
  next
    fix g p
    assume r: "arg_hashtable_remove name h = (g, pair_blocks p)" "cmd_keys.keyed g" "pairs h = add_mset p (pairs g)"
      "equal_keys name (fst p)"
    then have p: "m (fst p) = Some (snd p)" using in_map_pairs [OF k(2), of p] k(4) by simp
    then have n: "c_string name = fst p" using k(3) [of "fst p"] r(4) by (auto simp: equal_keys_def)
    have "add_mset p (pairs g) = add_mset p (map_pairs (m(fst p := None)))"
      using map_pairs_delete [OF k(2) p] r(3) k(4) by simp
    then show ?thesis using r(1,2) k(2,3) by (simp add: refines_map_def n)
  qed
qed

lemma map_step:
  assumes "refines_map h m" "cmd_step c h = Inr g"
  shows "refines_map g (cmd_spec c m)"
proof (cases c)
  case (Unregister name)
  then show ?thesis using assms refines_remove by (auto simp: arg_cmd_unregister_def)
next
  case (Register name proc description)
  let ?k = "c_string name"
  let ?v = "\<lparr>cmd_name = ?k, cmd_description = c_string description, cmd_proc = proc\<rparr>"
  define h1 where "h1 = (if arg_hashtable_search name h \<noteq> None then fst (arg_hashtable_remove name h) else h)"
  have g: "g = arg_hashtable_insert ?k ?v h1"
    using assms(2) unfolding Register cmd_step.simps arg_cmd_register_def Let_def h1_def [symmetric] by (simp add: obind_eq_Inr)
  have h1: "refines_map h1 (m(?k := None))"
    using assms(1) refines_remove [OF assms(1), of name] refines_search [OF assms(1), of name]
    by (cases "m (c_string name)") (simp_all add: h1_def fun_upd_idem)
  then have k: "cmd_keys.keyed h1" "finite (dom (m(?k := None)))" "pairs h1 = map_pairs (m(?k := None))"
    and kk: "\<forall>k \<in> dom (m(?k := None)). c_string k = k"
    unfolding refines_map_def by blast+
  note i = cmd_keys.keyed_insert [OF k(1), of ?k ?v, folded g]
  have "map_pairs ((m(?k := None))(?k \<mapsto> ?v)) = add_mset (?k, ?v) (map_pairs (m(?k := None)))"
    by (rule map_pairs_new [OF k(2)]) simp
  then have p: "pairs g = map_pairs (m(?k \<mapsto> ?v))" using i k(3) by simp
  have d: "dom (m(?k \<mapsto> ?v)) = insert ?k (dom (m(?k := None)))" by auto
  have "\<forall>k \<in> insert ?k (dom (m(?k := None))). c_string k = k" using kk c_string_idem by blast
  moreover have "finite (insert ?k (dom (m(?k := None))))" using k(2) by (rule finite.insertI)
  ultimately show ?thesis unfolding Register cmd_spec.simps refines_map_def d using i p by blast
qed

lemma map_run: "refines_map h m \<Longrightarrow> cmd_run cs h = Inr g \<Longrightarrow> refines_map g (fold cmd_spec cs m)"
proof (induction cs arbitrary: h m)
  case (Cons c cs)
  then obtain t where "cmd_step c h = Inr t" "cmd_run cs t = Inr g" by (auto simp: obind_eq_Inr)
  then show ?case using Cons.IH [OF map_step [OF Cons.prems(1)]] by simp
qed simp

lemma spec_size: "finite (dom m) \<Longrightarrow> finite (dom (fold cmd_spec cs m)) \<and> card (dom (fold cmd_spec cs m)) \<le> card (dom m) + length cs"
proof (induction cs arbitrary: m)
  case (Cons c cs)
  have "finite (dom (cmd_spec c m)) \<and> card (dom (cmd_spec c m)) \<le> Suc (card (dom m))"
  proof (cases c)
    case (Register name proc description)
    then show ?thesis using Cons.prems card_insert_le_m1 by (simp add: card_insert_if)
  next
    case (Unregister name)
    then show ?thesis using Cons.prems card_mono [of "dom m" "dom m - {c_string name}"] by simp
  qed
  then show ?case using Cons.IH [of "cmd_spec c m"] by auto
qed simp

lemma refines_size:
  assumes "refines_map h m"
  shows "length (concat (table h)) = card (dom m)"
proof -
  have "size (pairs h) = size (map_pairs m)" using assms by (simp add: refines_map_def)
  then show ?thesis by (simp add: pairs_def map_pairs_def)
qed

lemma refines_graph:
  assumes "refines_map h m"
  defines "ps \<equiv> map (\<lambda>e. (e_k e, e_v e)) (concat (table h))"
  shows "distinct (map fst ps)" "map_of ps = m"
proof -
  have f: "finite (dom m)" and p: "mset ps = map_pairs m"
    using assms(1) by (simp_all add: refines_map_def pairs_def ps_def)
  have "mset (map fst ps) = mset_set (dom m)"
    using arg_cong [OF p, of "image_mset fst"] by (simp add: map_pairs_def multiset.map_comp comp_def)
  moreover from this have "set (map fst ps) = dom m" using f by (metis finite_set_mset_mset_set set_mset_mset)
  ultimately show d: "distinct (map fst ps)" using f by (simp only: distinct_count_atmost_1) simp
  have "set ps = {(k, v). m k = Some v}"
    using arg_cong [OF p, of set_mset] in_map_pairs [OF f] by auto
  note ps = this
  show "map_of ps = m"
  proof
    fix k
    show "map_of ps k = m k"
    proof (cases "m k")
      case None
      then show ?thesis using ps by (auto simp: map_of_eq_None_iff)
    next
      case (Some v)
      then show ?thesis using ps map_of_is_SomeI [OF d, of k v] by simp
    qed
  qed
qed

text \<open>
  C38: The command registry is a finite map. After any sequence of registrations and removals that passes its assertions, the
  information of a name, the procedure a dispatch calls and the number of commands are those of the map the same
  sequence makes of the names, and a walk with the iterator visits every command exactly once.
\<close>

theorem arg_cmd_refines_map:
  assumes "arg_cmd_init = Some h0" "cmd_run cs h0 = Inr h" "length cs < 2 ^ 32" "length cs < n"
  defines "m \<equiv> fold cmd_spec cs Map.empty"
  shows "arg_cmd_info name h = m (c_string name) \<and>
    arg_cmd_dispatch name h = (case m (c_string name) of None \<Rightarrow> Inl Check_failed
      | Some info \<Rightarrow> (case cmd_proc info of None \<Rightarrow> Inl Check_failed | Some proc \<Rightarrow> Inr proc)) \<and>
    unat (arg_cmd_count h) = card (dom m) \<and>
    (\<exists>ps. itr_walk n h (arg_cmd_itr_create h) = Some ps \<and> distinct (map fst ps) \<and> map_of ps = m)"
proof -
  have "refines_map h0 Map.empty"
    using create_ok [OF assms(1) [unfolded arg_cmd_init_def]] by (simp add: refines_map_def cmd_keys.keyed_def map_pairs_def)
  then have r: "refines_map h m" unfolding m_def using assms(2) by (rule map_run)
  then have wf: "hash_wf h" by (simp add: refines_map_def cmd_keys.keyed_def)
  have c: "length (concat (table h)) \<le> length cs" using spec_size [of Map.empty cs] refines_size [OF r] by (simp add: m_def)
  have i: "arg_cmd_info name h = m (c_string name)" by (simp add: arg_cmd_info_def refines_search [OF r])
  have k: "unat (arg_cmd_count h) = card (dom m)"
    using wf c assms(3) refines_size [OF r]
    by (simp add: arg_cmd_count_def arg_hashtable_count_def hash_wf_def unsigned_of_nat take_bit_nat_eq_self)
  have "length (concat (table h)) < 2 ^ 32" using c assms(3) by simp
  from itr_create [OF wf this] itr_walk_remaining [of h "arg_hashtable_itr_create h" n] wf c assms(4)
  have "\<exists>ps. itr_walk n h (arg_cmd_itr_create h) = Some ps \<and> distinct (map fst ps) \<and> map_of ps = m"
    using refines_graph [OF r] by (simp add: arg_cmd_itr_create_def hash_wf_def)
  with i k show ?thesis by (simp add: arg_cmd_dispatch_def)
qed

theorem arg_cmd_refines_map_witness:
  "\<exists>h0 h. arg_cmd_init = Some h0 \<and> cmd_run [Register ''ls'' (Some (1 :: nat)) ''list'', Register ''cp'' None ''copy''] h0 = Inr h \<and>
     arg_cmd_dispatch ''ls'' h = Inr 1 \<and> arg_cmd_dispatch ''cp'' h = Inl Check_failed \<and> unat (arg_cmd_count h) = 2"
proof -
  obtain h0 :: "nat registry" where h0: "arg_cmd_init = Some h0"
    by (cases "find_prime (unat (32 :: u32)) primes 0") (simp add: arg_cmd_init_def arg_hashtable_create_def)
  let ?cs = "[Register ''ls'' (Some (1 :: nat)) ''list'', Register ''cp'' None ''copy'']"
  obtain h where h: "cmd_run ?cs h0 = Inr h" by (simp add: arg_cmd_register_def c_string_def Let_def)
  from arg_cmd_refines_map [OF h0 h, of 3 "''ls''"] arg_cmd_refines_map [OF h0 h, of 3 "''cp''"] h0 h
  show ?thesis by (intro exI [of _ h0] exI [of _ h]) (simp add: c_string_def)
qed

end
