(* ===== verification/Permute.thy ===== *)
theory Permute
  imports CText
begin

text \<open>
  The rotation that getopt uses to move non-options behind options (deps/argtable/argtable3.c, \<open>gcd\<close> and
  \<open>permute_args\<close>), and its proof: two adjacent blocks of the argument vector are exchanged, each in its order.
\<close>

function c_gcd :: "nat \<Rightarrow> nat \<Rightarrow> nat" where
  "c_gcd a b = (if b = 0 then a else let c = a mod b in if c = 0 then b else c_gcd b c)"
  by pat_completeness auto
termination by (relation "measure snd") (auto simp: Let_def)

declare c_gcd.simps [simp del]

fun cycle :: "nat \<Rightarrow> nat \<Rightarrow> nat \<Rightarrow> nat \<Rightarrow> nat \<Rightarrow> nat \<Rightarrow> 'a list \<Rightarrow> 'a list" where
  "cycle panonopt_end nnonopts nopts cstart 0 pos nargv = nargv"
| "cycle panonopt_end nnonopts nopts cstart (Suc j) pos nargv =
     (let pos = (if pos \<ge> panonopt_end then pos - nnonopts else pos + nopts);
          swap = nargv ! pos
      in cycle panonopt_end nnonopts nopts cstart j pos (nargv[pos := nargv ! cstart, cstart := swap]))"

fun cycles :: "nat \<Rightarrow> nat \<Rightarrow> nat \<Rightarrow> nat \<Rightarrow> nat \<Rightarrow> nat \<Rightarrow> 'a list \<Rightarrow> 'a list" where
  "cycles panonopt_end nnonopts nopts cyclelen i 0 nargv = nargv"
| "cycles panonopt_end nnonopts nopts cyclelen i (Suc n) nargv =
     (let cstart = panonopt_end + i
      in cycles panonopt_end nnonopts nopts cyclelen (Suc i) n (cycle panonopt_end nnonopts nopts cstart cyclelen cstart nargv))"

definition permute_args :: "nat \<Rightarrow> nat \<Rightarrow> nat \<Rightarrow> 'a list \<Rightarrow> 'a list" where
  "permute_args panonopt_start panonopt_end opt_end nargv =
     (let nnonopts = panonopt_end - panonopt_start;
          nopts = opt_end - panonopt_end;
          ncycle = c_gcd nnonopts nopts;
          cyclelen = (opt_end - panonopt_start) div ncycle
      in cycles panonopt_end nnonopts nopts cyclelen 0 ncycle nargv)"

lemma c_gcd: "0 < b \<Longrightarrow> c_gcd a b = gcd a b"
proof (induction a b rule: c_gcd.induct)
  case (1 a b)
  show ?case
  proof (cases "a mod b = 0")
    case True
    then show ?thesis using 1(2) by (simp add: c_gcd.simps [of a b] gcd_nat.absorb2 mod_eq_0_iff_dvd)
  next
    case False
    then show ?thesis using 1 by (simp add: c_gcd.simps [of a b] Let_def gcd.commute) (metis gcd.commute gcd_red_nat)
  qed
qed

lemma dvd_mult_period:
  fixes b n d :: nat
  assumes "0 < n" "n dvd b * d"
  shows "n div gcd b n dvd d"
proof -
  let ?g = "gcd b n"
  have g: "0 < ?g" using assms(1) by simp
  have "b * d = (b div ?g * d) * ?g" by (metis dvd_div_mult_self gcd_dvd1 mult.assoc mult.commute)
  moreover have "n = (n div ?g) * ?g" by simp
  ultimately have "(n div ?g) * ?g dvd (b div ?g * d) * ?g" using assms(2) by metis
  then have "n div ?g dvd b div ?g * d" using g by (simp only: dvd_times_right_cancel_iff)
  moreover have "coprime (n div ?g) (b div ?g)" using assms(1) div_gcd_coprime [of n b] by (simp add: gcd.commute)
  ultimately show ?thesis using coprime_dvd_mult_right_iff by blast
qed

lemma mod_eq_dvd_nat: "(x :: nat) mod n = y mod n \<Longrightarrow> x \<le> y \<Longrightarrow> n dvd y - x"
  by (metis mod_eq_dvd_iff_nat)

text \<open>The orbit of a position, counted from the first block of \<open>a\<close> elements, under the step of a cycle.\<close>

definition orbit :: "nat \<Rightarrow> nat \<Rightarrow> nat \<Rightarrow> nat \<Rightarrow> nat" where
  "orbit a b c t = (c + t * b) mod (a + b)"

definition period :: "nat \<Rightarrow> nat \<Rightarrow> nat" where
  "period a b = (a + b) div gcd b (a + b)"

definition rotated :: "nat \<Rightarrow> nat \<Rightarrow> nat \<Rightarrow> nat" where
  "rotated a b p = (p + a) mod (a + b)"

lemma orbit_less: "0 < b \<Longrightarrow> orbit a b c t < a + b"
  by (simp add: orbit_def)

lemma orbit_0: "c < a + b \<Longrightarrow> orbit a b c 0 = c"
  by (simp add: orbit_def)

lemma orbit_step: "0 < b \<Longrightarrow> orbit a b c (Suc t) = (if orbit a b c t \<ge> a then orbit a b c t - a else orbit a b c t + b)"
proof -
  assume b: "0 < b"
  define x where "x = orbit a b c t"
  have x: "x < a + b" unfolding x_def by (rule orbit_less [OF b])
  have "orbit a b c (Suc t) = (x + b) mod (a + b)" by (simp add: x_def orbit_def mod_add_right_eq mod_add_left_eq add.commute add.left_commute)
  also have "\<dots> = (if x \<ge> a then x - a else x + b)"
  proof (cases "x \<ge> a")
    case True
    then have "x + b = (x - a) + (a + b)" by simp
    then show ?thesis using True x by (simp only: mod_add_self2) simp
  qed simp
  finally show ?thesis by (simp add: x_def)
qed

lemma orbit_inj:
  assumes "0 < b" "t < period a b" "u < period a b" "orbit a b c t = orbit a b c u"
  shows "t = u"
proof -
  have w: "t = u" if "t \<le> u" "u < period a b" "(c + t * b) mod (a + b) = (c + u * b) mod (a + b)" for t u
  proof -
    have "a + b dvd (c + u * b) - (c + t * b)" using that by (intro mod_eq_dvd_nat) (simp_all add: mult_le_mono1)
    then have "a + b dvd b * (u - t)" by (simp add: diff_mult_distrib2 mult.commute)
    then have "period a b dvd u - t" unfolding period_def using assms(1) by (intro dvd_mult_period) simp_all
    then show ?thesis using that by (cases "u - t = 0") (auto dest: dvd_imp_le)
  qed
  show ?thesis using assms w [of t u] w [of u t] by (cases "t \<le> u") (auto simp: orbit_def)
qed

lemma period_pos: "0 < b \<Longrightarrow> 0 < period a b"
  unfolding period_def by (simp add: div_greater_zero_iff)

lemma orbit_period: "orbit a b c (period a b) = orbit a b c 0"
proof -
  have "period a b * b = (a + b) * (b div gcd b (a + b))"
    unfolding period_def by (metis dvd_div_mult div_mult_swap gcd_dvd1 gcd_dvd2 mult.commute)
  then show ?thesis by (simp add: orbit_def)
qed

lemma rotated_orbit: "rotated a b (orbit a b c (Suc t)) = orbit a b c t"
proof -
  have "rotated a b (orbit a b c (Suc t)) = (c + t * b + (a + b)) mod (a + b)"
    by (simp add: rotated_def orbit_def mod_add_right_eq mod_add_left_eq ac_simps)
  then show ?thesis by (simp only: mod_add_self2 orbit_def)
qed

text \<open>A cycle moves every element of its orbit to its place and no other element.\<close>

definition cycled :: "nat \<Rightarrow> nat \<Rightarrow> nat \<Rightarrow> nat \<Rightarrow> nat \<Rightarrow> 'a list \<Rightarrow> 'a list \<Rightarrow> bool" where
  "cycled s a b c t xs ys =
     (length ys = length xs \<and> ys ! (s + c) = xs ! (s + orbit a b c t) \<and>
      (\<forall>v. 1 \<le> v \<and> v \<le> t \<longrightarrow> ys ! (s + orbit a b c v) = xs ! (s + orbit a b c (v - 1))) \<and>
      (\<forall>p. p \<notin> (\<lambda>v. s + orbit a b c v) ` {0..t} \<longrightarrow> ys ! p = xs ! p))"

lemma cycled_step:
  assumes b: "0 < b" and c: "c < a + b" and len: "s + (a + b) \<le> length xs"
    and t: "Suc t < period a b" and cy: "cycled s a b c t xs ys"
  shows "cycled s a b c (Suc t) xs (ys[s + orbit a b c (Suc t) := ys ! (s + c), s + c := ys ! (s + orbit a b c (Suc t))])"
proof -
  let ?q = "orbit a b c"
  let ?p = "s + ?q (Suc t)"
  let ?ys = "ys[?p := ys ! (s + c), s + c := ys ! ?p]"
  have inj: "?q v \<noteq> ?q w" if "v < w" "w \<le> Suc t" for v w
    using orbit_inj [OF b, of v a w c] that t by auto
  have c0: "?q 0 = c" by (rule orbit_0 [OF c])
  have lt: "s + ?q v < length ys" for v using orbit_less [OF b, of a c v] len cy by (simp add: cycled_def)
  have pc: "?q (Suc t) \<noteq> c" using inj [of 0 "Suc t"] c0 by simp
  have "?p \<notin> (\<lambda>v. s + ?q v) ` {0..t}"
  proof
    assume "?p \<in> (\<lambda>v. s + ?q v) ` {0..t}"
    then obtain v where "v \<le> t" "?q (Suc t) = ?q v" by auto
    then show False using inj [of v "Suc t"] by simp
  qed
  then have old: "ys ! ?p = xs ! ?p" using cy by (simp add: cycled_def)
  have lc: "s + c < length ys" using lt [of 0] c0 by simp
  have "?ys ! (s + ?q v) = xs ! (s + ?q (v - 1))" if "1 \<le> v" "v \<le> Suc t" for v
  proof (cases "v = Suc t")
    case True
    then show ?thesis using pc lt [of "Suc t"] cy by (simp add: cycled_def)
  next
    case False
    then have "?q v \<noteq> ?q (Suc t)" "?q v \<noteq> c" using inj [of v "Suc t"] inj [of 0 v] that c0 by auto
    then show ?thesis using that False cy by (simp add: cycled_def)
  qed
  moreover have "?ys ! p = xs ! p" if p: "p \<notin> (\<lambda>v. s + ?q v) ` {0..Suc t}" for p
  proof -
    have "p \<noteq> s + ?q v" if "v \<le> Suc t" for v using p that by auto
    from this [of "Suc t"] this [of 0] have "p \<noteq> ?p" "p \<noteq> s + c" using c0 by simp_all
    moreover have "p \<notin> (\<lambda>v. s + ?q v) ` {0..t}" using p by auto
    ultimately show ?thesis using cy by (simp add: cycled_def)
  qed
  ultimately show ?thesis using cy old lc by (simp add: cycled_def)
qed

lemma cycle_loop:
  assumes b: "0 < b" and c: "c < a + b" and len: "s + (a + b) \<le> length xs"
  shows "t + m = period a b \<Longrightarrow> 0 < m \<Longrightarrow> cycled s a b c t xs ys \<Longrightarrow>
    cycled s a b c (period a b - 1) xs (cycle (s + a) a b (s + c) m (s + orbit a b c t) ys)"
proof (induction m arbitrary: t ys)
  case (Suc m)
  let ?q = "orbit a b c"
  have p: "(if s + ?q t \<ge> s + a then s + ?q t - a else s + ?q t + b) = s + ?q (Suc t)"
    by (simp add: orbit_step [OF b])
  show ?case
  proof (cases "m = 0")
    case True
    then have "?q (Suc t) = c" using Suc.prems(1) orbit_period [of a b c] orbit_0 [OF c] by simp
    then have "cycle (s + a) a b (s + c) (Suc m) (s + ?q t) ys = ys"
      using True p by simp
    moreover have "period a b - 1 = t" using Suc.prems(1) True by simp
    ultimately show ?thesis using Suc.prems(3) by metis
  next
    case False
    have "cycled s a b c (Suc t) xs (ys[s + ?q (Suc t) := ys ! (s + c), s + c := ys ! (s + ?q (Suc t))])"
      using Suc.prems False by (intro cycled_step [OF b c len]) simp_all
    from Suc.IH [OF _ _ this] show ?thesis using Suc.prems(1) False p by (simp add: Let_def)
  qed
qed simp

definition in_orbit :: "nat \<Rightarrow> nat \<Rightarrow> nat \<Rightarrow> nat \<Rightarrow> bool" where
  "in_orbit a b c p = (\<exists>t < period a b. p = orbit a b c t)"

lemma cycle_effect:
  assumes b: "0 < b" and c: "c < a + b" and len: "s + (a + b) \<le> length xs"
  defines "ys \<equiv> cycle (s + a) a b (s + c) (period a b) (s + c) xs"
  shows "length ys = length xs"
    and "in_orbit a b c p \<Longrightarrow> ys ! (s + p) = xs ! (s + rotated a b p)"
    and "(\<And>q. in_orbit a b c q \<Longrightarrow> p \<noteq> s + q) \<Longrightarrow> ys ! p = xs ! p"
proof -
  have "cycled s a b c 0 xs xs" by (simp add: cycled_def orbit_0 [OF c])
  from cycle_loop [OF b c len _ _ this, of "period a b"] have cy: "cycled s a b c (period a b - 1) xs ys"
    using period_pos [OF b] orbit_0 [OF c] by (simp add: ys_def)
  then show "length ys = length xs" by (simp add: cycled_def)
  show "ys ! (s + p) = xs ! (s + rotated a b p)" if "in_orbit a b c p"
  proof -
    from that obtain t where t: "t < period a b" "p = orbit a b c t" by (auto simp: in_orbit_def)
    show ?thesis
    proof (cases t)
      case 0
      have "rotated a b p = orbit a b c (period a b - 1)"
        using rotated_orbit [of a b c "period a b - 1"] orbit_period [of a b c] period_pos [OF b, of a] t 0 by simp
      moreover have "p = c" using t 0 orbit_0 [OF c] by simp
      ultimately show ?thesis using cy by (simp add: cycled_def)
    next
      case (Suc v)
      then have "ys ! (s + orbit a b c t) = xs ! (s + orbit a b c (t - 1))" using cy t by (auto simp: cycled_def)
      then show ?thesis using t Suc rotated_orbit [of a b c v] by simp
    qed
  qed
  show "ys ! p = xs ! p" if p: "\<And>q. in_orbit a b c q \<Longrightarrow> p \<noteq> s + q"
  proof -
    have "p \<notin> (\<lambda>v. s + orbit a b c v) ` {0..period a b - 1}"
    proof
      assume "p \<in> (\<lambda>v. s + orbit a b c v) ` {0..period a b - 1}"
      then obtain v where "v \<le> period a b - 1" "p = s + orbit a b c v" by auto
      moreover from this have "in_orbit a b c (orbit a b c v)"
        using period_pos [OF b, of a] unfolding in_orbit_def by (intro exI [of _ v]) simp
      ultimately show False using p by blast
    qed
    then show ?thesis using cy by (simp add: cycled_def)
  qed
qed

text \<open>The orbits of the starts of the cycles are disjoint and cover both blocks.\<close>

lemma orbit_residue: "orbit a b c t mod gcd b (a + b) = c mod gcd b (a + b)"
proof -
  have "(c + t * b) mod (a + b) mod gcd b (a + b) = (c + t * b) mod gcd b (a + b)"
    by (rule mod_mod_cancel) simp
  also have "\<dots> = c mod gcd b (a + b)" using mod_add_right_eq [of c "t * b" "gcd b (a + b)"] by simp
  finally show ?thesis by (simp only: orbit_def)
qed

lemma residue_unique: "g dvd a \<Longrightarrow> (a + i) mod g = (a + j) mod g \<Longrightarrow> i < g \<Longrightarrow> j < g \<Longrightarrow> i = j" for a i j g :: nat
  by (auto elim!: dvdE)

lemma orbits_disjoint:
  assumes "in_orbit a b (a + i) p" "in_orbit a b (a + j) p" "i < gcd b (a + b)" "j < gcd b (a + b)"
  shows "i = j"
proof -
  let ?g = "gcd b (a + b)"
  from assms(1,2) obtain t v where "p = orbit a b (a + i) t" "p = orbit a b (a + j) v" unfolding in_orbit_def by blast
  then have "orbit a b (a + i) t mod ?g = orbit a b (a + j) v mod ?g" by simp
  then have "(a + i) mod ?g = (a + j) mod ?g" by (simp only: orbit_residue)
  moreover have "?g dvd a" using dvd_add_left_iff [of ?g b a] gcd_dvd1 [of b "a + b"] gcd_dvd2 [of b "a + b"] by blast
  ultimately show ?thesis using residue_unique assms(3,4) by blast
qed

lemma orbits_cover:
  assumes "0 < b" "p < a + b"
  shows "\<exists>i < gcd b (a + b). in_orbit a b (a + i) p"
proof -
  let ?g = "gcd b (a + b)" and ?L = "period a b"
  let ?f = "\<lambda>(i, t). orbit a b (a + i) t"
  have "inj_on ?f ({..<?g} \<times> {..<?L})"
  proof (rule inj_onI, clarsimp)
    fix i t j v
    assume h: "i < ?g" "t < ?L" "j < ?g" "v < ?L" "orbit a b (a + i) t = orbit a b (a + j) v"
    then have "i = j" by (intro orbits_disjoint [of a b i "orbit a b (a + i) t" j]) (auto simp: in_orbit_def)
    then show "i = j \<and> t = v" using orbit_inj [OF assms(1) h(2,4)] h(5) by simp
  qed
  then have "card (?f ` ({..<?g} \<times> {..<?L})) = ?g * ?L" by (simp add: card_image)
  also have "\<dots> = a + b" by (simp add: period_def)
  finally have "?f ` ({..<?g} \<times> {..<?L}) = {..<a + b}"
    using orbit_less [OF assms(1)] by (intro card_subset_eq) auto
  then show ?thesis using assms(2) by (auto simp: in_orbit_def image_iff set_eq_iff) (metis lessThan_iff)
qed

lemma cycles_effect:
  assumes b: "0 < b" and len: "s + (a + b) \<le> length xs"
  shows "i + m = gcd b (a + b) \<Longrightarrow> length ys = length xs \<Longrightarrow>
    (\<And>p. (\<exists>j < i. in_orbit a b (a + j) p) \<Longrightarrow> ys ! (s + p) = xs ! (s + rotated a b p)) \<Longrightarrow>
    (\<And>p. (\<And>j q. j < i \<Longrightarrow> in_orbit a b (a + j) q \<Longrightarrow> p \<noteq> s + q) \<Longrightarrow> ys ! p = xs ! p) \<Longrightarrow>
    let zs = cycles (s + a) a b (period a b) i m ys in
      length zs = length xs \<and> (\<forall>p < a + b. zs ! (s + p) = xs ! (s + rotated a b p)) \<and>
      (\<forall>p. p < s \<or> s + (a + b) \<le> p \<longrightarrow> zs ! p = xs ! p)"
proof (induction m arbitrary: i ys)
  case 0
  have "ys ! (s + p) = xs ! (s + rotated a b p)" if "p < a + b" for p
    using orbits_cover [OF b that] 0 by simp
  moreover have "ys ! p = xs ! p" if "p < s \<or> s + (a + b) \<le> p" for p
    using that by (intro 0(4)) (auto simp: in_orbit_def not_less [symmetric] orbit_less [OF b])
  ultimately show ?case using 0(2) by simp
next
  case (Suc m)
  let ?c = "a + i"
  let ?zs = "cycle (s + a) a b (s + ?c) (period a b) (s + ?c) ys"
  have i: "i < gcd b (a + b)" using Suc.prems(1) by simp
  moreover have "gcd b (a + b) \<le> b" using b by (intro dvd_imp_le) simp_all
  ultimately have c: "?c < a + b" by linarith
  have len': "s + (a + b) \<le> length ys" using len Suc.prems(2) by simp
  note ce = cycle_effect [OF b c len']
  have same: "ys ! (s + p) = xs ! (s + p)" if "in_orbit a b ?c p" for p
  proof (rule Suc.prems(4))
    fix j q
    assume "j < i" "in_orbit a b (a + j) q"
    then show "s + p \<noteq> s + q" using that orbits_disjoint [of a b j p i] i by auto
  qed
  have rot: "in_orbit a b ?c (rotated a b p)" if "in_orbit a b ?c p" for p
  proof -
    from that obtain t where t: "t < period a b" "p = orbit a b ?c t" by (auto simp: in_orbit_def)
    show ?thesis
    proof (cases t)
      case 0
      then have "rotated a b p = orbit a b ?c (period a b - 1)"
        using t rotated_orbit [of a b ?c "period a b - 1"] orbit_period [of a b ?c] period_pos [OF b, of a] by simp
      then show ?thesis using period_pos [OF b, of a] unfolding in_orbit_def by (intro exI [of _ "period a b - 1"]) simp
    next
      case (Suc v)
      then show ?thesis using t rotated_orbit [of a b ?c v] unfolding in_orbit_def by (intro exI [of _ v]) simp
    qed
  qed
  have moved: "?zs ! (s + p) = xs ! (s + rotated a b p)" if "\<exists>j < Suc i. in_orbit a b (a + j) p" for p
  proof (cases "in_orbit a b ?c p")
    case True
    then show ?thesis using ce(2) [OF True] same [OF rot [OF True]] by simp
  next
    case False
    with that obtain j where j: "j < i" "in_orbit a b (a + j) p" by (metis less_Suc_eq)
    have "?zs ! (s + p) = ys ! (s + p)" using False by (intro ce(3)) auto
    then show ?thesis using Suc.prems(3) j by auto
  qed
  have rest: "?zs ! p = xs ! p" if p: "\<And>j q. j < Suc i \<Longrightarrow> in_orbit a b (a + j) q \<Longrightarrow> p \<noteq> s + q" for p
  proof -
    have "?zs ! p = ys ! p" using p by (intro ce(3)) auto
    also have "\<dots> = xs ! p" by (rule Suc.prems(4)) (rule p, simp_all)
    finally show ?thesis .
  qed
  show ?case
    using Suc.IH [of "Suc i" ?zs] Suc.prems(1,2) ce(1) moved rest by (simp add: Let_def add.assoc)
qed

text \<open>
  The two adjacent blocks are exchanged, each in its order: the cycles, as many as the greatest common divisor of the lengths,
  move every argument to its place and touch no other.
\<close>

lemma permute_args_blocks:
  assumes "panonopt_start < panonopt_end" "panonopt_end < opt_end" "opt_end \<le> length nargv"
  shows "permute_args panonopt_start panonopt_end opt_end nargv =
    take panonopt_start nargv @ slice panonopt_end (opt_end - panonopt_end) nargv @
    slice panonopt_start (panonopt_end - panonopt_start) nargv @ drop opt_end nargv"
proof -
  let ?s = panonopt_start
  define a b where "a = panonopt_end - ?s" and "b = opt_end - panonopt_end"
  have ab: "0 < a" "0 < b" "panonopt_end = ?s + a" "opt_end = ?s + (a + b)" "opt_end - ?s = a + b"
    using assms by (simp_all add: a_def b_def)
  have "gcd a b = gcd b (a + b)" by (metis add.commute gcd.commute gcd_add2)
  then have p: "permute_args ?s panonopt_end opt_end nargv = cycles (?s + a) a b (period a b) 0 (gcd b (a + b)) nargv"
    unfolding permute_args_def Let_def a_def [symmetric] b_def [symmetric] ab(5) by (simp add: c_gcd [OF ab(2)] period_def ab(3))
  define zs where "zs = permute_args ?s panonopt_end opt_end nargv"
  have len: "?s + (a + b) \<le> length nargv" using assms(3) ab(4) by simp
  from cycles_effect [OF ab(2) len, of 0 "gcd b (a + b)" nargv]
  have z: "length zs = length nargv" "\<And>q. q < a + b \<Longrightarrow> zs ! (?s + q) = nargv ! (?s + rotated a b q)"
    "\<And>q. q < ?s \<or> ?s + (a + b) \<le> q \<Longrightarrow> zs ! q = nargv ! q"
    by (auto simp: zs_def p Let_def)
  let ?r = "take ?s nargv @ slice panonopt_end b nargv @ slice ?s a nargv @ drop opt_end nargv"
  have sl: "length (slice panonopt_end b nargv) = b" "length (slice ?s a nargv) = a"
    using len by (simp_all add: slice_length ab(3))
  have "zs = ?r"
  proof (rule nth_equalityI)
    show "length zs = length ?r" using len by (simp add: z(1) sl ab(4))
    fix q
    assume q: "q < length zs"
    consider "q < ?s" | r where "q = ?s + r" "r < b" | r where "q = ?s + (b + r)" "r < a" | r where "q = ?s + (a + b) + r"
    proof -
      assume c: "q < ?s \<Longrightarrow> thesis" "\<And>r. q = ?s + r \<Longrightarrow> r < b \<Longrightarrow> thesis" "\<And>r. q = ?s + (b + r) \<Longrightarrow> r < a \<Longrightarrow> thesis"
        "\<And>r. q = ?s + (a + b) + r \<Longrightarrow> thesis"
      from c(1) c(2) [of "q - ?s"] c(3) [of "q - ?s - b"] c(4) [of "q - ?s - (a + b)"] show thesis by fastforce
    qed
    then show "zs ! q = ?r ! q"
    proof cases
      case 1
      then show ?thesis using z(3) [of q] len by (simp add: nth_append)
    next
      case 2
      then have "rotated a b r = a + r" by (simp add: rotated_def)
      then show ?thesis using 2 z(2) [of r] len sl by (simp add: nth_append slice_def ab(3) add.assoc)
    next
      case 3
      have "b + r + a = r + (a + b)" by simp
      then have "rotated a b (b + r) = r" using 3(2) unfolding rotated_def by (simp only: mod_add_self2) simp
      then show ?thesis using 3 z(2) [of "b + r"] len sl by (simp add: nth_append slice_def)
    next
      case 4
      then show ?thesis using z(3) [of q] len sl q z(1) by (simp add: nth_append ab(4))
    qed
  qed
  then show ?thesis by (simp add: zs_def a_def b_def)
qed

end
