(* ===== verification/Getopt.thy ===== *)
theory Getopt
  imports Permute
begin

text \<open>
  The embedded \<open>getopt_long\<close> of argtable3 (deps/argtable/argtable3.c, lines 1361 to 1828). Strings have no NUL inside. The
  scanning pointer is the text that is left to scan, with a flag for the case that it is at the start of the current
  argument; the two bounds for the permutation are none instead of -1. Diagnostics on the standard error are not modelled. A
  character is an \<open>int\<close> with its sign.
\<close>

record long_option =
  opt_name :: string
  opt_has_arg :: nat
  opt_flag :: bool
  opt_val :: int

record getopt =
  nargv :: "string list"
  optind :: nat
  optopt :: int
  optreset :: bool
  optarg :: "string option"
  place :: string
  place_at_arg :: bool
  nonopt_start :: "nat option"
  nonopt_end :: "nat option"
  flag_value :: int

text \<open>The static variables of getopt when the process starts.\<close>

definition initial_getopt :: getopt where
  "initial_getopt =
     \<lparr>nargv = [], optind = 1, optopt = 63, optreset = False, optarg = None, place = [], place_at_arg = False, nonopt_start = None,
      nonopt_end = None, flag_value = 0\<rparr>"

definition letter_at :: "string \<Rightarrow> nat \<Rightarrow> char" where
  "letter_at s i = (if i < length s then s ! i else CHR 0x00)"

definition first_char :: "string \<Rightarrow> char" where
  "first_char s = letter_at s 0"

definition BADCH :: int where
  "BADCH = signed_char (CHR ''?'')"

definition BADARG :: "string \<Rightarrow> int" where
  "BADARG options = signed_char (if first_char options = CHR '':'' then CHR '':'' else CHR ''?'')"

definition INORDER :: int where
  "INORDER = 1"

section \<open>Long options\<close>

text \<open>The first exact match, else the only partial match; none inside for no match, and an error for an ambiguous prefix.\<close>

fun match_long :: "string \<Rightarrow> bool \<Rightarrow> long_option list \<Rightarrow> nat \<Rightarrow> nat option \<Rightarrow> nat option option" where
  "match_long current short_too [] i found = Some found"
| "match_long current short_too (l # ls) i found =
     (if take (length current) (opt_name l) \<noteq> current then match_long current short_too ls (Suc i) found
      else if length (opt_name l) = length current then Some (Some i)
      else if short_too \<and> length current = 1 then match_long current short_too ls (Suc i) found
      else if found = None then match_long current short_too ls (Suc i) (Some i)
      else None)"

definition arg_at :: "getopt \<Rightarrow> nat \<Rightarrow> string option" where
  "arg_at st i = (if i < length (nargv st) then Some (nargv st ! i) else None)"

definition parse_long_options :: "string \<Rightarrow> long_option list \<Rightarrow> bool \<Rightarrow> getopt \<Rightarrow> int \<times> getopt" where
  "parse_long_options options long_options short_too st =
     (let current_argv = takeWhile (\<lambda>c. c \<noteq> CHR ''='') (place st);
          has_equal = (if length current_argv < length (place st) then Some (drop (Suc (length current_argv)) (place st)) else None);
          st = st\<lparr>optind := optind st + 1\<rparr>
      in case match_long current_argv short_too long_options 0 None of
           None \<Rightarrow> (BADCH, st\<lparr>optopt := 0\<rparr>)
         | Some None \<Rightarrow>
             if short_too then (- 1, st\<lparr>optind := optind st - 1\<rparr>) else (BADCH, st\<lparr>optopt := 0\<rparr>)
         | Some (Some i) \<Rightarrow>
             let l = long_options ! i;
                 reported = (if opt_flag l then 0 else opt_val l)
             in if opt_has_arg l = 0 \<and> has_equal \<noteq> None then (BADARG options, st\<lparr>optopt := reported\<rparr>)
                else let st = (if opt_has_arg l = 1 \<or> opt_has_arg l = 2
                               then if has_equal \<noteq> None then st\<lparr>optarg := has_equal\<rparr>
                                    else if opt_has_arg l = 1 then st\<lparr>optarg := arg_at st (optind st), optind := optind st + 1\<rparr>
                                    else st
                               else st)
                     in if opt_has_arg l = 1 \<and> optarg st = None
                        then (BADARG options, st\<lparr>optopt := reported, optind := optind st - 1\<rparr>)
                        else if opt_flag l then (0, st\<lparr>flag_value := opt_val l\<rparr>)
                        else (opt_val l, st))"

section \<open>The next option\<close>

definition is_nonoption :: "string \<Rightarrow> string \<Rightarrow> bool" where
  "is_nonoption options arg =
     (case arg of
        [] \<Rightarrow> True
      | c # cs \<Rightarrow> c \<noteq> CHR ''-'' \<or> (cs = [] \<and> CHR ''-'' \<notin> set options))"

definition end_permutation :: "getopt \<Rightarrow> getopt" where
  "end_permutation st =
     (case (nonopt_start st, nonopt_end st) of
        (Some s, Some e) \<Rightarrow> st\<lparr>nargv := permute_args s e (optind st) (nargv st), optind := optind st - (e - s)\<rparr>
      | _ \<Rightarrow> st)"

definition no_nonopts :: "getopt \<Rightarrow> getopt" where
  "no_nonopts st = st\<lparr>nonopt_start := None, nonopt_end := None\<rparr>"

definition skip_nonoption :: "getopt \<Rightarrow> getopt" where
  "skip_nonoption st =
     (let st = (case nonopt_start st of
                  None \<Rightarrow> st\<lparr>nonopt_start := Some (optind st)\<rparr>
                | Some s \<Rightarrow>
                    (case nonopt_end st of
                       None \<Rightarrow> st
                     | Some e \<Rightarrow>
                         st\<lparr>nargv := permute_args s e (optind st) (nargv st), nonopt_start := Some (optind st - (e - s)), nonopt_end := None\<rparr>))
      in st\<lparr>optind := optind st + 1\<rparr>)"

text \<open>
  From the label \<open>start\<close> up to the point where an option is to be processed: the value returned before that, if any, and
  the state. \<open>permute\<close> and \<open>allargs\<close> are the flags.
\<close>

function scan_argument :: "bool \<Rightarrow> bool \<Rightarrow> string \<Rightarrow> getopt \<Rightarrow> int option \<times> getopt" where
  "scan_argument permute allargs options st =
     (if optreset st \<or> place st = []
      then let st = st\<lparr>optreset := False\<rparr>
           in if optind st \<ge> length (nargv st)
              then let st = st\<lparr>place := [], place_at_arg := False\<rparr>;
                       st = (if nonopt_end st \<noteq> None then end_permutation st
                             else case nonopt_start st of None \<Rightarrow> st | Some s \<Rightarrow> st\<lparr>optind := s\<rparr>)
                   in (Some (- 1), no_nonopts st)
              else let arg = nargv st ! optind st
                   in if is_nonoption options arg
                      then let st = st\<lparr>place := [], place_at_arg := False\<rparr>
                           in if allargs then (Some INORDER, st\<lparr>optarg := Some arg, optind := optind st + 1\<rparr>)
                              else if \<not> permute then (Some (- 1), st)
                              else scan_argument permute allargs options (skip_nonoption st)
                      else let st = (if nonopt_start st \<noteq> None \<and> nonopt_end st = None then st\<lparr>nonopt_end := Some (optind st)\<rparr> else st)
                           in if arg = ''--''
                              then let st = end_permutation (st\<lparr>optind := optind st + 1, place := [], place_at_arg := False\<rparr>)
                                   in (Some (- 1), no_nonopts st)
                              else if tl arg \<noteq> [] then (None, st\<lparr>place := tl arg, place_at_arg := False\<rparr>)
                              else (None, st\<lparr>place := arg, place_at_arg := True\<rparr>)
      else (None, st))"
  by pat_completeness auto

lemma length_cycle [simp]: "length (cycle e a b c m p xs) = length xs"
  by (induction e a b c m p xs rule: cycle.induct) (simp_all add: Let_def)

lemma length_cycles [simp]: "length (cycles e a b l i m xs) = length xs"
  by (induction e a b l i m xs rule: cycles.induct) (simp_all add: Let_def)

lemma length_permute_args [simp]: "length (permute_args s e u xs) = length xs"
  by (simp add: permute_args_def Let_def)

lemma skip_nonoption_progress [simp]:
  "optind (skip_nonoption st) = Suc (optind st)" "length (nargv (skip_nonoption st)) = length (nargv st)"
  by (simp_all add: skip_nonoption_def Let_def split: option.split)

termination scan_argument
  by (relation "measure (\<lambda>(_, _, _, st). length (nargv st) - optind st)") (auto simp: Let_def)

declare scan_argument.simps [simp del]

text \<open>The letter list from the first occurrence of a letter on, as \<open>strchr\<close> gives it.\<close>

fun strchr :: "string \<Rightarrow> char \<Rightarrow> string option" where
  "strchr [] c = None"
| "strchr (x # xs) c = (if x = c then Some (x # xs) else strchr xs c)"

text \<open>The letter was not found or is not allowed: the pointer is behind it.\<close>

definition unknown_letter :: "int \<Rightarrow> getopt \<Rightarrow> int \<times> getopt" where
  "unknown_letter optchar st =
     (BADCH, (if place st = [] then st\<lparr>optind := optind st + 1\<rparr> else st)\<lparr>optopt := optchar\<rparr>)"

text \<open>A long option after the letter \<open>W\<close>.\<close>

definition option_W :: "string \<Rightarrow> long_option list \<Rightarrow> int \<Rightarrow> getopt \<Rightarrow> int \<times> getopt" where
  "option_W options long_options optchar st =
     (let parse = (\<lambda>st. case parse_long_options options long_options False st of (r, st) \<Rightarrow> (r, st\<lparr>place := []\<rparr>))
      in if place st \<noteq> [] then parse st
         else let st = st\<lparr>optind := optind st + 1\<rparr>
              in if optind st \<ge> length (nargv st) then (BADARG options, st\<lparr>place := [], optopt := optchar\<rparr>)
                 else parse (st\<lparr>place := nargv st ! optind st\<rparr>))"

text \<open>A known letter, with the argument it takes, if any: the rest of the word or the next word.\<close>

definition known_letter :: "string \<Rightarrow> string \<Rightarrow> int \<Rightarrow> getopt \<Rightarrow> int \<times> getopt" where
  "known_letter options oli optchar st =
     (if letter_at oli 1 \<noteq> CHR '':''
      then (optchar, if place st = [] then st\<lparr>optind := optind st + 1\<rparr> else st)
      else if place st \<noteq> [] then (optchar, st\<lparr>optarg := Some (place st), place := [], optind := optind st + 1\<rparr>)
      else if letter_at oli 2 \<noteq> CHR '':''
      then let st = st\<lparr>optarg := None, optind := optind st + 1\<rparr>
           in if optind st \<ge> length (nargv st) then (BADARG options, st\<lparr>place := [], optopt := optchar\<rparr>)
              else (optchar, st\<lparr>optarg := Some (nargv st ! optind st), place := [], optind := optind st + 1\<rparr>)
      else (optchar, st\<lparr>optarg := None, place := [], optind := optind st + 1\<rparr>))"

text \<open>The short option at the scanning pointer.\<close>

definition short_option :: "string \<Rightarrow> long_option list option \<Rightarrow> getopt \<Rightarrow> int \<times> getopt" where
  "short_option options long_options st =
     (let c = hd (place st);
          optchar = signed_char c;
          st = st\<lparr>place := tl (place st), place_at_arg := False\<rparr>
      in case strchr options c of
           None \<Rightarrow> if c = CHR ''-'' \<and> place st = [] then (- 1, st) else unknown_letter optchar st
         | Some oli \<Rightarrow>
             if c = CHR '':'' \<or> (c = CHR ''-'' \<and> place st \<noteq> []) then unknown_letter optchar st
             else if long_options \<noteq> None \<and> c = CHR ''W'' \<and> letter_at oli 1 = CHR '';'' then option_W options (the long_options) optchar st
             else known_letter options oli optchar st)"

definition process_option :: "bool \<Rightarrow> string \<Rightarrow> long_option list option \<Rightarrow> getopt \<Rightarrow> int \<times> getopt" where
  "process_option longonly options long_options st =
     (case long_options of
        Some ls \<Rightarrow>
          if \<not> place_at_arg st \<and> (first_char (place st) = CHR ''-'' \<or> longonly)
          then let short_too = (first_char (place st) \<noteq> CHR ''-'' \<and> first_char (place st) \<noteq> CHR '':'' \<and>
                                strchr options (first_char (place st)) \<noteq> None);
                   st = (if first_char (place st) = CHR ''-'' then st\<lparr>place := tl (place st)\<rparr> else st)
               in case parse_long_options options ls short_too st of
                    (optchar, st) \<Rightarrow> if optchar \<noteq> - 1 then (optchar, st\<lparr>place := []\<rparr>) else short_option options long_options st
          else short_option options long_options st
      | None \<Rightarrow> short_option options long_options st)"

definition getopt_internal ::
  "bool \<Rightarrow> string \<Rightarrow> long_option list option \<Rightarrow> bool \<Rightarrow> bool \<Rightarrow> getopt \<Rightarrow> int \<times> getopt" where
  "getopt_internal posixly_correct options long_options permute longonly st =
     (let permute = (permute \<and> \<not> (posixly_correct \<or> first_char options = CHR ''+''));
          allargs = (\<not> (posixly_correct \<or> first_char options = CHR ''+'') \<and> first_char options = CHR ''-'');
          options = (if first_char options = CHR ''+'' \<or> first_char options = CHR ''-'' then tl options else options);
          st = (if optind st = 0 then st\<lparr>optind := 1, optreset := True\<rparr> else st);
          st = st\<lparr>optarg := None\<rparr>;
          st = (if optreset st then no_nonopts st else st)
      in case scan_argument permute allargs options st of
           (Some r, st) \<Rightarrow> (r, st)
         | (None, st) \<Rightarrow> process_option longonly options long_options st)"

definition getopt_short :: "bool \<Rightarrow> string \<Rightarrow> getopt \<Rightarrow> int \<times> getopt" where
  "getopt_short posixly_correct options st = getopt_internal posixly_correct options None False False st"

definition getopt_long :: "bool \<Rightarrow> string \<Rightarrow> long_option list \<Rightarrow> getopt \<Rightarrow> int \<times> getopt" where
  "getopt_long posixly_correct options long_options st = getopt_internal posixly_correct options (Some long_options) True False st"

definition getopt_long_only :: "bool \<Rightarrow> string \<Rightarrow> long_option list \<Rightarrow> getopt \<Rightarrow> int \<times> getopt" where
  "getopt_long_only posixly_correct options long_options st = getopt_internal posixly_correct options (Some long_options) True True st"

section \<open>The loop over the options\<close>

text \<open>
  The loop of \<open>arg_parse_tagged\<close>: every code but -1 is handed to the switch, with the state it reads. Whether it ends
  is not clear from its text, so it is a partial function.
\<close>

partial_function (option) getopt_loop ::
  "bool \<Rightarrow> (int \<Rightarrow> getopt \<Rightarrow> 's \<Rightarrow> 's) \<Rightarrow> string \<Rightarrow> long_option list \<Rightarrow> getopt \<Rightarrow> 's \<Rightarrow> (getopt \<times> 's) option" where
  "getopt_loop posixly_correct handle options ls st s =
     (case getopt_long posixly_correct options ls st of
        (copt, st) \<Rightarrow> if copt = - 1 then Some (st, s) else getopt_loop posixly_correct handle options ls st (handle copt st s))"

end
