(* ===== verification/GetoptProofs.thy ===== *)
theory GetoptProofs
  imports Getopt
begin

text \<open>
  Facts about the embedded \<open>getopt_long\<close>: every call moves on through the words, the loop over its calls ends, and at its
  end the options stand in front of the other words, both in their order.
\<close>

section \<open>Progress\<close>

text \<open>What processing an option does to the argument vector: nothing but to move the index, within the vector.\<close>

definition moves :: "getopt \<Rightarrow> getopt \<Rightarrow> bool" where
  "moves st st' =
     (nargv st' = nargv st \<and> nonopt_start st' = nonopt_start st \<and> nonopt_end st' = nonopt_end st \<and> optreset st' = optreset st \<and>
      optind st \<le> optind st' \<and> optind st' \<le> length (nargv st))"

text \<open>An option is passed, or a letter of the current word.\<close>

definition advances :: "getopt \<Rightarrow> getopt \<Rightarrow> bool" where
  "advances st st' =
     ((optind st < optind st' \<and> place st' = []) \<or> (optind st' = optind st \<and> place st' \<noteq> [] \<and> length (place st') < length (place st)))"

lemma moves_place [simp]: "moves st (st'\<lparr>place := p\<rparr>) = moves st st'" "moves st (st'\<lparr>optopt := c\<rparr>) = moves st st'"
  "moves (st\<lparr>place := p\<rparr>) st' = moves st st'"
  by (simp_all add: moves_def)

lemma match_long_index:
  "match_long current short_too ls i found = Some (Some n) \<Longrightarrow> found = Some n \<or> (i \<le> n \<and> n < i + length ls)"
  by (induction ls arbitrary: i found) (fastforce split: if_splits)+

lemma return_codes [simp]: "BADCH = 63" "BADARG options = (if first_char options = CHR '':'' then 58 else 63)"
  by (simp_all add: BADCH_def BADARG_def signed_char_def)

lemma parse_long_moves:
  assumes i: "optind st < length (nargv st)" and ls: "list_all opt_flag ls"
    and r: "parse_long_options options ls False st = (r, st')"
  shows "moves st st' \<and> r \<noteq> - 1 \<and> optind st < optind st'"
proof -
  define current where "current = takeWhile (\<lambda>c. c \<noteq> CHR ''='') (place st)"
  show ?thesis
  proof (cases "match_long current False ls 0 None")
    case None
    then show ?thesis using r i by (auto simp: parse_long_options_def Let_def current_def [symmetric] moves_def)
  next
    case (Some f)
    show ?thesis
    proof (cases f)
      case None
      then show ?thesis using Some r i
        by (auto simp: parse_long_options_def Let_def current_def [symmetric] moves_def)
    next
      fix n
      assume n: "f = Some n"
      then have "opt_flag (ls ! n)" using match_long_index [of current False ls 0 None n] Some ls by (simp add: list_all_length)
      then show ?thesis using n Some r i
        by (auto simp: parse_long_options_def Let_def current_def [symmetric] moves_def arg_at_def split: if_splits)
    qed
  qed
qed

lemma strchr_first: "strchr options c = Some oli \<Longrightarrow> c \<in> set options"
  by (induction options) (auto split: if_splits)

lemma signed_char_eq_minus_one: "signed_char c = - 1 \<longleftrightarrow> c = CHR 0xFF"
proof
  assume "signed_char c = - 1"
  then have "(of_char c :: nat) = 255" by (auto simp: signed_char_def Let_def split: if_splits)
  then have "c = char_of (255 :: nat)" by (metis char_of_char)
  then show "c = CHR 0xFF" by (simp add: char_of_def bit_0)
qed (simp add: signed_char_def)

lemma unknown_letter_moves:
  "optind st < length (nargv st) \<Longrightarrow> unknown_letter optchar st = (r, st') \<Longrightarrow>
   moves st st' \<and> r \<noteq> - 1 \<and> ((optind st < optind st' \<and> place st' = []) \<or> (optind st' = optind st \<and> place st' = place st \<and> place st \<noteq> []))"
  by (cases "place st = []") (auto simp: unknown_letter_def moves_def)

lemma option_W_moves:
  assumes i: "optind st < length (nargv st)" and ls: "list_all opt_flag ls" and r: "option_W options ls optchar st = (r, st')"
  shows "moves st st' \<and> r \<noteq> - 1 \<and> optind st < optind st' \<and> place st' = []"
proof -
  obtain r1 s1 where p1: "parse_long_options options ls False st = (r1, s1)" by fastforce
  let ?st = "st\<lparr>optind := Suc (optind st), place := nargv st ! Suc (optind st)\<rparr>"
  obtain r2 s2 where p2: "parse_long_options options ls False ?st = (r2, s2)" by fastforce
  have "Suc (optind st) < length (nargv st) \<Longrightarrow> moves ?st s2 \<and> r2 \<noteq> - 1 \<and> optind ?st < optind s2"
    using parse_long_moves [OF _ ls p2] by simp
  then show ?thesis using r parse_long_moves [OF i ls p1] i
    by (cases "place st = []"; cases "Suc (optind st) < length (nargv st)") (auto simp: option_W_def Let_def p1 p2 moves_def split: if_splits)
qed

lemma known_letter_moves:
  "optind st < length (nargv st) \<Longrightarrow> known_letter options oli optchar st = (r, st') \<Longrightarrow> optchar \<noteq> - 1 \<Longrightarrow>
   moves st st' \<and> r \<noteq> - 1 \<and> ((optind st < optind st' \<and> place st' = []) \<or> (optind st' = optind st \<and> place st' = place st \<and> place st \<noteq> []))"
  by (auto simp: known_letter_def Let_def moves_def split: if_splits)

lemma short_option_moves:
  assumes i: "optind st < length (nargv st)" and p: "place st \<noteq> []" and ls: "list_all opt_flag ls"
    and c: "place_at_arg st \<Longrightarrow> strchr options (hd (place st)) \<noteq> None" "\<not> place_at_arg st \<Longrightarrow> hd (place st) \<noteq> CHR ''-''"
    and ff: "CHR 0xFF \<notin> set options"
    and r: "short_option options (Some ls) st = (r, st')"
  shows "moves st st' \<and> advances st st' \<and> r \<noteq> - 1"
proof -
  let ?c = "hd (place st)"
  define s1 where "s1 = st\<lparr>place := tl (place st), place_at_arg := False\<rparr>"
  have s1: "optind s1 = optind st" "nargv s1 = nargv st" "place s1 = tl (place st)" "moves s1 = moves st"
    by (auto simp: s1_def moves_def fun_eq_iff)
  have i1: "optind s1 < length (nargv s1)" using i by (simp add: s1)
  have n: "advances st st'" if "(optind s1 < optind st' \<and> place st' = []) \<or> (optind st' = optind s1 \<and> place st' = place s1 \<and> place s1 \<noteq> [])"
    using that p by (auto simp: advances_def s1)
  have so: "short_option options (Some ls) st =
     (case strchr options ?c of
        None \<Rightarrow> if ?c = CHR ''-'' \<and> place s1 = [] then (- 1, s1) else unknown_letter (signed_char ?c) s1
      | Some oli \<Rightarrow>
          if ?c = CHR '':'' \<or> (?c = CHR ''-'' \<and> place s1 \<noteq> []) then unknown_letter (signed_char ?c) s1
          else if ?c = CHR ''W'' \<and> letter_at oli 1 = CHR '';'' then option_W options ls (signed_char ?c) s1
          else known_letter options oli (signed_char ?c) s1)"
    unfolding short_option_def Let_def s1_def [symmetric] by (simp split: option.split)
  have u: "unknown_letter (signed_char ?c) s1 = (r, st') \<Longrightarrow> ?thesis"
    using unknown_letter_moves [OF i1] n s1(4) by metis
  show ?thesis
  proof (cases "strchr options ?c")
    case None
    then have "?c \<noteq> CHR ''-''" using c by blast
    then show ?thesis using u None r so by simp
  next
    case (Some oli)
    have ch: "signed_char ?c \<noteq> - 1" using strchr_first [OF Some] ff signed_char_eq_minus_one by metis
    have "known_letter options oli (signed_char ?c) s1 = (r, st') \<Longrightarrow> ?thesis"
      using known_letter_moves [OF i1 _ ch] n s1(4) by metis
    moreover have "option_W options ls (signed_char ?c) s1 = (r, st') \<Longrightarrow> ?thesis"
      using option_W_moves [OF i1 ls] n s1(4) by metis
    ultimately show ?thesis using u Some r so by (simp split: if_splits)
  qed
qed

lemma process_option_moves:
  assumes i: "optind st < length (nargv st)" and p: "place st \<noteq> []" and ls: "list_all opt_flag ls"
    and c: "place_at_arg st \<Longrightarrow> strchr options (hd (place st)) \<noteq> None"
    and ff: "CHR 0xFF \<notin> set options"
    and r: "process_option False options (Some ls) st = (r, st')"
  shows "moves st st' \<and> advances st st' \<and> r \<noteq> - 1"
proof -
  have fc: "first_char (place st) = hd (place st)" using p by (cases "place st") (simp_all add: first_char_def letter_at_def)
  show ?thesis
  proof (cases "\<not> place_at_arg st \<and> hd (place st) = CHR ''-''")
    case True
    obtain r1 s1 where p1: "parse_long_options options ls False (st\<lparr>place := tl (place st)\<rparr>) = (r1, s1)" by fastforce
    from parse_long_moves [OF _ ls p1] i have "moves st s1" "r1 \<noteq> - 1" "optind st < optind s1" by simp_all
    moreover have "(r, st') = (r1, s1\<lparr>place := []\<rparr>)" using r True fc p1 calculation(2) by (simp add: process_option_def Let_def)
    ultimately show ?thesis by (simp add: advances_def)
  next
    case False
    then have "short_option options (Some ls) st = (r, st')" using r fc by (auto simp: process_option_def split: if_splits)
    then show ?thesis using short_option_moves [OF i p ls c _ ff] False by blast
  qed
qed

section \<open>The stable partition\<close>

text \<open>\<open>ws\<close> is made of \<open>os\<close> and \<open>ns\<close>, each in its order.\<close>

inductive interleaved :: "'a list \<Rightarrow> 'a list \<Rightarrow> 'a list \<Rightarrow> bool" where
  none: "interleaved [] [] []"
| left: "interleaved os ns ws \<Longrightarrow> interleaved (os @ [w]) ns (ws @ [w])"
| right: "interleaved os ns ws \<Longrightarrow> interleaved os (ns @ [w]) (ws @ [w])"

lemma interleaved_left: "interleaved os ns ws \<Longrightarrow> interleaved (os @ xs) ns (ws @ xs)"
proof (induction xs rule: rev_induct)
  case (snoc x xs)
  then show ?case using interleaved.left [of "os @ xs" ns "ws @ xs" x] by simp
qed simp

text \<open>The words passed as options (with their arguments) and the words skipped.\<close>

definition passed :: "getopt \<Rightarrow> string list" where
  "passed st =
     (case (nonopt_start st, nonopt_end st) of
        (Some s, Some e) \<Rightarrow> take s (nargv st) @ slice e (optind st - e) (nargv st)
      | (Some s, None) \<Rightarrow> take s (nargv st)
      | (None, _) \<Rightarrow> take (optind st) (nargv st))"

definition skipped :: "getopt \<Rightarrow> string list" where
  "skipped st =
     (case (nonopt_start st, nonopt_end st) of
        (Some s, Some e) \<Rightarrow> slice s (e - s) (nargv st)
      | (Some s, None) \<Rightarrow> slice s (optind st - s) (nargv st)
      | (None, _) \<Rightarrow> [])"

definition bounds_ok :: "getopt \<Rightarrow> bool" where
  "bounds_ok st =
     (case (nonopt_start st, nonopt_end st) of
        (Some s, Some e) \<Rightarrow> s < e \<and> e \<le> optind st \<and> (place st = [] \<longrightarrow> e < optind st)
      | (Some s, None) \<Rightarrow> s < optind st \<and> place st = []
      | (None, None) \<Rightarrow> True
      | (None, Some e) \<Rightarrow> False)"

definition split_ok :: "string \<Rightarrow> string list \<Rightarrow> getopt \<Rightarrow> bool" where
  "split_ok options argv st =
     (length (nargv st) = length argv \<and> optind st \<le> length argv \<and> drop (optind st) (nargv st) = drop (optind st) argv \<and>
      (place st \<noteq> [] \<longrightarrow> optind st < length argv) \<and> \<not> optreset st \<and> bounds_ok st \<and>
      interleaved (passed st) (skipped st) (take (optind st) argv) \<and> list_all (is_nonoption options) (skipped st))"

lemma take_extend: "k \<le> k' \<Longrightarrow> take k' xs = take k xs @ slice k (k' - k) xs"
  by (simp add: slice_def take_add [symmetric])

lemma moves_passed:
  assumes sp: "split_ok options argv st" and m: "moves st st'" and a: "advances st st'" and p: "place st \<noteq> []"
  shows "bounds_ok st'" "passed st' = passed st @ slice (optind st) (optind st' - optind st) (nargv st)" "skipped st' = skipped st"
proof -
  let ?k = "optind st" and ?k' = "optind st'"
  have k: "?k \<le> ?k'" and nv: "nargv st' = nargv st" and ne: "nonopt_start st' = nonopt_start st" "nonopt_end st' = nonopt_end st"
    using m by (simp_all add: moves_def)
  have sl: "slice e (?k' - e) (nargv st) = slice e (?k - e) (nargv st) @ slice ?k (?k' - ?k) (nargv st)" if "e \<le> ?k" for e
    using take_extend [of "?k - e" "?k' - e" "drop e (nargv st)"] that k by (simp add: slice_def)
  have b: "bounds_ok st" using sp by (simp add: split_ok_def)
  have "bounds_ok st' \<and> passed st' = passed st @ slice ?k (?k' - ?k) (nargv st) \<and> skipped st' = skipped st"
  proof (cases "nonopt_start st")
    case None
    then show ?thesis using b p take_extend [OF k, of "nargv st"]
      by (cases "nonopt_end st") (simp_all add: bounds_ok_def passed_def skipped_def ne nv)
  next
    case (Some s)
    then obtain e where e: "nonopt_end st = Some e" "s < e" "e \<le> ?k" using b p by (cases "nonopt_end st") (simp_all add: bounds_ok_def)
    then show ?thesis using Some k a sl [OF e(3)] by (auto simp: bounds_ok_def passed_def skipped_def ne nv advances_def)
  qed
  then show "bounds_ok st'" "passed st' = passed st @ slice (optind st) (optind st' - optind st) (nargv st)" "skipped st' = skipped st"
    by simp_all
qed

lemma moves_split:
  assumes sp: "split_ok options argv st" and m: "moves st st'" and a: "advances st st'" and p: "place st \<noteq> []"
  shows "split_ok options argv st'"
proof -
  let ?k = "optind st" and ?k' = "optind st'"
  note mp = moves_passed [OF sp m a p]
  have k: "?k \<le> ?k'" "?k' \<le> length argv" using m sp by (simp_all add: moves_def split_ok_def)
  have d: "drop ?k (nargv st) = drop ?k argv" using sp by (simp add: split_ok_def)
  have t: "take ?k' argv = take ?k argv @ slice ?k (?k' - ?k) (nargv st)" using take_extend [OF k(1), of argv] d by (simp add: slice_def)
  have d': "drop ?k' (nargv st) = drop ?k' argv" using arg_cong [OF d, of "drop (?k' - ?k)"] k(1) by simp
  have "interleaved (passed st') (skipped st') (take ?k' argv)"
    unfolding mp t by (rule interleaved_left) (use sp in \<open>simp add: split_ok_def\<close>)
  then show ?thesis using sp m a mp(1,3) k d' by (auto simp: split_ok_def moves_def advances_def)
qed

lemma split_bounds:
  assumes "split_ok options argv st"
  shows "length (nargv st) = length argv" "optind st \<le> length argv" "drop (optind st) (nargv st) = drop (optind st) argv"
    "interleaved (passed st) (skipped st) (take (optind st) argv)" "list_all (is_nonoption options) (skipped st)"
    "length (passed st) + length (skipped st) = optind st"
proof -
  show "length (nargv st) = length argv" "optind st \<le> length argv" "drop (optind st) (nargv st) = drop (optind st) argv"
    "interleaved (passed st) (skipped st) (take (optind st) argv)" "list_all (is_nonoption options) (skipped st)"
    using assms by (simp_all add: split_ok_def)
  show "length (passed st) + length (skipped st) = optind st"
    using assms by (auto simp: split_ok_def bounds_ok_def passed_def skipped_def slice_def split: option.splits)
qed

lemma permuted:
  assumes sp: "split_ok options argv st" and ne: "nonopt_start st = Some s" "nonopt_end st = Some e" and p: "place st = []"
  shows "permute_args s e (optind st) (nargv st) = passed st @ skipped st @ drop (optind st) argv"
    "optind st - (e - s) = length (passed st)"
proof -
  have b: "s < e" "e < optind st" using sp ne p by (simp_all add: split_ok_def bounds_ok_def)
  show "permute_args s e (optind st) (nargv st) = passed st @ skipped st @ drop (optind st) argv"
    using permute_args_blocks [OF b, of "nargv st"] split_bounds [OF sp] by (simp add: passed_def skipped_def ne)
  show "optind st - (e - s) = length (passed st)"
    using b split_bounds [OF sp] by (simp add: passed_def ne slice_def)
qed

lemma skip_nonoption_ok:
  assumes sp: "split_ok options argv st" and p: "place st = []" and k: "optind st < length argv"
    and n: "is_nonoption options (argv ! optind st)"
  shows "split_ok options argv (skip_nonoption st) \<and> place (skip_nonoption st) = []"
proof -
  let ?k = "optind st" and ?st = "skip_nonoption st"
  note b = split_bounds [OF sp]
  have t: "take (Suc ?k) argv = take ?k argv @ [argv ! ?k]" using k by (simp add: take_Suc_conv_app_nth)
  have d: "drop ?k argv = argv ! ?k # drop (Suc ?k) argv" using k by (simp add: Cons_nth_drop_Suc)
  have nk: "nargv st ! ?k = argv ! ?k" using b(1,3) k by (metis hd_drop_conv_nth)
  have nd: "drop (Suc ?k) (nargv st) = drop (Suc ?k) argv" using arg_cong [OF b(3), of tl] by (simp add: drop_Suc tl_drop)
  have "passed ?st = passed st \<and> skipped ?st = skipped st @ [argv ! ?k] \<and> drop (Suc ?k) (nargv ?st) = drop (Suc ?k) argv \<and> bounds_ok ?st"
  proof (cases "nonopt_start st")
    case None
    then have "nonopt_end st = None" using sp by (auto simp: split_ok_def bounds_ok_def split: option.splits)
    then show ?thesis using None nd nk k b(1) p
      by (simp add: skip_nonoption_def Let_def passed_def skipped_def slice_def bounds_ok_def take_Suc_conv_app_nth hd_drop_conv_nth take_Suc)
  next
    case (Some s)
    show ?thesis
    proof (cases "nonopt_end st")
      case None
      have "s < ?k" using sp Some None by (simp add: split_ok_def bounds_ok_def)
      then have "slice s (Suc ?k - s) (nargv st) = slice s (?k - s) (nargv st) @ [nargv st ! ?k]"
        using k b(1) by (simp add: slice_def Suc_diff_le take_Suc_conv_app_nth)
      then show ?thesis using Some None nd nk p \<open>s < ?k\<close>
        by (simp add: skip_nonoption_def Let_def passed_def skipped_def bounds_ok_def)
    next
      fix e
      assume e: "nonopt_end st = Some e"
      define P N where "P = passed st" and "N = skipped st"
      note pm = permuted [OF sp Some e p, folded P_def N_def] and len = b(6) [folded P_def N_def]
      have "?st = st\<lparr>nargv := P @ N @ drop ?k argv, nonopt_start := Some (length P), nonopt_end := None, optind := Suc ?k\<rparr>"
        using Some e pm by (simp add: skip_nonoption_def Let_def)
      then have "passed ?st = P \<and> skipped ?st = N @ [argv ! ?k] \<and> drop (Suc ?k) (nargv ?st) = drop (Suc ?k) argv \<and> bounds_ok ?st"
        using len d p by (simp add: passed_def skipped_def slice_def bounds_ok_def)
      then show ?thesis by (simp add: P_def N_def)
    qed
  qed
  moreover have "interleaved (passed st) (skipped st @ [argv ! ?k]) (take (Suc ?k) argv)"
    unfolding t by (rule interleaved.right [OF b(4)])
  moreover have "place ?st = []" "\<not> optreset ?st"
    using p sp by (simp_all add: skip_nonoption_def Let_def split_ok_def split: option.split)
  ultimately show ?thesis using b k n by (simp add: split_ok_def)
qed

text \<open>The end of the options: options and skipped words are separated, and the index is at the first skipped word.\<close>

definition separated :: "string \<Rightarrow> string list \<Rightarrow> getopt \<Rightarrow> bool" where
  "separated options argv st =
     (\<exists>os ns pre rest. argv = pre @ rest \<and> interleaved os ns pre \<and> list_all (is_nonoption options) ns \<and>
        nargv st = os @ ns @ rest \<and> optind st = length os \<and> (rest = [] \<or> last os = ''--''))"

lemma end_permutation_ok:
  assumes sp: "split_ok options argv st" and p: "place st = []" and ne: "nonopt_start st \<noteq> None \<Longrightarrow> nonopt_end st \<noteq> None"
  shows "nargv (end_permutation st) = passed st @ skipped st @ drop (optind st) argv" "optind (end_permutation st) = length (passed st)"
proof -
  note b = split_bounds [OF sp]
  have "nargv (end_permutation st) = passed st @ skipped st @ drop (optind st) argv \<and> optind (end_permutation st) = length (passed st)"
  proof (cases "nonopt_start st")
    case None
    have "nargv st = take (optind st) (nargv st) @ drop (optind st) argv" using b(3) by (metis append_take_drop_id)
    then show ?thesis using None b(1,2) by (simp add: end_permutation_def passed_def skipped_def)
  next
    case (Some s)
    then obtain e where e: "nonopt_end st = Some e" using ne by auto
    note pm = permuted [OF sp Some e p]
    have "end_permutation st = st\<lparr>nargv := passed st @ skipped st @ drop (optind st) argv, optind := length (passed st)\<rparr>"
      using pm by (simp add: end_permutation_def Some e)
    then show ?thesis by simp
  qed
  then show "nargv (end_permutation st) = passed st @ skipped st @ drop (optind st) argv" "optind (end_permutation st) = length (passed st)"
    by simp_all
qed

lemma separated_no_nonopts [simp]: "separated options argv (no_nonopts st) = separated options argv st"
  by (simp add: separated_def no_nonopts_def)

lemma separated_end:
  assumes sp: "split_ok options argv st" and nv: "nargv st' = passed st @ skipped st @ drop (optind st) argv"
    and i: "optind st' = length (passed st)" and l: "optind st = length argv \<or> last (passed st) = ''--''"
  shows "separated options argv st'"
  unfolding separated_def
  using split_bounds [OF sp] nv i l
  by (intro exI [of _ "passed st"] exI [of _ "skipped st"] exI [of _ "take (optind st) argv"] exI [of _ "drop (optind st) argv"]) auto

definition scanned :: "string \<Rightarrow> string list \<Rightarrow> getopt \<Rightarrow> int option \<times> getopt \<Rightarrow> bool" where
  "scanned options argv st = (\<lambda>(r, st').
     case r of
       None \<Rightarrow> split_ok options argv st' \<and> place st' \<noteq> [] \<and> optind st \<le> optind st' \<and>
         (place_at_arg st' \<longrightarrow> strchr options (hd (place st')) \<noteq> None) \<and> length (place st') \<le> length (argv ! optind st')
     | Some v \<Rightarrow> v = - 1 \<and> separated options argv st')"

lemma pointer_simps [simp]:
  "passed (st\<lparr>place_at_arg := b\<rparr>) = passed st" "skipped (st\<lparr>place_at_arg := b\<rparr>) = skipped st" "bounds_ok (st\<lparr>place_at_arg := b\<rparr>) = bounds_ok st"
  "passed (st\<lparr>place := p\<rparr>) = passed st" "skipped (st\<lparr>place := p\<rparr>) = skipped st"
  "passed (st\<lparr>optarg := a\<rparr>) = passed st" "skipped (st\<lparr>optarg := a\<rparr>) = skipped st" "bounds_ok (st\<lparr>optarg := a\<rparr>) = bounds_ok st"
  "passed (st\<lparr>optreset := r\<rparr>) = passed st" "skipped (st\<lparr>optreset := r\<rparr>) = skipped st" "bounds_ok (st\<lparr>optreset := r\<rparr>) = bounds_ok st"
  by (simp_all add: passed_def skipped_def bounds_ok_def split: option.split)

lemma split_ok_simps [simp]:
  "split_ok options argv (st\<lparr>place_at_arg := b\<rparr>) = split_ok options argv st"
  "split_ok options argv (st\<lparr>optarg := a\<rparr>) = split_ok options argv st"
  by (simp_all add: split_ok_def)

lemma in_set_strchr: "c \<in> set options \<Longrightarrow> strchr options c \<noteq> None"
  by (induction options) auto

lemma scan_end:
  assumes sp: "split_ok options argv st" and p: "place st = []" and k: "optind st = length argv"
  shows "separated options argv (if nonopt_end st \<noteq> None then end_permutation st else case nonopt_start st of None \<Rightarrow> st | Some s \<Rightarrow> st\<lparr>optind := s\<rparr>)"
proof -
  note b = split_bounds [OF sp]
  show ?thesis
  proof (cases "nonopt_start st \<noteq> None \<and> nonopt_end st = None")
    case True
    then obtain s where s: "nonopt_start st = Some s" "nonopt_end st = None" by auto
    then have "s < optind st" using sp by (simp add: split_ok_def bounds_ok_def)
    then have "nargv st = passed st @ skipped st @ drop (optind st) argv" "length (passed st) = s"
      using s b(1) k by (simp_all add: passed_def skipped_def slice_def)
    then show ?thesis using s k by (intro separated_end [OF sp]) simp_all
  next
    case False
    then have e: "(if nonopt_end st \<noteq> None then end_permutation st else case nonopt_start st of None \<Rightarrow> st | Some s \<Rightarrow> st\<lparr>optind := s\<rparr>) = end_permutation st"
      by (auto simp: end_permutation_def split: option.split)
    have n: "nonopt_start st \<noteq> None \<Longrightarrow> nonopt_end st \<noteq> None" using False by simp
    show ?thesis unfolding e by (rule separated_end [OF sp end_permutation_ok [OF sp p n] disjI1 [OF k]])
  qed
qed

lemma scan_option:
  assumes sp: "split_ok options argv st" and p: "place st = []" and k: "optind st < length argv" and c: "cs \<noteq> []"
  defines "st1 \<equiv> if nonopt_start st \<noteq> None \<and> nonopt_end st = None then st\<lparr>nonopt_end := Some (optind st)\<rparr> else st"
  shows "split_ok options argv (st1\<lparr>place := cs\<rparr>)" "nonopt_start st1 \<noteq> None \<Longrightarrow> nonopt_end st1 \<noteq> None" "optind st1 = optind st" "nargv st1 = nargv st"
    "passed st1 = passed st" "skipped st1 = skipped st"
proof -
  have b: "bounds_ok st" using sp by (simp add: split_ok_def)
  have "(nonopt_start st1 \<noteq> None \<longrightarrow> nonopt_end st1 \<noteq> None) \<and> optind st1 = optind st \<and> nargv st1 = nargv st \<and>
      passed st1 = passed st \<and> skipped st1 = skipped st \<and> optreset st1 = optreset st \<and> bounds_ok (st1\<lparr>place := cs\<rparr>)"
    using b p c
    by (cases "nonopt_start st"; cases "nonopt_end st") (simp_all add: st1_def passed_def skipped_def bounds_ok_def slice_def)
  then show "nonopt_start st1 \<noteq> None \<Longrightarrow> nonopt_end st1 \<noteq> None" "optind st1 = optind st" "nargv st1 = nargv st"
    "passed st1 = passed st" "skipped st1 = skipped st" "split_ok options argv (st1\<lparr>place := cs\<rparr>)"
    using sp k c by (simp_all add: split_ok_def)
qed

lemma scan_ok:
  "split_ok options argv st \<Longrightarrow> place st = [] \<Longrightarrow> scanned options argv st (scan_argument True False options st)"
proof (induction "length argv - optind st" arbitrary: st rule: less_induct)
  case less
  note sp = less.prems(1) and p = less.prems(2)
  note b = split_bounds [OF sp]
  define s0 where "s0 = st\<lparr>optreset := False, place := [], place_at_arg := False\<rparr>"
  have s0: "split_ok options argv s0" "place s0 = []" "optind s0 = optind st" "nargv s0 = nargv st"
    using sp p by (auto simp: s0_def split_ok_def bounds_ok_def split: option.splits)
  have same: "st\<lparr>optreset := False\<rparr> = st\<lparr>place := []\<rparr>" using sp p by (simp add: split_ok_def)
  show ?case
  proof (cases "optind st < length argv")
    case False
    then have k: "optind s0 = length argv" using b(2) s0 by simp
    have "scan_argument True False options st =
        (Some (- 1), no_nonopts (if nonopt_end s0 \<noteq> None then end_permutation s0 else case nonopt_start s0 of None \<Rightarrow> s0 | Some s \<Rightarrow> s0\<lparr>optind := s\<rparr>))"
      using False p b(1) by (subst scan_argument.simps) (simp add: Let_def s0_def split: option.split)
    then show ?thesis using scan_end [OF s0(1,2) k] by (simp add: scanned_def)
  next
    case True
    let ?arg = "argv ! optind st"
    have arg: "nargv st ! optind st = ?arg" using b(1,3) True by (metis hd_drop_conv_nth)
    show ?thesis
    proof (cases "is_nonoption options ?arg")
      case True': True
      have sc: "scan_argument True False options st = scan_argument True False options (skip_nonoption s0)"
        using True True' p b(1) arg by (subst scan_argument.simps) (simp add: Let_def s0_def)
      have sk: "split_ok options argv (skip_nonoption s0)" "place (skip_nonoption s0) = []"
        using skip_nonoption_ok [OF s0(1,2)] True True' s0(3) by simp_all
      have "scanned options argv (skip_nonoption s0) (scan_argument True False options (skip_nonoption s0))"
        using True s0(3) by (intro less.hyps [OF _ sk]) simp
      then show ?thesis unfolding sc scanned_def using s0(3) by (auto split: option.splits prod.splits)
    next
      case opt: False
      then obtain cs where cs: "?arg = CHR ''-'' # cs" "cs = [] \<Longrightarrow> CHR ''-'' \<in> set options"
        by (auto simp: is_nonoption_def split: list.splits)
      let ?s = "st\<lparr>optreset := False\<rparr>"
      have sps: "split_ok options argv ?s" "place ?s = []" "optind ?s < length argv" using sp p True by (auto simp: split_ok_def)
      define s1 where "s1 = (if nonopt_start ?s \<noteq> None \<and> nonopt_end ?s = None then ?s\<lparr>nonopt_end := Some (optind ?s)\<rparr> else ?s)"
      note so = scan_option [OF sps, folded s1_def]
      consider "?arg = ''--''" | "?arg \<noteq> ''--''" "cs \<noteq> []" | "cs = []" by blast
      then show ?thesis
      proof cases
        case 1
        let ?t = "s1\<lparr>optind := optind s1 + 1, place := [], place_at_arg := False\<rparr>"
        have sc: "scan_argument True False options st = (Some (- 1), no_nonopts (end_permutation ?t))"
          using True opt p b(1) arg 1 by (subst scan_argument.simps) (simp add: Let_def s1_def)
        have mv: "moves (s1\<lparr>place := ''-''\<rparr>) ?t" "advances (s1\<lparr>place := ''-''\<rparr>) ?t"
          using True b(1) so(3,4) [of "''-''"] by (simp_all add: moves_def advances_def)
        have spt: "split_ok options argv ?t" using moves_split [OF so(1) mv] by simp
        have "nonopt_start ?t \<noteq> None \<Longrightarrow> nonopt_end ?t \<noteq> None" using so(2) [of "''-''"] by simp
        note ep = end_permutation_ok [OF spt _ this]
        have "passed ?t = passed s1 @ [nargv st ! optind st]"
          using moves_passed(2) [OF so(1) mv] so(3,4) [of "''-''"] True b(1) by (simp add: slice_def take_Suc hd_drop_conv_nth)
        then have "last (passed ?t) = ''--''" using arg 1 by simp
        then have "separated options argv (end_permutation ?t)" using ep by (intro separated_end [OF spt]) simp_all
        then show ?thesis unfolding sc scanned_def by simp
      next
        case 2
        have "scan_argument True False options st = (None, s1\<lparr>place := cs, place_at_arg := False\<rparr>)"
          using True opt p b(1) arg 2 cs by (subst scan_argument.simps) (simp add: Let_def s1_def)
        then show ?thesis using so(1,3) [OF 2(2)] 2 cs by (simp add: scanned_def)
      next
        case 3
        have "scan_argument True False options st = (None, s1\<lparr>place := ?arg, place_at_arg := True\<rparr>)"
          using True opt p b(1) arg 3 cs by (subst scan_argument.simps) (simp add: Let_def s1_def)
        then show ?thesis using so(1,3) [of ?arg] 3 cs in_set_strchr [of "CHR ''-''" options] by (simp add: scanned_def)
      qed
    qed
  qed
qed

section \<open>The loop returns\<close>

lemma scan_argument_reset:
  "optreset st \<Longrightarrow> scan_argument permute allargs options st = scan_argument permute allargs options (st\<lparr>optreset := False, place := []\<rparr>)"
  by (subst (1 2) scan_argument.simps) (simp add: Let_def)

lemma scan_argument_stop:
  "place st = [] \<Longrightarrow> optind st < length (nargv st) \<Longrightarrow> is_nonoption options (nargv st ! optind st) \<Longrightarrow>
   scan_argument False False options st = (Some (- 1), st\<lparr>optreset := False, place := [], place_at_arg := False\<rparr>)"
  by (subst scan_argument.simps) (simp add: Let_def)

lemma scan_argument_permute:
  "\<not> (place st = [] \<and> optind st < length (nargv st) \<and> is_nonoption options (nargv st ! optind st)) \<Longrightarrow> \<not> optreset st \<Longrightarrow>
   scan_argument False False options st = scan_argument True False options st"
  by (subst (1 2) scan_argument.simps) (auto simp: Let_def)

text \<open>How a call leaves the state: in the middle of the words, or at the end of the options.\<close>

definition stopped :: "bool \<Rightarrow> string \<Rightarrow> string list \<Rightarrow> getopt \<Rightarrow> bool" where
  "stopped permute options argv st =
     (if permute then separated options argv st
      else separated options argv st \<or> (split_ok options argv st \<and> optind st < length argv \<and> is_nonoption options (argv ! optind st)))"

definition option_table :: "string \<Rightarrow> long_option list \<Rightarrow> bool" where
  "option_table options ls = (first_char options = CHR '':'' \<and> CHR 0xFF \<notin> set options \<and> list_all opt_flag ls)"

lemma scan_any:
  assumes sp: "split_ok options argv st" and p: "place st = []" and sc: "scan_argument permute False options st = (r, st')"
  shows "case r of
      None \<Rightarrow> split_ok options argv st' \<and> place st' \<noteq> [] \<and> optind st \<le> optind st' \<and>
        (place_at_arg st' \<longrightarrow> strchr options (hd (place st')) \<noteq> None) \<and>
        length (place st') \<le> length (argv ! optind st')
    | Some v \<Rightarrow> v = - 1 \<and> stopped permute options argv st'"
proof (cases "\<not> permute \<and> optind st < length (nargv st) \<and> is_nonoption options (nargv st ! optind st)")
  case True
  note b = split_bounds [OF sp]
  have "nargv st ! optind st = argv ! optind st" using True b(1,3) by (metis hd_drop_conv_nth)
  moreover have "(r, st') = (Some (- 1), st\<lparr>optreset := False, place := [], place_at_arg := False\<rparr>)"
    using True p sc by (simp add: scan_argument_stop)
  moreover have "st\<lparr>optreset := False, place := []\<rparr> = st" using sp p by (simp add: split_ok_def)
  ultimately show ?thesis using True sp b(1) by (simp add: stopped_def)
next
  case False
  then have "scan_argument True False options st = (r, st')"
    using sc sp by (cases permute) (auto simp: split_ok_def scan_argument_permute)
  then show ?thesis using scan_ok [OF sp p] by (auto simp: scanned_def stopped_def split: option.splits)
qed

lemma parse_long_at_arg: "parse_long_options options ls short_too st = (r, st') \<Longrightarrow> place_at_arg st' = place_at_arg st"
  by (auto simp: parse_long_options_def Let_def split: option.splits if_splits)

lemma short_option_at_arg: "short_option options ls st = (r, st') \<Longrightarrow> \<not> place_at_arg st'"
  by (auto simp: short_option_def unknown_letter_def known_letter_def option_W_def Let_def split: option.splits if_splits prod.splits
      dest!: parse_long_at_arg)

lemma process_option_at_arg: "process_option longonly options ls st = (r, st') \<Longrightarrow> place st' \<noteq> [] \<Longrightarrow> \<not> place_at_arg st'"
  by (auto simp: process_option_def Let_def split: option.splits if_splits prod.splits dest: short_option_at_arg)

text \<open>What is left: the words from the index on, then the letters of the word at the pointer.\<close>

definition left_over :: "string list \<Rightarrow> (getopt \<times> getopt) set" where
  "left_over argv =
     measures [\<lambda>st. length argv - optind st,
               \<lambda>st. if place st \<noteq> [] then length (place st) else if optind st < length argv then Suc (length (argv ! optind st)) else 0]"

lemma wf_left_over: "wf (left_over argv)"
  by (simp add: left_over_def)

definition between_calls :: "string \<Rightarrow> string list \<Rightarrow> getopt \<Rightarrow> bool" where
  "between_calls options argv st = (split_ok options argv st \<and> 0 < optind st \<and> (place st \<noteq> [] \<longrightarrow> \<not> place_at_arg st))"

lemma getopt_call:
  assumes bt: "between_calls options argv st" and tb: "option_table options ls" and r: "getopt_long posixly_correct options ls st = (r, st')"
  shows "if r = - 1 then stopped (\<not> posixly_correct) options argv st' else between_calls options argv st' \<and> (st', st) \<in> left_over argv"
proof -
  have sp: "split_ok options argv st" and i: "0 < optind st" and at: "place st \<noteq> [] \<Longrightarrow> \<not> place_at_arg st" and nr: "\<not> optreset st"
    using bt by (auto simp: between_calls_def split_ok_def)
  have t: "first_char options = CHR '':''" "CHR 0xFF \<notin> set options" "list_all opt_flag ls" using tb by (simp_all add: option_table_def)
  define s0 where "s0 = st\<lparr>optarg := None\<rparr>"
  have s0: "split_ok options argv s0" "place s0 = place st" "optind s0 = optind st" "\<not> optreset s0" "place_at_arg s0 = place_at_arg st"
    using sp nr by (simp_all add: s0_def)
  obtain q s1 where sc: "scan_argument (\<not> posixly_correct) False options s0 = (q, s1)" by fastforce
  have g: "getopt_long posixly_correct options ls st = (case q of Some r \<Rightarrow> (r, s1) | None \<Rightarrow> process_option False options (Some ls) s1)"
    using i nr sc t by (simp add: getopt_long_def getopt_internal_def Let_def s0_def [symmetric] split: option.split)
  have s1: "case q of
      None \<Rightarrow> split_ok options argv s1 \<and> place s1 \<noteq> [] \<and> optind st \<le> optind s1 \<and>
        (place_at_arg s1 \<longrightarrow> strchr options (hd (place s1)) \<noteq> None) \<and>
        (if place st = [] then length (place s1) \<le> length (argv ! optind s1) else s1 = s0)
    | Some v \<Rightarrow> v = - 1 \<and> stopped (\<not> posixly_correct) options argv s1"
  proof (cases "place st = []")
    case True
    then show ?thesis using scan_any [OF s0(1) _ sc] s0 by (auto split: option.splits)
  next
    case False
    then have "(q, s1) = (None, s0)" using sc s0 by (subst (asm) scan_argument.simps) simp
    then show ?thesis using False s0 at by simp
  qed
  show ?thesis
  proof (cases q)
    case (Some v)
    then show ?thesis using s1 g r by simp
  next
    case None
    then have q: "split_ok options argv s1" "place s1 \<noteq> []" "optind st \<le> optind s1" "place_at_arg s1 \<Longrightarrow> strchr options (hd (place s1)) \<noteq> None"
        "if place st = [] then length (place s1) \<le> length (argv ! optind s1) else s1 = s0"
      and pr: "process_option False options (Some ls) s1 = (r, st')"
      using s1 g r by auto
    have k: "optind s1 < length (nargv s1)" using q(1,2) by (simp add: split_ok_def)
    have mv: "moves s1 st'" "advances s1 st'" "r \<noteq> - 1" using process_option_moves [OF k q(2) t(3) q(4) t(2) pr] by simp_all
    have "split_ok options argv st'" by (rule moves_split [OF q(1) mv(1,2) q(2)])
    moreover have "(st', st) \<in> left_over argv"
      using mv(1,2) q s0(2,3) k by (cases "optind s1 = optind st") (auto simp: left_over_def advances_def moves_def split_ok_def split: if_splits)
    moreover have "optind s1 \<le> optind st'" using mv(1) by (simp add: moves_def)
    ultimately show ?thesis using mv(3) process_option_at_arg [OF pr] q(3) i by (auto simp: between_calls_def)
  qed
qed

text \<open>The first call, with index 0: it starts after the name of the program, whatever the earlier parse left behind.\<close>

definition first_state :: "getopt \<Rightarrow> getopt" where
  "first_state st = no_nonopts (st\<lparr>optind := 1, optreset := False, place := [], optarg := None\<rparr>)"

lemma first_call:
  assumes "optind st = 0"
  shows "getopt_long posixly_correct options ls st = getopt_long posixly_correct options ls (first_state st)"
  using assms scan_argument_reset [of "no_nonopts (st\<lparr>optind := 1, optreset := True, optarg := None\<rparr>)"]
  by (cases st) (simp add: getopt_long_def getopt_internal_def first_state_def no_nonopts_def Let_def)

lemma first_state_ok:
  "nargv st = argv \<Longrightarrow> argv \<noteq> [] \<Longrightarrow> between_calls options argv (first_state st)"
  using interleaved_left [OF interleaved.none, of "take 1 argv"]
  by (cases argv) (simp_all add: between_calls_def first_state_def no_nonopts_def split_ok_def bounds_ok_def passed_def skipped_def)

lemma getopt_loop_invariant:
  assumes tb: "option_table options ls"
    and step: "\<And>st r st' s. getopt_long posixly_correct options ls st = (r, st') \<Longrightarrow> r \<noteq> - 1 \<Longrightarrow> P s \<Longrightarrow> P (handle r st' s)"
  shows "between_calls options argv st \<Longrightarrow> P s \<Longrightarrow>
    \<exists>st' s'. getopt_loop posixly_correct handle options ls st s = Some (st', s') \<and> stopped (\<not> posixly_correct) options argv st' \<and> P s'"
proof (induction st arbitrary: s rule: wf_induct_rule [OF wf_left_over [of argv]])
  case (1 st)
  obtain r st' where g: "getopt_long posixly_correct options ls st = (r, st')" by fastforce
  note c = getopt_call [OF 1(2) tb g]
  show ?case
  proof (cases "r = - 1")
    case True
    then show ?thesis using c g 1(3) by (subst getopt_loop.simps) simp
  next
    case False
    then show ?thesis using c g 1(1) [of st' "handle r st' s"] step [OF g False 1(3)] by (subst getopt_loop.simps) simp
  qed
qed

text \<open>The code 0 is only returned for a long option, and the value stored for it is the one of the option.\<close>

lemma scan_argument_code: "scan_argument permute False options st = (Some r, st') \<Longrightarrow> r = - 1"
proof (induction permute False options st rule: scan_argument.induct)
  case (1 permute options st)
  show ?case using 1(2) 1(1) by (subst (asm) scan_argument.simps) (auto simp: Let_def split: if_splits)
qed

lemma parse_long_zero:
  assumes "parse_long_options options ls False st = (0, st')" "list_all opt_flag ls"
  shows "\<exists>l \<in> set ls. flag_value st' = opt_val l"
proof -
  define current where "current = takeWhile (\<lambda>c. c \<noteq> CHR ''='') (place st)"
  obtain i where i: "match_long current False ls 0 None = Some (Some i)"
    using assms by (auto simp: parse_long_options_def Let_def current_def [symmetric] split: option.splits if_splits)
  then have "i < length ls" using match_long_index [OF i] by simp
  moreover have "flag_value st' = opt_val (ls ! i)"
    using assms i \<open>i < length ls\<close> by (auto simp: parse_long_options_def Let_def current_def [symmetric] list_all_length split: if_splits)
  ultimately show ?thesis using nth_mem by blast
qed

lemma signed_char_eq_0: "signed_char c = 0 \<longleftrightarrow> c = CHR 0x00"
proof
  assume z: "signed_char c = 0"
  have "(of_char c :: nat) < 256" by (metis of_char_mod_256 mod_less_divisor zero_less_numeral)
  then have "int (of_char c) < 256" by linarith
  then have "int (of_char c) = 0" using z by (simp only: signed_char_def Let_def split: if_splits)
  then have "(of_char c :: nat) = 0" by linarith
  then have "c = char_of (0 :: nat)" by (metis char_of_char)
  then show "c = CHR 0x00" by (simp add: char_of_def bit_0)
qed (simp add: signed_char_def)

lemma short_option_zero:
  assumes "short_option options (Some ls) st = (0, st')" "list_all opt_flag ls" "CHR 0x00 \<notin> set options"
  shows "\<exists>l \<in> set ls. flag_value st' = opt_val l"
proof -
  have z: "signed_char (hd (place st)) \<noteq> 0" if "strchr options (hd (place st)) = Some oli" for oli
    using strchr_first [OF that] assms(3) by (auto simp: signed_char_eq_0)
  show ?thesis
    using assms(1) z
    by (auto simp: short_option_def unknown_letter_def known_letter_def option_W_def Let_def
        split: option.splits if_splits prod.splits dest!: parse_long_zero [OF _ assms(2)])
qed

lemma getopt_long_zero:
  assumes g: "getopt_long posixly_correct options ls st = (0, st')" and tb: "option_table options ls" and z: "CHR 0x00 \<notin> set options"
  shows "\<exists>l \<in> set ls. flag_value st' = opt_val l"
proof -
  have t: "first_char options = CHR '':''" "list_all opt_flag ls" using tb by (simp_all add: option_table_def)
  obtain s1 where "process_option False options (Some ls) s1 = (0, st')"
    using g t by (auto simp: getopt_long_def getopt_internal_def Let_def split: option.splits prod.splits dest: scan_argument_code)
  then show ?thesis
    using short_option_zero [OF _ t(2) z] parse_long_zero [OF _ t(2)]
    by (fastforce simp: process_option_def Let_def split: if_splits prod.splits)
qed

lemma getopt_loop_first:
  "optind st = 0 \<Longrightarrow> getopt_loop posixly_correct handle options ls st s = getopt_loop posixly_correct handle options ls (first_state st) s"
  by (subst (1 2) getopt_loop.simps) (simp add: first_call)



end
