(* ===== verification/ArgTypes.thy ===== *)
theory ArgTypes
  imports CText
begin

text \<open>
  The kinds of arguments of argtable3 that the runtime uses (deps/argtable/argtable3.c): \<open>arg_lit\<close>, \<open>arg_int\<close>, \<open>arg_str\<close>,
  \<open>arg_file\<close> and \<open>arg_rem\<close>, each with its constructor and the functions its header points to. A pointer into a string is the
  text from there on; the arrays behind a structure are lists of the length that was allocated, and every store into them is
  checked. Numbers of occurrences are not negative; an allocation succeeds.
\<close>

section \<open>Numbers in the C library\<close>

definition isspace :: "char \<Rightarrow> bool" where
  "isspace c = (c \<in> set [CHR '' '', CHR 0x09, CHR 0x0A, CHR 0x0B, CHR 0x0C, CHR 0x0D])"

definition toupper :: "char \<Rightarrow> char" where
  "toupper c = (let n = (of_char c :: nat) in if 97 \<le> n \<and> n \<le> 122 then char_of (n - 32) else c)"

text \<open>The value of a character as a digit in a base; the base itself if it is none.\<close>

definition digit_value :: "nat \<Rightarrow> char \<Rightarrow> nat" where
  "digit_value base c =
     (let n = (of_char c :: nat);
          v = (if 48 \<le> n \<and> n \<le> 57 then n - 48
               else if 97 \<le> n \<and> n \<le> 122 then n - 87
               else if 65 \<le> n \<and> n \<le> 90 then n - 55
               else base)
      in min v base)"

definition number_value :: "nat \<Rightarrow> string \<Rightarrow> nat" where
  "number_value base ds = foldl (\<lambda>v c. v * base + digit_value base c) 0 ds"

definition LONG_MIN :: int where "LONG_MIN = - (2 ^ 63)"
definition LONG_MAX :: int where "LONG_MAX = 2 ^ 63 - 1"
definition INT_MIN :: int where "INT_MIN = - (2 ^ 31)"
definition INT_MAX :: int where "INT_MAX = 2 ^ 31 - 1"

text \<open>An optional sign: whether it is a minus, and the text behind it.\<close>

definition sign_of :: "string \<Rightarrow> bool \<times> string" where
  "sign_of s =
     (case s of
        [] \<Rightarrow> (False, [])
      | c # cs \<Rightarrow> if c = CHR ''+'' then (False, cs) else if c = CHR ''-'' then (True, cs) else (False, s))"

text \<open>
  \<open>strtol\<close> of the C library: the value, cut to the range of \<open>long\<close>, and the text behind the number; none when there is no
  number, where the end pointer is the start of the text.
\<close>

definition strtol :: "nat \<Rightarrow> string \<Rightarrow> (int \<times> string) option" where
  "strtol base str =
     (case sign_of (dropWhile isspace str) of
        (neg, s) \<Rightarrow>
          let s = (if base = 16 \<and> length s > 2 \<and> s ! 0 = CHR ''0'' \<and> toupper (s ! 1) = CHR ''X'' \<and> digit_value 16 (s ! 2) < 16
                   then drop 2 s else s);
              ds = takeWhile (\<lambda>c. digit_value base c < base) s;
              v = (if neg then - int (number_value base ds) else int (number_value base ds))
          in if ds = [] then None else Some (max LONG_MIN (min LONG_MAX v), drop (length ds) s))"

section \<open>Headers and values\<close>

datatype arg_values =
    Rem
  | Lit
  | Ints "int list"
  | Strs "string list"
  | Files "string list" "string list" "string list"

record arg_entry =
  has_value :: bool
  has_optvalue :: bool
  shortopts :: "string option"
  longopts :: "string option"
  datatype_text :: "string option"
  glossary :: "string option"
  mincount :: nat
  maxcount :: nat
  count :: nat
  vals :: arg_values

definition ARG_ERR_MINCOUNT :: int where "ARG_ERR_MINCOUNT = 1"
definition ARG_ERR_MAXCOUNT :: int where "ARG_ERR_MAXCOUNT = 2"
definition ARG_ERR_BADINT :: int where "ARG_ERR_BADINT = 3"
definition ARG_ERR_OVERFLOW :: int where "ARG_ERR_OVERFLOW = 4"

lemmas arg_err_defs = ARG_ERR_MINCOUNT_def ARG_ERR_MAXCOUNT_def ARG_ERR_BADINT_def ARG_ERR_OVERFLOW_def

text \<open>A scan function gives an error code, 0 for none, and the changed structure.\<close>

type_synonym scanned_entry = "(int \<times> arg_entry) outcome"

definition checkfn_count :: "arg_entry \<Rightarrow> int" where
  "checkfn_count parent = (if count parent < mincount parent then ARG_ERR_MINCOUNT else 0)"

section \<open>arg_rem and arg_lit\<close>

definition arg_rem :: "string option \<Rightarrow> string option \<Rightarrow> arg_entry" where
  "arg_rem dt gl =
     \<lparr>has_value = False, has_optvalue = False, shortopts = None, longopts = None, datatype_text = dt, glossary = gl,
      mincount = 1, maxcount = 1, count = 0, vals = Rem\<rparr>"

definition arg_litn :: "string option \<Rightarrow> string option \<Rightarrow> nat \<Rightarrow> nat \<Rightarrow> string option \<Rightarrow> arg_entry" where
  "arg_litn so lo mn mx gl =
     (let mx = (if mx < mn then mn else mx)
      in \<lparr>has_value = False, has_optvalue = False, shortopts = so, longopts = lo, datatype_text = None, glossary = gl,
          mincount = mn, maxcount = mx, count = 0, vals = Lit\<rparr>)"

definition arg_lit_resetfn :: "arg_entry \<Rightarrow> arg_entry outcome" where
  "arg_lit_resetfn parent = Inr (parent\<lparr>count := 0\<rparr>)"

definition arg_lit_scanfn :: "arg_entry \<Rightarrow> string option \<Rightarrow> scanned_entry" where
  "arg_lit_scanfn parent argval =
     (if count parent < maxcount parent then Inr (0, parent\<lparr>count := count parent + 1\<rparr>) else Inr (ARG_ERR_MAXCOUNT, parent))"

section \<open>arg_int\<close>

definition strtol0X :: "string \<Rightarrow> char \<Rightarrow> nat \<Rightarrow> (int \<times> string) option" where
  "strtol0X str X base =
     (case sign_of (dropWhile isspace str) of
        (neg, ptr) \<Rightarrow>
          (case ptr of
             z # x # ptr \<Rightarrow>
               if z \<noteq> CHR ''0'' then None
               else if toupper x \<noteq> toupper X then None
               else (case strtol base ptr of
                       None \<Rightarrow> None
                     | Some (v, rest) \<Rightarrow> Some (((if neg then - v else v) - LONG_MIN) mod 2 ^ 64 + LONG_MIN, rest))
           | _ \<Rightarrow> None))"

fun detectsuffix :: "string \<Rightarrow> string \<Rightarrow> bool" where
  "detectsuffix [] [] = True"
| "detectsuffix (c # str) (d # suffix) = (toupper c = toupper d \<and> detectsuffix str suffix)"
| "detectsuffix [] (d # suffix) = False"
| "detectsuffix (c # str) [] = (dropWhile isspace (c # str) = [])"

text \<open>The first of the four conversions that finds a number.\<close>

definition int_conversion :: "string \<Rightarrow> (int \<times> string) option" where
  "int_conversion argval =
     (case strtol0X argval (CHR ''X'') 16 of
        Some r \<Rightarrow> Some r
      | None \<Rightarrow>
          (case strtol0X argval (CHR ''O'') 8 of
             Some r \<Rightarrow> Some r
           | None \<Rightarrow>
               (case strtol0X argval (CHR ''B'') 2 of
                  Some r \<Rightarrow> Some r
                | None \<Rightarrow> strtol 10 argval)))"

definition apply_suffix :: "int \<Rightarrow> string \<Rightarrow> int \<Rightarrow> int \<times> int" where
  "apply_suffix val rest errorcode =
     (if detectsuffix rest ''KB''
      then if val > INT_MAX div 1024 \<or> val < INT_MIN div 1024 then (ARG_ERR_OVERFLOW, val) else (errorcode, val * 1024)
      else if detectsuffix rest ''MB''
      then if val > INT_MAX div 1048576 \<or> val < INT_MIN div 1048576 then (ARG_ERR_OVERFLOW, val) else (errorcode, val * 1048576)
      else if detectsuffix rest ''GB''
      then if val > INT_MAX div 1073741824 \<or> val < INT_MIN div 1073741824 then (ARG_ERR_OVERFLOW, val) else (errorcode, val * 1073741824)
      else if \<not> detectsuffix rest '''' then (ARG_ERR_BADINT, val)
      else (errorcode, val))"

definition arg_int_resetfn :: "arg_entry \<Rightarrow> arg_entry outcome" where
  "arg_int_resetfn parent = Inr (parent\<lparr>count := 0\<rparr>)"

definition arg_int_scanfn :: "arg_entry \<Rightarrow> int list \<Rightarrow> string option \<Rightarrow> scanned_entry" where
  "arg_int_scanfn parent ival argval =
     (if count parent = maxcount parent then Inr (ARG_ERR_MAXCOUNT, parent)
      else case argval of
        None \<Rightarrow> Inr (0, parent\<lparr>count := count parent + 1\<rparr>)
      | Some argval \<Rightarrow>
          (case int_conversion argval of
             None \<Rightarrow> Inr (ARG_ERR_BADINT, parent)
           | Some (val, rest) \<Rightarrow>
               (case apply_suffix val rest (if val > INT_MAX \<or> val < INT_MIN then ARG_ERR_OVERFLOW else 0) of
                  (errorcode, val) \<Rightarrow>
                    if errorcode = 0
                    then obind (mem_write ival (count parent) [(val - INT_MIN) mod 2 ^ 32 + INT_MIN]) (\<lambda>ival.
                         Inr (0, parent\<lparr>count := count parent + 1, vals := Ints ival\<rparr>))
                    else Inr (errorcode, parent))))"

text \<open>The constructor; \<open>junk\<close> is what the allocated memory holds.\<close>

definition arg_intn :: "(nat \<Rightarrow> int) \<Rightarrow> string option \<Rightarrow> string option \<Rightarrow> string option \<Rightarrow> nat \<Rightarrow> nat \<Rightarrow> string option \<Rightarrow> arg_entry" where
  "arg_intn junk so lo dt mn mx gl =
     (let mx = (if mx < mn then mn else mx)
      in \<lparr>has_value = True, has_optvalue = False, shortopts = so, longopts = lo,
          datatype_text = (case dt of None \<Rightarrow> Some ''<int>'' | Some d \<Rightarrow> Some d), glossary = gl,
          mincount = mn, maxcount = mx, count = 0, vals = Ints (map junk [0..<mx])\<rparr>)"

section \<open>arg_str\<close>

definition arg_str_resetfn :: "arg_entry \<Rightarrow> string list \<Rightarrow> arg_entry outcome" where
  "arg_str_resetfn parent sval =
     obind (mem_write sval 0 (replicate (count parent) [])) (\<lambda>sval. Inr (parent\<lparr>count := 0, vals := Strs sval\<rparr>))"

definition arg_str_scanfn :: "arg_entry \<Rightarrow> string list \<Rightarrow> string option \<Rightarrow> scanned_entry" where
  "arg_str_scanfn parent sval argval =
     (if count parent = maxcount parent then Inr (ARG_ERR_MAXCOUNT, parent)
      else case argval of
        None \<Rightarrow> Inr (0, parent\<lparr>count := count parent + 1\<rparr>)
      | Some argval \<Rightarrow>
          obind (mem_write sval (count parent) [argval]) (\<lambda>sval. Inr (0, parent\<lparr>count := count parent + 1, vals := Strs sval\<rparr>)))"

definition arg_strn :: "string option \<Rightarrow> string option \<Rightarrow> string option \<Rightarrow> nat \<Rightarrow> nat \<Rightarrow> string option \<Rightarrow> arg_entry" where
  "arg_strn so lo dt mn mx gl =
     (let mx = (if mx < mn then mn else mx)
      in \<lparr>has_value = True, has_optvalue = False, shortopts = so, longopts = lo,
          datatype_text = (case dt of None \<Rightarrow> Some ''<string>'' | Some d \<Rightarrow> Some d), glossary = gl,
          mincount = mn, maxcount = mx, count = 0, vals = Strs (replicate mx [])\<rparr>)"

section \<open>arg_file\<close>

text \<open>The text behind the last occurrence of a character, none if there is none.\<close>

definition strrchr :: "string \<Rightarrow> char \<Rightarrow> string option" where
  "strrchr s c = (if c \<in> set s then Some (c # rev (takeWhile (\<lambda>d. d \<noteq> c) (rev s))) else None)"

definition arg_basename :: "string \<Rightarrow> string" where
  "arg_basename filename =
     (let result = (case strrchr filename (CHR ''/'') of None \<Rightarrow> filename | Some r \<Rightarrow> tl r)
      in if result = ''.'' \<or> result = ''..'' then [] else result)"

text \<open>The byte behind the terminator, which the code reads when there is no extension, does not change the result.\<close>

definition arg_extension :: "string \<Rightarrow> string" where
  "arg_extension basename =
     (let result = (case strrchr basename (CHR ''.'') of None \<Rightarrow> [] | Some r \<Rightarrow> r);
          result = (if length result = length basename then [] else result)
      in if length result = 1 then [] else result)"

definition arg_file_resetfn :: "arg_entry \<Rightarrow> arg_entry outcome" where
  "arg_file_resetfn parent = Inr (parent\<lparr>count := 0\<rparr>)"

definition arg_file_scanfn :: "arg_entry \<Rightarrow> string list \<Rightarrow> string list \<Rightarrow> string list \<Rightarrow> string option \<Rightarrow> scanned_entry" where
  "arg_file_scanfn parent filename basename extension argval =
     (if count parent = maxcount parent then Inr (ARG_ERR_MAXCOUNT, parent)
      else case argval of
        None \<Rightarrow> Inr (0, parent\<lparr>count := count parent + 1\<rparr>)
      | Some argval \<Rightarrow>
          obind (mem_write filename (count parent) [argval]) (\<lambda>filename.
          obind (mem_write basename (count parent) [arg_basename argval]) (\<lambda>basename.
          obind (mem_write extension (count parent) [arg_extension (arg_basename argval)]) (\<lambda>extension.
          Inr (0, parent\<lparr>count := count parent + 1, vals := Files filename basename extension\<rparr>)))))"

definition arg_filen :: "string option \<Rightarrow> string option \<Rightarrow> string option \<Rightarrow> nat \<Rightarrow> nat \<Rightarrow> string option \<Rightarrow> arg_entry" where
  "arg_filen so lo dt mn mx gl =
     (let mx = (if mx < mn then mn else mx)
      in \<lparr>has_value = True, has_optvalue = False, shortopts = so, longopts = lo,
          datatype_text = (case dt of None \<Rightarrow> Some ''<file>'' | Some d \<Rightarrow> Some d), glossary = gl,
          mincount = mn, maxcount = mx, count = 0,
          vals = Files (replicate mx []) (replicate mx []) (replicate mx [])\<rparr>)"

section \<open>The functions a header points to\<close>

definition resetfn :: "arg_entry \<Rightarrow> (arg_entry \<Rightarrow> arg_entry outcome) option" where
  "resetfn e =
     (case vals e of
        Rem \<Rightarrow> None
      | Lit \<Rightarrow> Some arg_lit_resetfn
      | Ints ival \<Rightarrow> Some arg_int_resetfn
      | Strs sval \<Rightarrow> Some (\<lambda>parent. arg_str_resetfn parent sval)
      | Files filename basename extension \<Rightarrow> Some arg_file_resetfn)"

definition scanfn :: "arg_entry \<Rightarrow> (arg_entry \<Rightarrow> string option \<Rightarrow> scanned_entry) option" where
  "scanfn e =
     (case vals e of
        Rem \<Rightarrow> None
      | Lit \<Rightarrow> Some arg_lit_scanfn
      | Ints ival \<Rightarrow> Some (\<lambda>parent. arg_int_scanfn parent ival)
      | Strs sval \<Rightarrow> Some (\<lambda>parent. arg_str_scanfn parent sval)
      | Files filename basename extension \<Rightarrow> Some (\<lambda>parent. arg_file_scanfn parent filename basename extension))"

definition checkfn :: "arg_entry \<Rightarrow> (arg_entry \<Rightarrow> int) option" where
  "checkfn e = (if vals e = Rem then None else Some checkfn_count)"

lemmas fn_defs = resetfn_def scanfn_def checkfn_def
lemmas resetfn_defs = arg_lit_resetfn_def arg_int_resetfn_def arg_str_resetfn_def arg_file_resetfn_def
lemmas scanfn_defs = arg_lit_scanfn_def arg_int_scanfn_def arg_str_scanfn_def arg_file_scanfn_def

section \<open>What every function keeps\<close>

definition entry_ok :: "arg_entry \<Rightarrow> bool" where
  "entry_ok e =
     (mincount e \<le> maxcount e \<and> count e \<le> maxcount e \<and>
      (case vals e of
         Rem \<Rightarrow> True
       | Lit \<Rightarrow> True
       | Ints ival \<Rightarrow> length ival = maxcount e
       | Strs sval \<Rightarrow> length sval = maxcount e
       | Files filename basename extension \<Rightarrow> length filename = maxcount e \<and> length basename = maxcount e \<and> length extension = maxcount e))"

text \<open>The part of a structure that no parse changes.\<close>

definition header :: "arg_entry \<Rightarrow> arg_entry" where
  "header e =
     e\<lparr>count := 0,
       vals := (case vals e of Rem \<Rightarrow> Rem | Lit \<Rightarrow> Lit | Ints _ \<Rightarrow> Ints [] | Strs _ \<Rightarrow> Strs [] | Files _ _ _ \<Rightarrow> Files [] [] [])\<rparr>"

lemma header_eqD:
  assumes "header e = header e'"
  shows "has_value e = has_value e'" "has_optvalue e = has_optvalue e'" "shortopts e = shortopts e'" "longopts e = longopts e'"
    "mincount e = mincount e'" "maxcount e = maxcount e'" "vals e = Rem \<longleftrightarrow> vals e' = Rem"
  using assms by (cases e; cases e'; auto simp: header_def split: arg_values.splits)+

lemma constructors_ok [simp]:
  "entry_ok (arg_rem dt gl)" "entry_ok (arg_litn so lo mn mx gl)" "entry_ok (arg_intn junk so lo dt mn mx gl)"
  "entry_ok (arg_strn so lo dt mn mx gl)" "entry_ok (arg_filen so lo dt mn mx gl)"
  by (simp_all add: entry_ok_def arg_rem_def arg_litn_def arg_intn_def arg_strn_def arg_filen_def Let_def)

lemma mem_write_cell: "j < length buf \<Longrightarrow> mem_write buf j [x] = Inr (buf[j := x])"
  by (simp add: mem_write_def upd_conv_take_nth_drop)

lemma resetfn_ok:
  assumes "entry_ok e" "resetfn e = Some f"
  shows "\<exists>e'. f e = Inr e' \<and> entry_ok e' \<and> header e' = header e \<and> count e' = 0"
  using assms by (cases "vals e") (auto simp: resetfn_def resetfn_defs entry_ok_def header_def mem_write_def)

text \<open>A scan keeps the structure well formed; it counts one occurrence, or reports an error and changes nothing.\<close>

definition scan_result :: "arg_entry \<Rightarrow> scanned_entry \<Rightarrow> bool" where
  "scan_result e r =
     (case r of
        Inl _ \<Rightarrow> False
      | Inr (c, e') \<Rightarrow> entry_ok e' \<and> header e' = header e \<and> (if c = 0 then count e' = Suc (count e) else e' = e))"

lemma scan_resultE:
  assumes "scan_result e r"
  obtains c e' where "r = Inr (c, e')" "entry_ok e'" "header e' = header e" "c = 0 \<Longrightarrow> count e' = Suc (count e)" "c \<noteq> 0 \<Longrightarrow> e' = e"
  using assms by (auto simp: scan_result_def split: sum.splits prod.splits if_splits)

lemma scanfn_ok:
  assumes ok: "entry_ok e" and f: "scanfn e = Some f"
  shows "scan_result e (f e argval)"
proof (cases "count e = maxcount e")
  case True
  then have "f e argval = Inr (ARG_ERR_MAXCOUNT, e)" using f by (auto simp: scanfn_def scanfn_defs split: arg_values.splits)
  then show ?thesis using ok by (simp add: scan_result_def ARG_ERR_MAXCOUNT_def)
next
  case False
  then have lt: "count e < maxcount e" using ok by (simp add: entry_ok_def)
  show ?thesis
  proof (cases "vals e")
    case (Ints ival)
    then show ?thesis using f ok lt
      by (auto simp: scan_result_def scanfn_def arg_int_scanfn_def entry_ok_def header_def mem_write_cell arg_err_defs split: option.splits prod.splits if_splits)
  qed (use f ok lt in \<open>auto simp: scan_result_def scanfn_def scanfn_defs entry_ok_def header_def mem_write_cell split: option.splits\<close>)
qed

lemma checkfn_ok: "checkfn e = Some f \<Longrightarrow> f e = 0 \<longleftrightarrow> mincount e \<le> count e"
  by (auto simp: checkfn_def checkfn_count_def arg_err_defs split: if_splits)

section \<open>The value of a number\<close>

lemma of_char_digit: "n < 10 \<Longrightarrow> (of_char (digit_char n) :: nat) = 48 + n"
  by (simp add: digit_char_def)

lemma digit_value_digit: "n < 10 \<Longrightarrow> digit_value 10 (digit_char n) = n"
  by (simp add: digit_value_def of_char_digit)

lemma nat_text_number: "number_value 10 (nat_text n) = n \<and> (\<forall>c \<in> set (nat_text n). digit_value 10 c < 10) \<and> nat_text n \<noteq> []"
proof (induction n rule: nat_text.induct)
  case (1 n)
  then show ?case by (subst (1 2 3) nat_text.simps) (auto simp: number_value_def digit_value_digit)
qed

lemma takeWhile_nat_text:
  assumes "rest = [] \<or> \<not> digit_value 10 (hd rest) < 10"
  shows "takeWhile (\<lambda>c. digit_value 10 c < 10) (nat_text n @ rest) = nat_text n"
  using assms nat_text_number [of n] by (cases rest) (simp_all add: takeWhile_append2 takeWhile_tail)

text \<open>A digit is neither a blank nor a sign, nor one of the letters of the suffixes and prefixes.\<close>

lemma digit_range: "digit_value 10 c < 10 \<Longrightarrow> 48 \<le> (of_char c :: nat) \<and> (of_char c :: nat) \<le> 57"
  by (simp add: digit_value_def Let_def split: if_splits)

lemma digit_plain:
  assumes "digit_value 10 c < 10"
  shows "\<not> isspace c" "c \<noteq> CHR ''+''" "c \<noteq> CHR ''-''" "toupper c = c"
  using digit_range [OF assms] by (auto simp: isspace_def toupper_def)

lemma nat_text_Cons: obtains d ds where "nat_text n = d # ds" "digit_value 10 d < 10"
  using nat_text_number [of n] by (cases "nat_text n") auto

lemma strtol_to_string:
  assumes "rest = [] \<or> \<not> digit_value 10 (hd rest) < 10"
  shows "strtol 10 (to_string n @ rest) = Some (max LONG_MIN (min LONG_MAX n), rest)"
proof -
  obtain d ds where d: "nat_text (nat \<bar>n\<bar>) = d # ds" "digit_value 10 d < 10" by (rule nat_text_Cons)
  note p = digit_plain [OF d(2)]
  have s: "sign_of (dropWhile isspace (to_string n @ rest)) = (n < 0, nat_text (nat \<bar>n\<bar>) @ rest)"
  proof (cases "n < 0")
    case True
    then show ?thesis using d p by (simp add: to_string_def sign_of_def isspace_def)
  next
    case False
    then have "to_string n = d # ds" using d(1) by (simp add: to_string_def)
    then show ?thesis using False d p by (simp add: sign_of_def)
  qed
  have v: "number_value 10 (nat_text (nat \<bar>n\<bar>)) = nat \<bar>n\<bar>" "nat_text (nat \<bar>n\<bar>) \<noteq> []" using nat_text_number by simp_all
  show ?thesis unfolding strtol_def s using v by (simp add: takeWhile_nat_text [OF assms] Let_def nat_text_number)
qed

text \<open>No prefix is found in front of a decimal number.\<close>

lemma strtol0X_to_string:
  assumes x: "\<not> digit_value 10 X < 10" "toupper X = X" and rest: "rest = [] \<or> toupper (hd rest) \<noteq> X"
  shows "strtol0X (to_string n @ rest) X base = None"
proof -
  obtain d ds where d: "nat_text (nat \<bar>n\<bar>) = d # ds" "digit_value 10 d < 10" by (rule nat_text_Cons)
  note p = digit_plain [OF d(2)]
  have s: "sign_of (dropWhile isspace (to_string n @ rest)) = (n < 0, d # ds @ rest)"
  proof (cases "n < 0")
    case True
    then show ?thesis using d p by (simp add: to_string_def sign_of_def isspace_def)
  next
    case False
    then have "to_string n = d # ds" using d(1) by (simp add: to_string_def)
    then show ?thesis using False d p by (simp add: sign_of_def)
  qed
  have "toupper (hd (ds @ rest)) \<noteq> X \<or> ds @ rest = []"
  proof (cases ds)
    case (Cons c cs)
    then have "digit_value 10 c < 10" using nat_text_number [of "nat \<bar>n\<bar>"] d(1) by auto
    then show ?thesis using Cons digit_plain(4) [of c] x(1) by auto
  qed (use rest in auto)
  then show ?thesis unfolding strtol0X_def s using x(2) by (cases "ds @ rest") (simp_all add: eq_commute)
qed

datatype int_unit = Plain | KB | MB | GB

fun unit_text :: "int_unit \<Rightarrow> string" where
  "unit_text Plain = ''''" | "unit_text KB = ''KB''" | "unit_text MB = ''MB''" | "unit_text GB = ''GB''"

fun unit_factor :: "int_unit \<Rightarrow> int" where
  "unit_factor Plain = 1" | "unit_factor KB = 1024" | "unit_factor MB = 1048576" | "unit_factor GB = 1073741824"

lemma int_conversion_to_string:
  "int_conversion (to_string n @ unit_text u) = Some (max LONG_MIN (min LONG_MAX n), unit_text u)"
proof -
  have "strtol0X (to_string n @ unit_text u) X base = None" if "X \<in> set ''XOB''" for X base
    using that by (intro strtol0X_to_string) (cases u; auto simp: digit_value_def toupper_def)+
  moreover have "strtol 10 (to_string n @ unit_text u) = Some (max LONG_MIN (min LONG_MAX n), unit_text u)"
    by (intro strtol_to_string) (cases u; simp add: digit_value_def)
  ultimately show ?thesis by (simp add: int_conversion_def)
qed

lemma apply_suffix_unit:
  "apply_suffix v (unit_text u) c =
     (if u = Plain then (c, v)
      else if INT_MIN \<le> v * unit_factor u \<and> v * unit_factor u \<le> INT_MAX then (c, v * unit_factor u) else (ARG_ERR_OVERFLOW, v))"
  by (cases u) (auto simp: apply_suffix_def toupper_def INT_MIN_def INT_MAX_def)

lemma arg_int_scanfn_value:
  assumes c: "count parent < maxcount parent" and l: "length ival = maxcount parent" and v_def: "v = n * unit_factor u"
  shows "arg_int_scanfn parent ival (Some (to_string n @ unit_text u)) =
    (if INT_MIN \<le> v \<and> v \<le> INT_MAX then Inr (0, parent\<lparr>count := Suc (count parent), vals := Ints (ival[count parent := v])\<rparr>)
     else Inr (ARG_ERR_OVERFLOW, parent))"
proof -
  let ?m = "max LONG_MIN (min LONG_MAX n)"
  let ?r = "apply_suffix ?m (unit_text u) (if ?m > INT_MAX \<or> ?m < INT_MIN then ARG_ERR_OVERFLOW else 0)"
  have r: "if INT_MIN \<le> v \<and> v \<le> INT_MAX then ?r = (0, v) else fst ?r = ARG_ERR_OVERFLOW"
    unfolding apply_suffix_unit v_def
    by (cases u) (auto simp: LONG_MIN_def LONG_MAX_def INT_MIN_def INT_MAX_def max_def min_def)
  have w: "(v - INT_MIN) mod 2 ^ 32 + INT_MIN = v" if "INT_MIN \<le> v" "v \<le> INT_MAX"
    using that by (simp add: INT_MIN_def INT_MAX_def)
  show ?thesis
    using c l r w
    by (cases ?r) (auto simp: arg_int_scanfn_def int_conversion_to_string mem_write_cell arg_err_defs split: if_splits)
qed

end
