(* ===== verification/ArgParse.thy ===== *)
theory ArgParse
  imports GetoptProofs ArgTypes
begin

text \<open>
  \<open>arg_parse\<close> of argtable3 (deps/argtable/argtable3.c, lines 4845 to 5262): the tables handed to \<open>getopt_long\<close>, the tagged
  and the untagged words, the checks after the parse and the errors it registers. An argument table is the list of its
  entries in front of the terminator, and the terminator itself; a pointer to a parent is the index of an entry, or the
  terminator; the index left behind after the untagged words is not kept, since every parse sets it to 0 first. The three parallel arrays of the terminator are one list of slots, not written yet at first.
\<close>

section \<open>Errors\<close>

datatype parent = Entry nat | Terminator

record error_slot =
  error :: int
  error_parent :: parent
  argval :: "string option"

record arg_end =
  end_maxcount :: nat
  end_count :: nat
  slots :: "error_slot option list"

record argtable =
  entries :: "arg_entry list"
  endtable :: arg_end

definition ARG_ELIMIT :: int where "ARG_ELIMIT = 1"
definition ARG_ENOMATCH :: int where "ARG_ENOMATCH = 3"
definition ARG_ELONGOPT :: int where "ARG_ELONGOPT = 4"
definition ARG_EMISSARG :: int where "ARG_EMISSARG = 5"

definition arg_end :: "nat \<Rightarrow> arg_end" where
  "arg_end n = \<lparr>end_maxcount = n, end_count = 0, slots = replicate n None\<rparr>"

definition arg_end_resetfn :: "arg_end \<Rightarrow> arg_end" where
  "arg_end_resetfn e = e\<lparr>end_count := 0\<rparr>"

definition arg_register_error :: "arg_end \<Rightarrow> parent \<Rightarrow> int \<Rightarrow> string option \<Rightarrow> arg_end outcome" where
  "arg_register_error e p err a =
     (if end_count e < end_maxcount e
      then obind (mem_write (slots e) (end_count e) [Some \<lparr>error = err, error_parent = p, argval = a\<rparr>]) (\<lambda>s.
           Inr (e\<lparr>slots := s, end_count := end_count e + 1\<rparr>))
      else if end_maxcount e = 0 then Inl Out_of_bounds
      else obind (mem_write (slots e) (end_maxcount e - 1) [Some \<lparr>error = ARG_ELIMIT, error_parent = Terminator, argval = None\<rparr>]) (\<lambda>s.
           Inr (e\<lparr>slots := s\<rparr>)))"

definition register :: "argtable \<Rightarrow> parent \<Rightarrow> int \<Rightarrow> string option \<Rightarrow> argtable outcome" where
  "register t p err a = obind (arg_register_error (endtable t) p err a) (\<lambda>e. Inr (t\<lparr>endtable := e\<rparr>))"

section \<open>The tables for getopt\<close>

fun find_shortoption_from :: "nat \<Rightarrow> arg_entry list \<Rightarrow> char \<Rightarrow> nat option" where
  "find_shortoption_from i [] c = None"
| "find_shortoption_from i (e # es) c =
     (if (case shortopts e of None \<Rightarrow> False | Some s \<Rightarrow> c \<in> set s) then Some i else find_shortoption_from (Suc i) es c)"

definition find_shortoption :: "argtable \<Rightarrow> char \<Rightarrow> nat option" where
  "find_shortoption t c = find_shortoption_from 0 (entries t) c"

text \<open>The long names of an entry, separated by commas.\<close>

function long_names :: "string \<Rightarrow> string list" where
  "long_names s =
     (if s = [] then []
      else takeWhile (\<lambda>c. c \<noteq> CHR '','') s # long_names (tl (dropWhile (\<lambda>c. c \<noteq> CHR '','') s)))"
  by pat_completeness auto

termination long_names
proof (relation "measure length")
  fix s :: string
  assume "s \<noteq> []"
  then show "(tl (dropWhile (\<lambda>c. c \<noteq> CHR '','') s), s) \<in> measure length"
    using length_dropWhile_le [of "\<lambda>c. c \<noteq> CHR '',''" s] by (cases s) (auto simp: less_Suc_eq_le le_diff_conv)
qed simp

declare long_names.simps [simp del]

text \<open>
  The number of names the first loop counts for an entry. It starts to look for commas at the second character, which for
  an empty text is behind the terminator.
\<close>

definition count_names :: "string option \<Rightarrow> nat outcome" where
  "count_names lo =
     (case lo of
        None \<Rightarrow> Inr 0
      | Some [] \<Rightarrow> Inl Out_of_bounds
      | Some (c # cs) \<Rightarrow> Inr (Suc (length (filter (\<lambda>c. c = CHR '','') cs))))"

fun count_options :: "arg_entry list \<Rightarrow> nat outcome" where
  "count_options [] = Inr 1"
| "count_options (e # es) = obind (count_names (longopts e)) (\<lambda>n. obind (count_options es) (\<lambda>m. Inr (n + m)))"

definition longopt_chars :: "arg_entry list \<Rightarrow> nat" where
  "longopt_chars es = sum_list (map (\<lambda>e. (case longopts e of None \<Rightarrow> 0 | Some s \<Rightarrow> length s) + 1) es) + 1"

definition entry_names :: "arg_entry \<Rightarrow> string list" where
  "entry_names e = (case longopts e of None \<Rightarrow> [] | Some s \<Rightarrow> long_names s)"

definition entry_options :: "nat \<times> arg_entry \<Rightarrow> long_option list" where
  "entry_options ie =
     (case ie of (tabindex, e) \<Rightarrow>
        map (\<lambda>name. \<lparr>opt_name = name, opt_has_arg = (if has_optvalue e then 2 else if has_value e then 1 else 0),
                     opt_flag = True, opt_val = int tabindex\<rparr>)
            (entry_names e))"

definition alloc_longoptions :: "argtable \<Rightarrow> long_option list outcome" where
  "alloc_longoptions t =
     obind (count_options (entries t)) (\<lambda>noptions.
       let options = concat (map entry_options (enumerate 0 (entries t)));
           store = concat (map (\<lambda>l. opt_name l @ [CHR 0x00]) options)
       in if length options < noptions \<and> length store \<le> longopt_chars (entries t) then Inr options else Inl Out_of_bounds)"

definition short_letters :: "arg_entry \<Rightarrow> string" where
  "short_letters e =
     (case shortopts e of
        None \<Rightarrow> []
      | Some s \<Rightarrow> concat (map (\<lambda>c. [c] @ (if has_value e then '':'' else []) @ (if has_optvalue e then '':'' else [])) s))"

definition alloc_shortoptions :: "argtable \<Rightarrow> string outcome" where
  "alloc_shortoptions t =
     (let len = 2 + sum_list (map (\<lambda>e. 3 * (case shortopts e of None \<Rightarrow> 0 | Some s \<Rightarrow> length s)) (entries t));
          result = '':'' @ concat (map short_letters (entries t))
      in if length result + 1 \<le> len then Inr result else Inl Out_of_bounds)"

section \<open>Tagged words\<close>

text \<open>The value of an option goes to the scan function of its entry, if it has one.\<close>

definition scan_entry :: "argtable \<Rightarrow> nat \<Rightarrow> string option \<Rightarrow> argtable outcome" where
  "scan_entry t i a =
     (case scanfn (entries t ! i) of
        None \<Rightarrow> Inr t
      | Some f \<Rightarrow>
          obind (f (entries t ! i) a) (\<lambda>(errorcode, e).
            let t = t\<lparr>entries := (entries t)[i := e]\<rparr>
            in if errorcode \<noteq> 0 then register t (Entry i) errorcode a else Inr t))"

definition long_case :: "getopt \<Rightarrow> argtable \<Rightarrow> argtable outcome" where
  "long_case st t =
     (let tabindex = nat (flag_value st)
      in if flag_value st < 0 \<or> tabindex \<ge> length (entries t) then Inl Out_of_bounds
         else obind (if optarg st = Some [] \<and> has_value (entries t ! tabindex)
                     then register t Terminator ARG_EMISSARG (Some (nargv st ! (optind st - 1))) else Inr t) (\<lambda>t.
              scan_entry t tabindex (optarg st)))"

definition short_case :: "int \<Rightarrow> getopt \<Rightarrow> argtable \<Rightarrow> argtable outcome" where
  "short_case copt st t =
     (case find_shortoption t (char_of (nat (copt mod 256))) of
        None \<Rightarrow> register t Terminator copt None
      | Some tabindex \<Rightarrow> scan_entry t tabindex (optarg st))"

definition parse_option :: "int \<Rightarrow> getopt \<Rightarrow> argtable outcome \<Rightarrow> argtable outcome" where
  "parse_option copt st r =
     obind r (\<lambda>t.
       if copt = 0 then long_case st t
       else if copt = signed_char (CHR ''?'')
       then if optopt st = 0 then register t Terminator ARG_ELONGOPT (Some (nargv st ! (optind st - 1)))
            else register t Terminator (optopt st) None
       else if copt = signed_char (CHR '':'') then register t Terminator ARG_EMISSARG (Some (nargv st ! (optind st - 1)))
       else short_case copt st t)"

definition arg_parse_tagged :: "bool \<Rightarrow> string list \<Rightarrow> argtable \<Rightarrow> getopt \<Rightarrow> (getopt \<times> argtable) outcome option" where
  "arg_parse_tagged posixly_correct argv t st =
     (case alloc_longoptions t of
        Inl e \<Rightarrow> Some (Inl e)
      | Inr longoptions \<Rightarrow>
          (case alloc_shortoptions t of
             Inl e \<Rightarrow> Some (Inl e)
           | Inr shortoptions \<Rightarrow>
               (case getopt_loop posixly_correct parse_option shortoptions longoptions (st\<lparr>nargv := argv, optind := 0\<rparr>) (Inr t) of
                  None \<Rightarrow> None
                | Some (st, r) \<Rightarrow> Some (obind r (\<lambda>t. Inr (st, t))))))"

section \<open>Untagged words\<close>

text \<open>The loop over the entries; \<open>lasterr\<close> is the tentative error with its entry and word. The result is the table, the index and that error, none when the words are used up.\<close>

function untagged_loop ::
  "string list \<Rightarrow> nat \<Rightarrow> nat \<Rightarrow> argtable \<Rightarrow> (int \<times> nat \<times> string) option \<Rightarrow> (nat \<times> argtable \<times> (int \<times> nat \<times> string) option) outcome" where
  "untagged_loop argv tabindex k t lasterr =
     (if tabindex \<ge> length (entries t) then Inr (k, t, lasterr)
      else if k \<ge> length argv then Inr (k, t, None)
      else let e = entries t ! tabindex
           in if longopts e \<noteq> None \<or> shortopts e \<noteq> None then untagged_loop argv (Suc tabindex) k t lasterr
              else case scanfn e of
                None \<Rightarrow> untagged_loop argv (Suc tabindex) k t lasterr
              | Some f \<Rightarrow>
                  obind (f e (Some (argv ! k))) (\<lambda>(errorcode, e').
                    let t' = t\<lparr>entries := (entries t)[tabindex := e']\<rparr>
                    in if errorcode = 0 then untagged_loop argv tabindex (Suc k) t' None
                       else untagged_loop argv (Suc tabindex) k t' (Some (errorcode, tabindex, argv ! k))))"
  by pat_completeness auto

termination untagged_loop
  by (relation "measure (\<lambda>(argv, tabindex, k, t, lasterr). (length (entries t) - tabindex) + (length argv - k))") auto

declare untagged_loop.simps [simp del]

fun unused_words :: "string list \<Rightarrow> argtable \<Rightarrow> argtable outcome" where
  "unused_words [] t = Inr t"
| "unused_words (w # ws) t = obind (register t Terminator ARG_ENOMATCH (Some w)) (unused_words ws)"

definition arg_parse_untagged :: "string list \<Rightarrow> nat \<Rightarrow> argtable \<Rightarrow> argtable outcome" where
  "arg_parse_untagged argv k t =
     obind (untagged_loop argv 0 k t None) (\<lambda>(k, t, lasterr).
       case lasterr of
         None \<Rightarrow> unused_words (drop k argv) t
       | Some (errorcode, i, w) \<Rightarrow> obind (register t (Entry i) errorcode (Some w)) (unused_words (drop (Suc k) argv)))"

section \<open>The parser\<close>

fun check_entries :: "nat \<Rightarrow> arg_entry list \<Rightarrow> argtable \<Rightarrow> argtable outcome" where
  "check_entries i [] t = Inr t"
| "check_entries i (e # es) t =
     (case checkfn e of
        None \<Rightarrow> check_entries (Suc i) es t
      | Some f \<Rightarrow>
          if f e \<noteq> 0 then obind (register t (Entry i) (f e) None) (check_entries (Suc i) es)
          else check_entries (Suc i) es t)"

definition arg_parse_check :: "argtable \<Rightarrow> argtable outcome" where
  "arg_parse_check t = check_entries 0 (entries t) t"

fun reset_entries :: "arg_entry list \<Rightarrow> arg_entry list outcome" where
  "reset_entries [] = Inr []"
| "reset_entries (e # es) =
     obind (case resetfn e of None \<Rightarrow> Inr e | Some f \<Rightarrow> f e) (\<lambda>e. obind (reset_entries es) (\<lambda>es. Inr (e # es)))"

definition arg_reset :: "argtable \<Rightarrow> argtable outcome" where
  "arg_reset t = obind (reset_entries (entries t)) (\<lambda>es. Inr \<lparr>entries = es, endtable = arg_end_resetfn (endtable t)\<rparr>)"

definition arg_parse :: "bool \<Rightarrow> string list \<Rightarrow> argtable \<Rightarrow> getopt \<Rightarrow> (nat \<times> argtable \<times> getopt) outcome option" where
  "arg_parse posixly_correct argv t st =
     (case arg_reset t of
        Inl e \<Rightarrow> Some (Inl e)
      | Inr t \<Rightarrow>
          if argv = [] then Some (obind (arg_parse_check t) (\<lambda>t. Inr (end_count (endtable t), t, st)))
          else case arg_parse_tagged posixly_correct argv t st of
            None \<Rightarrow> None
          | Some r \<Rightarrow>
              Some (obind r (\<lambda>(st, t).
                    obind (arg_parse_untagged (nargv st) (optind st) t) (\<lambda>t.
                    obind (if end_count (endtable t) = 0 then arg_parse_check t else Inr t) (\<lambda>t.
                    Inr (end_count (endtable t), t, st))))))"

section \<open>What every step keeps\<close>

definition end_ok :: "arg_end \<Rightarrow> bool" where
  "end_ok e = (0 < end_maxcount e \<and> length (slots e) = end_maxcount e \<and> end_count e \<le> end_maxcount e)"

definition names_ok :: "arg_entry \<Rightarrow> bool" where
  "names_ok e =
     ((case shortopts e of None \<Rightarrow> True | Some s \<Rightarrow> CHR 0x00 \<notin> set s \<and> CHR 0xFF \<notin> set s) \<and>
      (case longopts e of None \<Rightarrow> True | Some s \<Rightarrow> s \<noteq> [] \<and> hd s \<noteq> CHR '',''))"

definition table_ok :: "argtable \<Rightarrow> bool" where
  "table_ok t = (end_ok (endtable t) \<and> list_all entry_ok (entries t) \<and> list_all names_ok (entries t))"

definition follows :: "argtable \<Rightarrow> argtable \<Rightarrow> bool" where
  "follows t t' =
     (map header (entries t') = map header (entries t) \<and> end_maxcount (endtable t') = end_maxcount (endtable t) \<and>
      end_count (endtable t) \<le> end_count (endtable t'))"

definition step_ok :: "argtable \<Rightarrow> argtable outcome \<Rightarrow> bool" where
  "step_ok t r = (\<exists>t'. r = Inr t' \<and> table_ok t' \<and> follows t t')"

lemma step_okE:
  assumes "step_ok t r" obtains t' where "r = Inr t'" "table_ok t'" "follows t t'"
  using assms by (auto simp: step_ok_def)

lemma follows_refl [simp]: "follows t t"
  by (simp add: follows_def)

lemma follows_trans: "follows t t' \<Longrightarrow> follows t' t'' \<Longrightarrow> follows t t''"
  by (simp add: follows_def)

lemma follows_length: "follows t t' \<Longrightarrow> length (entries t') = length (entries t)"
  by (auto simp: follows_def dest: map_eq_imp_length_eq)

lemma step_ok_Inr [simp]: "step_ok t (Inr t') \<longleftrightarrow> table_ok t' \<and> follows t t'"
  by (simp add: step_ok_def)

lemma step_ok_bind:
  assumes "step_ok t r" "\<And>t'. r = Inr t' \<Longrightarrow> table_ok t' \<Longrightarrow> follows t t' \<Longrightarrow> step_ok t' (f t')"
  shows "step_ok t (obind r f)"
proof -
  obtain t' where t': "r = Inr t'" "table_ok t'" "follows t t'" using assms(1) by (rule step_okE)
  obtain t'' where "f t' = Inr t''" "table_ok t''" "follows t' t''" using assms(2) [OF t'] by (rule step_okE)
  then show ?thesis using t' follows_trans by simp
qed

lemma names_ok_header: "header e = header e' \<Longrightarrow> names_ok e \<longleftrightarrow> names_ok e'"
  using header_eqD(3,4) [of e e'] by (simp add: names_ok_def)

lemma register_ok:
  assumes "table_ok t"
  shows "step_ok t (register t p c a)" "register t p c a = Inr t' \<Longrightarrow> entries t' = entries t" "register t p c a = Inr t' \<Longrightarrow> 0 < end_count (endtable t')"
  using assms by (simp_all add: register_def arg_register_error_def table_ok_def end_ok_def follows_def mem_write_cell split: if_splits) auto

lemma scan_update:
  assumes t: "table_ok t" and i: "i < length (entries t)" and s: "scanfn (entries t ! i) = Some f"
  shows "\<exists>c e'. f (entries t ! i) a = Inr (c, e') \<and> table_ok (t\<lparr>entries := (entries t)[i := e']\<rparr>) \<and>
    follows t (t\<lparr>entries := (entries t)[i := e']\<rparr>)"
proof -
  have "entry_ok (entries t ! i)" using t i by (simp add: table_ok_def list_all_length)
  then obtain c e' where f: "f (entries t ! i) a = Inr (c, e')" and e: "entry_ok e'" "header e' = header (entries t ! i)"
    using scanfn_ok [OF _ s, of a] by (auto elim: scan_resultE)
  let ?t = "t\<lparr>entries := (entries t)[i := e']\<rparr>"
  have "names_ok e'" using t i names_ok_header [OF e(2)] by (simp add: table_ok_def list_all_length)
  then have ok: "table_ok ?t" using t i e(1) by (auto simp: table_ok_def list_all_length nth_list_update)
  have "map header ((entries t)[i := e']) = map header (entries t)" using i by (simp add: map_update e(2) flip: nth_map)
  then show ?thesis using f ok by (simp add: follows_def)
qed

lemma scan_entry_ok:
  assumes t: "table_ok t" and i: "i < length (entries t)"
  shows "step_ok t (scan_entry t i a)"
proof (cases "scanfn (entries t ! i)")
  case None
  then show ?thesis using t by (simp add: scan_entry_def)
next
  case (Some f)
  obtain c e' where f: "f (entries t ! i) a = Inr (c, e')" and e: "table_ok (t\<lparr>entries := (entries t)[i := e']\<rparr>)"
      "follows t (t\<lparr>entries := (entries t)[i := e']\<rparr>)"
    using scan_update [OF t i Some] by blast
  let ?t = "t\<lparr>entries := (entries t)[i := e']\<rparr>"
  have "step_ok ?t (register ?t (Entry i) c a)" by (rule register_ok(1) [OF e(1)])
  then have "step_ok t (register ?t (Entry i) c a)" using e(2) by (auto simp: step_ok_def intro: follows_trans)
  then show ?thesis using Some f e by (simp add: scan_entry_def Let_def)
qed

lemma find_shortoption_from_bound: "find_shortoption_from i es c = Some k \<Longrightarrow> i \<le> k \<and> k < i + length es"
  by (induction es arbitrary: i) (fastforce split: if_splits)+

lemma short_case_ok: "table_ok t \<Longrightarrow> step_ok t (short_case copt st t)"
  using find_shortoption_from_bound [of 0 "entries t"]
  by (auto simp: short_case_def find_shortoption_def register_ok(1) intro: scan_entry_ok split: option.split)

lemma long_case_ok:
  assumes t: "table_ok t" and f: "0 \<le> flag_value st" "nat (flag_value st) < length (entries t)"
  shows "step_ok t (long_case st t)"
proof -
  let ?i = "nat (flag_value st)"
  let ?r = "if optarg st = Some [] \<and> has_value (entries t ! ?i) then register t Terminator ARG_EMISSARG (Some (nargv st ! (optind st - 1))) else Inr t"
  have "step_ok t ?r" using t by (simp add: register_ok(1))
  then have "step_ok t (obind ?r (\<lambda>t. scan_entry t ?i (optarg st)))"
    by (rule step_ok_bind) (use f(2) in \<open>simp add: scan_entry_ok follows_length\<close>)
  then show ?thesis using f by (simp add: long_case_def Let_def)
qed

lemma parse_option_ok:
  assumes "step_ok t r" "copt = 0 \<Longrightarrow> 0 \<le> flag_value st \<and> nat (flag_value st) < length (entries t)"
  shows "step_ok t (parse_option copt st r)"
  unfolding parse_option_def
  by (rule step_ok_bind [OF assms(1)]) (use assms(2) in \<open>simp add: register_ok(1) long_case_ok short_case_ok follows_length\<close>)

lemma unused_words_ok: "table_ok t \<Longrightarrow> step_ok t (unused_words ws t)"
proof (induction ws arbitrary: t)
  case (Cons w ws)
  show ?case unfolding unused_words.simps by (rule step_ok_bind [OF register_ok(1) [OF Cons.prems]]) (rule Cons.IH)
qed simp

lemma untagged_loop_ok:
  "table_ok t \<Longrightarrow> \<exists>k' t' l. untagged_loop argv i k t lasterr = Inr (k', t', l) \<and> table_ok t' \<and> follows t t'"
proof (induction argv i k t lasterr rule: untagged_loop.induct)
  case (1 argv i k t lasterr)
  let ?e = "entries t ! i"
  show ?case
  proof (cases "i < length (entries t) \<and> k < length argv \<and> longopts ?e = None \<and> shortopts ?e = None \<and> scanfn ?e \<noteq> None")
    case False
    then show ?thesis using 1(1,2,5) by (subst untagged_loop.simps) (auto simp: Let_def split: option.split)
  next
    case True
    then obtain f where f: "scanfn ?e = Some f" by auto
    obtain c e' where r: "f ?e (Some (argv ! k)) = Inr (c, e')" and e: "table_ok (t\<lparr>entries := (entries t)[i := e']\<rparr>)"
        "follows t (t\<lparr>entries := (entries t)[i := e']\<rparr>)"
      using scan_update [OF 1(5) _ f] True by blast
    have u: "untagged_loop argv i k t lasterr =
        (let t' = t\<lparr>entries := (entries t)[i := e']\<rparr>
         in if c = 0 then untagged_loop argv i (Suc k) t' None else untagged_loop argv (Suc i) k t' (Some (c, i, argv ! k)))"
      using True f r by (subst untagged_loop.simps) simp
    show ?thesis
    proof (cases "c = 0")
      case True': True
      then show ?thesis unfolding u using 1(3) [OF _ _ refl _ f r refl refl True' e(1)] True e(2)
        by (simp add: Let_def) (meson follows_trans)
    next
      case False': False
      then show ?thesis unfolding u using 1(4) [OF _ _ refl _ f r refl refl False' e(1)] True e(2)
        by (simp add: Let_def) (meson follows_trans)
    qed
  qed
qed

section \<open>The tables are large enough\<close>

lemma long_names_bounds:
  "length (long_names s) \<le> Suc (length (filter (\<lambda>c. c = CHR '','') s))" "sum_list (map (\<lambda>n. Suc (length n)) (long_names s)) \<le> Suc (length s)"
proof -
  have "length (long_names s) \<le> Suc (length (filter (\<lambda>c. c = CHR '','') s)) \<and>
    sum_list (map (\<lambda>n. Suc (length n)) (long_names s)) \<le> (if s = [] then 0 else Suc (length s))"
  proof (induction s rule: long_names.induct)
    case (1 s)
    let ?p = "takeWhile (\<lambda>c. c \<noteq> CHR '','') s" and ?r = "dropWhile (\<lambda>c. c \<noteq> CHR '','') s"
    show ?case
    proof (cases "s = []")
      case False
      have s: "s = ?p @ ?r" by simp
      have n: "long_names s = ?p # long_names (tl ?r)" using False by (subst long_names.simps) simp
      show ?thesis
      proof (cases ?r)
        case Nil
        then have "long_names s = ?p # long_names []" using n by (metis list.sel(2))
        then show ?thesis using False length_takeWhile_le [of "\<lambda>c. c \<noteq> CHR '',''" s] by (simp add: long_names.simps [of "[]"])
      next
        case (Cons c r)
        then have c: "c = CHR '',''" using hd_dropWhile [of "\<lambda>c. c \<noteq> CHR '',''" s] by simp
        have "length s = length ?p + Suc (length r)" using arg_cong [OF s, of length] Cons by simp
        moreover have "length (filter (\<lambda>c. c = CHR '','') s) = Suc (length (filter (\<lambda>c. c = CHR '','') r))"
          using arg_cong [OF s, of "\<lambda>s. length (filter (\<lambda>c. c = CHR '','') s)"] Cons c by (auto simp: filter_empty_conv dest: set_takeWhileD)
        ultimately show ?thesis using 1 [OF False] n Cons by (auto split: if_splits)
      qed
    qed (simp add: long_names.simps)
  qed
  then show "length (long_names s) \<le> Suc (length (filter (\<lambda>c. c = CHR '','') s))" "sum_list (map (\<lambda>n. Suc (length n)) (long_names s)) \<le> Suc (length s)"
    by (auto split: if_splits)
qed

lemma count_options_bound:
  "list_all names_ok es \<Longrightarrow> \<exists>n. count_options es = Inr (Suc n) \<and> length (concat (map entry_names es)) \<le> n"
proof (induction es)
  case (Cons e es)
  then obtain n where n: "count_options es = Inr (Suc n)" "length (concat (map entry_names es)) \<le> n" by auto
  show ?case
  proof (cases "longopts e")
    case None
    then show ?thesis using n by (simp add: count_names_def entry_names_def [of e])
  next
    case (Some s)
    then obtain c cs where s: "s = c # cs" "c \<noteq> CHR '',''" using Cons.prems by (cases s) (auto simp: names_ok_def)
    then show ?thesis using n Some long_names_bounds(1) [of s] by (simp add: count_names_def entry_names_def [of e])
  qed
qed simp

lemma entry_options_names: "map opt_name (concat (map entry_options (enumerate k es))) = concat (map entry_names es)"
  by (induction es arbitrary: k) (simp_all add: entry_options_def comp_def)

lemma entry_names_chars: "sum_list (map (\<lambda>n. Suc (length n)) (concat (map entry_names es))) < longopt_chars es"
proof (induction es)
  case (Cons e es)
  have "sum_list (map (\<lambda>n. Suc (length n)) (entry_names e)) \<le> (case longopts e of None \<Rightarrow> 0 | Some s \<Rightarrow> length s) + 1"
    using long_names_bounds(2) by (auto simp: entry_names_def split: option.split)
  then show ?case using Cons by (simp add: longopt_chars_def)
qed (simp add: longopt_chars_def)

lemma entry_options_mem: "l \<in> set (concat (map entry_options (enumerate k es))) \<Longrightarrow> opt_flag l \<and> int k \<le> opt_val l \<and> opt_val l < int (k + length es)"
  by (induction es arbitrary: k) (fastforce simp: entry_options_def)+

definition longoptions :: "argtable \<Rightarrow> long_option list" where
  "longoptions t = concat (map entry_options (enumerate 0 (entries t)))"

definition shortoptions :: "argtable \<Rightarrow> string" where
  "shortoptions t = '':'' @ concat (map short_letters (entries t))"

lemma alloc_longoptions_ok:
  assumes "list_all names_ok (entries t)"
  shows "alloc_longoptions t = Inr (longoptions t)"
proof -
  obtain n where n: "count_options (entries t) = Inr (Suc n)" "length (concat (map entry_names (entries t))) \<le> n"
    using count_options_bound [OF assms] by auto
  have "length (longoptions t) = length (concat (map entry_names (entries t)))"
    using arg_cong [OF entry_options_names, of length 0 "entries t"] by (simp add: longoptions_def)
  moreover have "length (concat (map (\<lambda>l. opt_name l @ [CHR 0x00]) (longoptions t))) = sum_list (map (\<lambda>n. Suc (length n)) (map opt_name (longoptions t)))"
    by (simp add: length_concat comp_def)
  moreover have "map opt_name (longoptions t) = concat (map entry_names (entries t))" by (simp add: longoptions_def entry_options_names)
  ultimately show ?thesis
    using n entry_names_chars [of "entries t"] by (simp add: alloc_longoptions_def Let_def flip: longoptions_def)
qed

lemma short_letters_length: "length (short_letters e) \<le> 3 * (case shortopts e of None \<Rightarrow> 0 | Some s \<Rightarrow> length s)"
proof (cases "shortopts e")
  case (Some s)
  have "length (short_letters e) = (if has_value e then if has_optvalue e then 3 else 2 else if has_optvalue e then 2 else 1) * length s"
    using Some by (simp add: short_letters_def length_concat comp_def sum_list_triv)
  then show ?thesis using Some by simp
qed (simp add: short_letters_def)

lemma alloc_shortoptions_ok: "alloc_shortoptions t = Inr (shortoptions t)"
proof -
  have "length (concat (map short_letters es)) \<le> sum_list (map (\<lambda>e. 3 * (case shortopts e of None \<Rightarrow> 0 | Some s \<Rightarrow> length s)) es)" for es
    using add_mono [OF short_letters_length] by (induction es) auto
  then show ?thesis by (simp add: alloc_shortoptions_def shortoptions_def Let_def)
qed

lemma short_letters_mem: "c \<in> set (short_letters e) \<Longrightarrow> c = CHR '':'' \<or> (\<exists>s. shortopts e = Some s \<and> c \<in> set s)"
  by (auto simp: short_letters_def split: option.splits if_splits)

lemma option_table_ok:
  assumes "list_all names_ok (entries t)"
  shows "option_table (shortoptions t) (longoptions t)" "CHR 0x00 \<notin> set (shortoptions t)"
proof -
  have sh: "c \<noteq> CHR 0x00 \<and> c \<noteq> CHR 0xFF" if c: "c \<in> set (shortoptions t)" for c
  proof (cases "c = CHR '':''")
    case False
    then obtain e where e: "e \<in> set (entries t)" "c \<in> set (short_letters e)" using c by (auto simp: shortoptions_def)
    then obtain s where "shortopts e = Some s" "c \<in> set s" using short_letters_mem False by blast
    moreover have "names_ok e" using assms e(1) by (simp add: list_all_iff)
    ultimately show ?thesis by (auto simp: names_ok_def)
  qed simp
  have "opt_flag l" if "l \<in> set (longoptions t)" for l using entry_options_mem that unfolding longoptions_def by blast
  moreover have "first_char (shortoptions t) = CHR '':''" by (simp add: shortoptions_def first_char_def letter_at_def)
  ultimately show "option_table (shortoptions t) (longoptions t)" using sh by (auto simp: option_table_def list_all_iff)
  show "CHR 0x00 \<notin> set (shortoptions t)" using sh by blast
qed

section \<open>The parse returns\<close>

lemma arg_parse_tagged_ok:
  assumes t: "table_ok t" and argv: "argv \<noteq> []"
  shows "\<exists>st' t'. arg_parse_tagged posixly_correct argv t st = Some (Inr (st', t')) \<and> table_ok t' \<and> follows t t' \<and>
    stopped (\<not> posixly_correct) (shortoptions t) argv st'"
proof -
  have n: "list_all names_ok (entries t)" using t by (simp add: table_ok_def)
  note tb = option_table_ok [OF n]
  let ?st = "st\<lparr>nargv := argv, optind := 0\<rparr>"
  have step: "step_ok t (parse_option r st' s)"
    if g: "getopt_long posixly_correct (shortoptions t) (longoptions t) st0 = (r, st')" and s: "step_ok t s" for st0 r st' s
  proof (rule parse_option_ok [OF s])
    assume "r = 0"
    then obtain l where "l \<in> set (longoptions t)" "flag_value st' = opt_val l" using getopt_long_zero [OF _ tb] g by blast
    then show "0 \<le> flag_value st' \<and> nat (flag_value st') < length (entries t)"
      using entry_options_mem [of l 0 "entries t"] by (auto simp: longoptions_def nat_less_iff)
  qed
  have "\<exists>st' s'. getopt_loop posixly_correct parse_option (shortoptions t) (longoptions t) (first_state ?st) (Inr t) = Some (st', s') \<and>
      stopped (\<not> posixly_correct) (shortoptions t) argv st' \<and> step_ok t s'"
    by (rule getopt_loop_invariant [where P = "step_ok t", OF tb(1)]) (use t argv in \<open>auto intro: step first_state_ok\<close>)
  then show ?thesis
    using getopt_loop_first [of ?st posixly_correct parse_option "shortoptions t" "longoptions t" "Inr t"]
    by (auto simp: arg_parse_tagged_def alloc_longoptions_ok [OF n] alloc_shortoptions_ok elim!: step_okE)
qed

lemma arg_parse_untagged_ok:
  assumes "table_ok t"
  shows "step_ok t (arg_parse_untagged argv k t)"
proof -
  obtain k' t' l where u: "untagged_loop argv 0 k t None = Inr (k', t', l)" "table_ok t'" "follows t t'"
    using untagged_loop_ok [OF assms] by blast
  have "step_ok t' (unused_words ws t')" for ws by (rule unused_words_ok [OF u(2)])
  moreover have "step_ok t' (obind (register t' p c a) (unused_words ws))" for p c a ws
    by (rule step_ok_bind [OF register_ok(1) [OF u(2)]]) (rule unused_words_ok)
  ultimately have "step_ok t' (case l of None \<Rightarrow> unused_words (drop k' argv) t'
      | Some (c, i, w) \<Rightarrow> obind (register t' (Entry i) c (Some w)) (unused_words (drop (Suc k') argv)))"
    by (simp split: option.split)
  then show ?thesis using u(1,3) by (auto simp: arg_parse_untagged_def step_ok_def intro: follows_trans)
qed

text \<open>The number of occurrences the check asks for.\<close>

definition counted :: "arg_entry \<Rightarrow> bool" where
  "counted e = (vals e \<noteq> Rem \<longrightarrow> mincount e \<le> count e)"

lemma check_entries_ok:
  "table_ok t \<Longrightarrow> \<exists>t'. check_entries i es t = Inr t' \<and> table_ok t' \<and> follows t t' \<and> entries t' = entries t \<and>
     (end_count (endtable t') = 0 \<longrightarrow> list_all counted es)"
proof (induction es arbitrary: i t)
  case (Cons e es)
  show ?case
  proof (cases "counted e")
    case True
    then show ?thesis using Cons.IH [OF Cons.prems] by (auto simp: counted_def checkfn_def checkfn_count_def)
  next
    case False
    let ?c = "checkfn_count e"
    have c: "checkfn e = Some checkfn_count" "?c \<noteq> 0" using False by (auto simp: counted_def checkfn_def checkfn_count_def ARG_ERR_MINCOUNT_def)
    obtain t1 where t1: "register t (Entry i) ?c None = Inr t1" "table_ok t1" "follows t t1"
      using register_ok(1) [OF Cons.prems] by (rule step_okE)
    note r = register_ok(2,3) [OF Cons.prems t1(1)]
    obtain t' where "check_entries (Suc i) es t1 = Inr t'" "table_ok t'" "follows t1 t'" "entries t' = entries t1" using Cons.IH [OF t1(2)] by blast
    moreover have "0 < end_count (endtable t')" using r(2) \<open>follows t1 t'\<close> by (simp add: follows_def)
    ultimately show ?thesis using c t1 r(1) follows_trans [of t t1 t'] by simp
  qed
qed simp

lemma reset_entries_ok:
  "list_all entry_ok es \<Longrightarrow> \<exists>es'. reset_entries es = Inr es' \<and> list_all entry_ok es' \<and> map header es' = map header es"
proof (induction es)
  case (Cons e es)
  have "\<exists>e'. (case resetfn e of None \<Rightarrow> Inr e | Some f \<Rightarrow> f e) = Inr e' \<and> entry_ok e' \<and> header e' = header e"
    using resetfn_ok [of e] Cons.prems by (cases "resetfn e") auto
  then show ?case using Cons by auto
qed simp

lemma names_ok_headers: "map header es = map header es' \<Longrightarrow> list_all names_ok es \<longleftrightarrow> list_all names_ok es'"
proof (induction es arbitrary: es')
  case (Cons e es)
  then obtain e' es1 where e: "es' = e' # es1" "header e = header e'" "map header es = map header es1" by (cases es') auto
  show ?case using Cons.IH [OF e(3)] names_ok_header [OF e(2)] e(1) by simp
qed simp

lemma arg_reset_ok:
  assumes "table_ok t"
  shows "\<exists>t'. arg_reset t = Inr t' \<and> table_ok t' \<and> map header (entries t') = map header (entries t) \<and> end_count (endtable t') = 0 \<and>
    end_maxcount (endtable t') = end_maxcount (endtable t)"
proof -
  obtain es where "reset_entries (entries t) = Inr es" "list_all entry_ok es" "map header es = map header (entries t)"
    using reset_entries_ok [of "entries t"] assms by (auto simp: table_ok_def)
  then show ?thesis using assms names_ok_headers [of es "entries t"] by (auto simp: arg_reset_def table_ok_def end_ok_def arg_end_resetfn_def)
qed

text \<open>C10: On every command line, with or without POSIXLY_CORRECT, \<open>arg_parse\<close> returns (the loop over \<open>getopt_long\<close> ends), no store is outside
  the arrays it writes to (the tables handed to getopt, the values of every argument structure, the error slots), every
  structure stays well formed with its header unchanged and no more occurrences than it allows, the number it returns is the
  number of errors kept, and when that is 0 every argument occurs as often as it has to.\<close>

theorem arg_parse_safe:  assumes "table_ok t"
  shows "\<exists>n t' st'. arg_parse posixly_correct argv t st = Some (Inr (n, t', st')) \<and> n = end_count (endtable t') \<and> table_ok t' \<and>
    map header (entries t') = map header (entries t) \<and> end_maxcount (endtable t') = end_maxcount (endtable t) \<and>
    (n = 0 \<longrightarrow> list_all counted (entries t'))"
proof -
  obtain t0 where t0: "arg_reset t = Inr t0" "table_ok t0" "map header (entries t0) = map header (entries t)"
      "end_count (endtable t0) = 0" "end_maxcount (endtable t0) = end_maxcount (endtable t)"
    using arg_reset_ok [OF assms] by blast
  have check: "\<exists>t'. (if end_count (endtable t1) = 0 then arg_parse_check t1 else Inr t1) = Inr t' \<and> table_ok t' \<and> follows t1 t' \<and>
      (end_count (endtable t') = 0 \<longrightarrow> list_all counted (entries t'))" if "table_ok t1" for t1
    using check_entries_ok [OF that, of 0 "entries t1"] that by (auto simp: arg_parse_check_def)
  show ?thesis
  proof (cases "argv = []")
    case True
    then show ?thesis using check [OF t0(2)] t0 by (auto simp: arg_parse_def follows_def)
  next
    case False
    obtain st1 t1 where t1: "arg_parse_tagged posixly_correct argv t0 st = Some (Inr (st1, t1))" "table_ok t1" "follows t0 t1"
      using arg_parse_tagged_ok [OF t0(2) False] by blast
    obtain t2 where t2: "arg_parse_untagged (nargv st1) (optind st1) t1 = Inr t2" "table_ok t2" "follows t1 t2"
      using arg_parse_untagged_ok [OF t1(2)] by (rule step_okE)
    obtain t3 where t3: "(if end_count (endtable t2) = 0 then arg_parse_check t2 else Inr t2) = Inr t3" "table_ok t3" "follows t2 t3"
        "end_count (endtable t3) = 0 \<longrightarrow> list_all counted (entries t3)"
      using check [OF t2(2)] by (elim exE conjE) (rule that)
    have "arg_parse posixly_correct argv t st = Some (Inr (end_count (endtable t3), t3, st1))"
      using False t0(1) t1(1) t2(1) t3(1) by (simp add: arg_parse_def)
    moreover have "follows t0 t3" using t1(3) t2(3) t3(3) follows_trans by blast
    ultimately show ?thesis using t3 t0 by (simp add: follows_def)
  qed
qed

theorem arg_parse_safe_witness:
  "\<exists>n t' st'. arg_parse False [''prog'', ''-v'', ''file'', ''--verbose'', ''--verb'', ''-x'']
      \<lparr>entries = [arg_litn (Some ''v'') (Some ''verbose'') 0 2 None, arg_strn None None None 1 1 None], endtable = arg_end 1\<rparr> initial_getopt =
      Some (Inr (n, t', st')) \<and> n \<le> 1 \<and> list_all (\<lambda>e. count e \<le> maxcount e) (entries t')"
proof -
  let ?t = "\<lparr>entries = [arg_litn (Some ''v'') (Some ''verbose'') 0 2 None, arg_strn None None None 1 1 None], endtable = arg_end 1\<rparr>"
  have ok: "table_ok ?t" by (simp add: table_ok_def end_ok_def arg_end_def names_ok_def arg_litn_def arg_strn_def entry_ok_def)
  obtain n t' st' where r: "arg_parse False [''prog'', ''-v'', ''file'', ''--verbose'', ''--verb'', ''-x''] ?t initial_getopt = Some (Inr (n, t', st'))"
      "n = end_count (endtable t')" "table_ok t'" "end_maxcount (endtable t') = end_maxcount (endtable ?t)"
    using arg_parse_safe [OF ok] by blast
  have "n \<le> 1" using r(2,3,4) by (simp add: table_ok_def end_ok_def arg_end_def)
  moreover have "list_all (\<lambda>e. count e \<le> maxcount e) (entries t')" using r(3) by (auto simp: table_ok_def entry_ok_def list_all_iff)
  ultimately show ?thesis using r(1) by blast
qed

end
