(* ===== verification/ArgWords.thy ===== *)
theory ArgWords
  imports ArgParse
begin

text \<open>
  What \<open>arg_parse\<close> makes of the words a user writes: every option given as \<open>--name\<close> or \<open>--name=value\<close>, followed by the words
  that are not options.
\<close>

section \<open>Calls of getopt between words\<close>

definition at_word :: "string list \<Rightarrow> nat \<Rightarrow> getopt \<Rightarrow> bool" where
  "at_word argv k st =
     (nargv st = argv \<and> optind st = k \<and> 0 < k \<and> place st = [] \<and> \<not> optreset st \<and> nonopt_start st = None \<and> nonopt_end st = None)"

lemma scan_long_word:
  assumes "at_word argv k st" "k < length argv" "argv ! k = ''--'' @ cur" "cur \<noteq> []"
  shows "scan_argument permute False options (st\<lparr>optarg := None\<rparr>) = (None, st\<lparr>optarg := None, place := CHR ''-'' # cur, place_at_arg := False\<rparr>)"
proof -
  have "\<not> is_nonoption options (argv ! k)" using assms(3) by (simp add: is_nonoption_def)
  moreover have "argv ! k \<noteq> ''--''" "tl (argv ! k) = CHR ''-'' # cur" using assms(3,4) by simp_all
  moreover have "st\<lparr>optarg := None, optreset := False\<rparr> = st\<lparr>optarg := None\<rparr>" using assms(1) by (simp add: at_word_def)
  ultimately show ?thesis using assms(1,2) by (subst scan_argument.simps) (simp add: at_word_def Let_def)
qed

lemma long_word:
  assumes st: "at_word argv k st" and k: "k < length argv" and w: "argv ! k = ''--'' @ cur @ eq" and cur: "cur \<noteq> []" "CHR ''='' \<notin> set cur"
    and m: "match_long cur False ls 0 None = Some (Some i)" and l: "opt_flag (ls ! i)" "first_char options = CHR '':''"
    and eq: "opt_has_arg (ls ! i) = 0 \<and> eq = [] \<and> a = None \<or> opt_has_arg (ls ! i) = 1 \<and> eq = CHR ''='' # v \<and> a = Some v"
  shows "\<exists>st'. getopt_long posixly_correct options ls st = (0, st') \<and> at_word argv (Suc k) st' \<and> optarg st' = a \<and> flag_value st' = opt_val (ls ! i)"
proof -
  let ?s = "st\<lparr>optarg := None, place_at_arg := False, place := cur @ eq\<rparr>"
  have sc: "scan_argument permute False options (st\<lparr>optarg := None\<rparr>) = (None, st\<lparr>optarg := None, place := CHR ''-'' # cur @ eq, place_at_arg := False\<rparr>)"
    for permute using scan_long_word [OF st k w] cur by simp
  have "eq = [] \<or> hd eq = CHR ''=''" using eq by auto
  then have tk: "takeWhile (\<lambda>c. c \<noteq> CHR ''='') (cur @ eq) = cur"
    using cur(2) by (cases eq) (auto simp: takeWhile_eq_all_conv takeWhile_tail intro: takeWhile_append2 [where ys = "[]", simplified])
  have p: "parse_long_options options ls False ?s = (0, ?s\<lparr>optind := Suc k, optarg := a, flag_value := opt_val (ls ! i)\<rparr>)"
    using eq m l(1) st by (auto simp: parse_long_options_def tk Let_def at_word_def)
  have "getopt_long posixly_correct options ls st = (0, ?s\<lparr>optind := Suc k, optarg := a, flag_value := opt_val (ls ! i), place := []\<rparr>)"
    using st l(2) p by (simp add: getopt_long_def getopt_internal_def at_word_def Let_def sc process_option_def first_char_def letter_at_def)
  then show ?thesis using st by (simp add: at_word_def)
qed

lemma scan_plain_words:
  "nonopt_start st = Some s \<Longrightarrow> nonopt_end st = None \<Longrightarrow> place st = [] \<Longrightarrow> list_all (is_nonoption options) (drop (optind st) (nargv st)) \<Longrightarrow>
   \<exists>st'. scan_argument True False options st = (Some (- 1), st') \<and> nargv st' = nargv st \<and> optind st' = s"
proof (induction "length (nargv st) - optind st" arbitrary: st)
  case 0
  then show ?case by (subst scan_argument.simps) (simp add: Let_def no_nonopts_def)
next
  case (Suc n)
  let ?st = "skip_nonoption (st\<lparr>optreset := False, place := [], place_at_arg := False\<rparr>)"
  have k: "optind st < length (nargv st)" using Suc.hyps(2) by simp
  then have w: "is_nonoption options (nargv st ! optind st)" "list_all (is_nonoption options) (drop (Suc (optind st)) (nargv st))"
    using Suc.prems(4) by (simp_all flip: Cons_nth_drop_Suc)
  have s: "nonopt_start ?st = Some s" "nonopt_end ?st = None" "place ?st = []" "optind ?st = Suc (optind st)" "nargv ?st = nargv st"
    using Suc.prems by (simp_all add: skip_nonoption_def)
  have "scan_argument True False options st = scan_argument True False options ?st"
    using k w Suc.prems by (subst scan_argument.simps) (simp add: Let_def)
  then show ?case using Suc.hyps(1) [of ?st] Suc.hyps(2) w s by simp
qed

lemma plain_words:
  assumes st: "at_word argv k st" and ws: "list_all (is_nonoption options) (drop k argv)" and o: "first_char options = CHR '':''"
  shows "\<exists>st'. getopt_long posixly_correct options ls st = (- 1, st') \<and> nargv st' = argv \<and> optind st' = k"
proof -
  let ?s = "st\<lparr>optarg := None\<rparr>"
  have s: "nargv ?s = argv" "optind ?s = k" "place ?s = []" "nonopt_start ?s = None" "nonopt_end ?s = None" using st by (simp_all add: at_word_def)
  have "\<exists>st'. scan_argument (\<not> posixly_correct) False options ?s = (Some (- 1), st') \<and> nargv st' = argv \<and> optind st' = k"
  proof (cases "k < length argv")
    case False
    then show ?thesis using s by (subst scan_argument.simps) (simp add: Let_def no_nonopts_def)
  next
    case True
    then have w: "is_nonoption options (argv ! k)" "list_all (is_nonoption options) (drop (Suc k) argv)" using ws by (simp_all flip: Cons_nth_drop_Suc)
    show ?thesis
    proof (cases posixly_correct)
      case True': True
      then show ?thesis using s w True scan_argument_stop [of ?s options] by simp
    next
      case False
      let ?t = "skip_nonoption (?s\<lparr>optreset := False, place := [], place_at_arg := False\<rparr>)"
      have t: "nonopt_start ?t = Some k" "nonopt_end ?t = None" "place ?t = []" "optind ?t = Suc k" "nargv ?t = argv" using s by (simp_all add: skip_nonoption_def)
      have "scan_argument True False options ?s = scan_argument True False options ?t"
        using True w s by (subst scan_argument.simps) (simp add: Let_def)
      then show ?thesis using False scan_plain_words [OF t(1,2,3)] w t by simp
    qed
  qed
  then show ?thesis using st o by (auto simp: getopt_long_def getopt_internal_def at_word_def Let_def)
qed

section \<open>Settings\<close>

datatype setting_value = Flag | Number int | Text string

fun value_text :: "setting_value \<Rightarrow> string" where
  "value_text Flag = []"
| "value_text (Number n) = CHR ''='' # to_string n"
| "value_text (Text s) = CHR ''='' # s"

fun value_arg :: "setting_value \<Rightarrow> string option" where
  "value_arg Flag = None"
| "value_arg (Number n) = Some (to_string n)"
| "value_arg (Text s) = Some s"

definition setting_word :: "argtable \<Rightarrow> nat \<times> setting_value \<Rightarrow> string" where
  "setting_word t iv = (case iv of (i, v) \<Rightarrow> ''--'' @ the (longopts (entries t ! i)) @ value_text v)"

text \<open>Which values an entry takes, and what it holds afterwards.\<close>

definition fits :: "arg_entry \<Rightarrow> setting_value \<Rightarrow> bool" where
  "fits e v =
     (case vals e of
        Rem \<Rightarrow> False
      | Lit \<Rightarrow> v = Flag
      | Ints _ \<Rightarrow> (\<exists>n. v = Number n \<and> INT_MIN \<le> n \<and> n \<le> INT_MAX)
      | Strs _ \<Rightarrow> (\<exists>s. v = Text s)
      | Files _ _ _ \<Rightarrow> (\<exists>s. v = Text s))"

definition assign :: "arg_entry \<Rightarrow> setting_value \<Rightarrow> arg_entry" where
  "assign e v =
     e\<lparr>count := 1,
       vals := (case v of
                  Flag \<Rightarrow> Lit
                | Number n \<Rightarrow> Ints [n]
                | Text s \<Rightarrow> (case vals e of Strs _ \<Rightarrow> Strs [s] | _ \<Rightarrow> Files [s] [arg_basename s] [arg_extension (arg_basename s)]))\<rparr>"

definition assign_all :: "(nat \<times> setting_value) list \<Rightarrow> arg_entry list \<Rightarrow> arg_entry list" where
  "assign_all ss es = fold (\<lambda>(i, v) es. es[i := assign (es ! i) v]) ss es"

definition tagged :: "arg_entry \<Rightarrow> bool" where
  "tagged e = (case longopts e of None \<Rightarrow> False | Some s \<Rightarrow> s \<noteq> [] \<and> CHR '','' \<notin> set s \<and> CHR ''='' \<notin> set s)"

text \<open>An entry as the runtime sets them up: optional, given at most once and not given yet.\<close>

definition single :: "arg_entry \<Rightarrow> bool" where
  "single e =
     (entry_ok e \<and> names_ok e \<and> count e = 0 \<and> mincount e = 0 \<and> maxcount e = 1 \<and> \<not> has_optvalue e \<and> (has_value e \<longleftrightarrow> vals e \<noteq> Lit) \<and> vals e \<noteq> Rem)"

lemma assign_all_Nil [simp]: "assign_all [] es = es"
  by (simp add: assign_all_def)

lemma assign_all_Cons [simp]: "assign_all ((i, v) # ss) es = assign_all ss (es[i := assign (es ! i) v])"
  by (simp add: assign_all_def)

lemma assign_all_append: "assign_all (ss @ ss') es = assign_all ss' (assign_all ss es)"
  by (simp add: assign_all_def)

lemma length_assign_all [simp]: "length (assign_all ss es) = length es"
  by (induction ss arbitrary: es) auto

lemma assign_all_other: "i \<notin> fst ` set ss \<Longrightarrow> assign_all ss es ! i = es ! i"
  by (induction ss arbitrary: es) auto

lemma assign_all_nth:
  "distinct (map fst ss) \<Longrightarrow> i < length es \<Longrightarrow>
   assign_all ss es ! i = (case map_of ss i of None \<Rightarrow> es ! i | Some v \<Rightarrow> assign (es ! i) v)"
proof (induction ss arbitrary: es)
  case (Cons iv ss)
  obtain j v where iv: "iv = (j, v)" by fastforce
  show ?case
  proof (cases "i = j")
    case True
    then show ?thesis using Cons.prems iv by (simp add: assign_all_other)
  next
    case False
    then show ?thesis using Cons iv by (simp add: nth_list_update_neq cong: option.case_cong)
  qed
qed simp

lemma arg_int_to_string:
  "count e < maxcount e \<Longrightarrow> length ival = maxcount e \<Longrightarrow> INT_MIN \<le> n \<Longrightarrow> n \<le> INT_MAX \<Longrightarrow>
   arg_int_scanfn e ival (Some (to_string n)) = Inr (0, e\<lparr>count := Suc (count e), vals := Ints (ival[count e := n])\<rparr>)"
  using arg_int_scanfn_value [of e ival n n Plain] by simp

lemma scanfn_assign:
  assumes e: "single e" and v: "fits e v"
  shows "\<exists>f. scanfn e = Some f \<and> f e (value_arg v) = Inr (0, assign e v)"
proof (cases "vals e")
  case Rem
  then show ?thesis using e by (simp add: single_def)
next
  case Lit
  then show ?thesis using e v by (auto simp: single_def fits_def scanfn_def arg_lit_scanfn_def assign_def)
next
  case (Ints ival)
  then obtain n where n: "v = Number n" "INT_MIN \<le> n" "n \<le> INT_MAX" using v by (auto simp: fits_def)
  have "length ival = 1" using Ints e by (simp add: single_def entry_ok_def)
  then obtain x where "ival = [x]" by (cases ival) auto
  then show ?thesis using Ints e n by (auto simp: single_def scanfn_def arg_int_to_string assign_def)
next
  case (Strs sval)
  then have "length sval = 1" using e by (simp add: single_def entry_ok_def)
  then obtain x where "sval = [x]" by (cases sval) auto
  then show ?thesis using Strs e v by (auto simp: single_def fits_def scanfn_def arg_str_scanfn_def assign_def mem_write_cell)
next
  case (Files fn bn en)
  then have "length fn = 1" "length bn = 1" "length en = 1" using e by (simp_all add: single_def entry_ok_def)
  then obtain x y z where "fn = [x]" "bn = [y]" "en = [z]" by (cases fn; cases bn; cases en) auto
  then show ?thesis using Files e v by (auto simp: single_def fits_def scanfn_def arg_file_scanfn_def assign_def mem_write_cell)
qed

lemma scan_assign:
  "single (entries t ! i) \<Longrightarrow> fits (entries t ! i) v \<Longrightarrow>
   scan_entry t i (value_arg v) = Inr (t\<lparr>entries := (entries t)[i := assign (entries t ! i) v]\<rparr>)"
  using scanfn_assign [of "entries t ! i" v] by (auto simp: scan_entry_def)

section \<open>Exact names\<close>

text \<open>
  An option is found by its full name if no name in front of it starts with that name. Two such names make the full name
  ambiguous, although it is the name of an option.
\<close>

lemma match_long_exact:
  "opt_name l = cur \<Longrightarrow> \<forall>l' \<in> set ls1. take (length cur) (opt_name l') \<noteq> cur \<Longrightarrow>
   match_long cur False (ls1 @ l # ls2) n None = Some (Some (n + length ls1))"
  by (induction ls1 arbitrary: n) auto

lemma match_long_ambiguous:
  "opt_name l1 = cur @ c # x \<Longrightarrow> opt_name l2 = cur @ d # y \<Longrightarrow> match_long cur False (l1 # l2 # ls) 0 None = None"
  by simp

definition unshadowed :: "arg_entry list \<Rightarrow> bool" where
  "unshadowed es =
     sorted_wrt (\<lambda>e e'. case (longopts e, longopts e') of (Some s, Some s') \<Rightarrow> take (length s') s \<noteq> s' | _ \<Rightarrow> True) es"

lemma long_names_single: "tagged e \<Longrightarrow> longopts e = Some s \<Longrightarrow> entry_names e = [s]"
proof -
  assume a: "tagged e" "longopts e = Some s"
  then have t: "takeWhile (\<lambda>c. c \<noteq> CHR '','') s = s" and d: "dropWhile (\<lambda>c. c \<noteq> CHR '','') s = []" and n: "s \<noteq> []"
    by (auto simp: tagged_def takeWhile_eq_all_conv)
  have "long_names s = s # long_names []" by (subst long_names.simps) (simp only: t d n if_False list.sel)
  then have "long_names s = [s]" by (simp add: long_names.simps [of "[]"])
  then show "entry_names e = [s]" using a(2) by (simp add: entry_names_def)
qed

lemma untagged_names: "longopts e = None \<Longrightarrow> entry_names e = []"
  by (simp add: entry_names_def)

lemma match_entry:
  assumes i: "i < length (entries t)" and g: "tagged (entries t ! i)" "longopts (entries t ! i) = Some s" and u: "unshadowed (entries t)"
    and tg: "list_all (\<lambda>e. tagged e \<or> longopts e = None) (entries t)"
  shows "\<exists>p. match_long s False (longoptions t) 0 None = Some (Some p) \<and>
    longoptions t ! p = \<lparr>opt_name = s, opt_has_arg = (if has_optvalue (entries t ! i) then 2 else if has_value (entries t ! i) then 1 else 0),
      opt_flag = True, opt_val = int i\<rparr>"
proof -
  let ?es = "entries t"
  define ls1 where "ls1 = concat (map entry_options (enumerate 0 (take i ?es)))"
  define l where "l = \<lparr>opt_name = s, opt_has_arg = (if has_optvalue (?es ! i) then 2 else if has_value (?es ! i) then 1 else 0), opt_flag = True, opt_val = int i\<rparr>"
  have "enumerate 0 ?es = enumerate 0 (take i ?es) @ (i, ?es ! i) # enumerate (Suc i) (drop (Suc i) ?es)"
    using i arg_cong [OF id_take_nth_drop [OF i], of "enumerate 0"] by (simp add: enumerate_append_eq min_def)
  moreover have "entry_options (i, ?es ! i) = [l]" using long_names_single [OF g] by (simp add: entry_options_def l_def)
  ultimately have ls: "longoptions t = ls1 @ l # concat (map entry_options (enumerate (Suc i) (drop (Suc i) ?es)))"
    by (simp add: longoptions_def ls1_def)
  have "take (length s) (opt_name l') \<noteq> s" if l': "l' \<in> set ls1" for l'
  proof -
    have "opt_name l' \<in> set (map opt_name ls1)" using l' by simp
    then have "opt_name l' \<in> set (concat (map entry_names (take i ?es)))" by (simp only: ls1_def entry_options_names)
    then obtain e where e: "e \<in> set (take i ?es)" "opt_name l' \<in> set (entry_names e)" by auto
    then obtain j where "j < length (take i ?es)" "take i ?es ! j = e" by (metis in_set_conv_nth)
    then have j: "j < i" "opt_name l' \<in> set (entry_names (?es ! j))" using e(2) by auto
    moreover have "tagged (?es ! j) \<or> longopts (?es ! j) = None" using tg j(1) i by (simp add: list_all_length)
    ultimately have "longopts (?es ! j) = Some (opt_name l')"
      using long_names_single [of "?es ! j"] untagged_names [of "?es ! j"] by (cases "longopts (?es ! j)") auto
    then show ?thesis using sorted_wrt_nth_less [OF u [unfolded unshadowed_def] j(1) i] g(2) by simp
  qed
  then have "match_long s False (longoptions t) 0 None = Some (Some (length ls1))"
    unfolding ls using match_long_exact [of l s ls1] by (simp add: l_def)
  moreover have "longoptions t ! length ls1 = l" by (simp add: ls)
  ultimately show ?thesis unfolding l_def by blast
qed

section \<open>The words of a command line\<close>

text \<open>A table as the runtime sets it up: one entry, at index \<open>u\<close>, takes the words that are not options.\<close>

definition runtime_table :: "nat \<Rightarrow> argtable \<Rightarrow> bool" where
  "runtime_table u t =
     (end_ok (endtable t) \<and> list_all single (entries t) \<and> unshadowed (entries t) \<and> u < length (entries t) \<and>
      longopts (entries t ! u) = None \<and> shortopts (entries t ! u) = None \<and> (case vals (entries t ! u) of Strs _ \<Rightarrow> True | _ \<Rightarrow> False) \<and>
      list_all (\<lambda>i. i \<noteq> u \<longrightarrow> tagged (entries t ! i)) [0..<length (entries t)])"

definition settings_ok :: "nat \<Rightarrow> argtable \<Rightarrow> (nat \<times> setting_value) list \<Rightarrow> bool" where
  "settings_ok u t ss =
     (distinct (map fst ss) \<and> list_all (\<lambda>(i, v). i < length (entries t) \<and> i \<noteq> u \<and> fits (entries t ! i) v \<and> v \<noteq> Text []) ss)"

lemma runtime_tagged: "runtime_table u t \<Longrightarrow> i < length (entries t) \<Longrightarrow> i \<noteq> u \<Longrightarrow> tagged (entries t ! i)"
  by (simp add: runtime_table_def list_all_iff)

lemma to_string_ne [simp]: "to_string n \<noteq> []"
  using nat_text_number by (simp add: to_string_def)

lemma setting_call:
  assumes rt: "runtime_table u t" and so: "i < length (entries t)" "i \<noteq> u" "fits (entries t ! i) v"
    and st: "at_word argv k st" "k < length argv" "argv ! k = setting_word t (i, v)"
  shows "\<exists>st'. getopt_long posixly_correct (shortoptions t) (longoptions t) st = (0, st') \<and> at_word argv (Suc k) st' \<and>
    optarg st' = value_arg v \<and> flag_value st' = int i"
proof -
  let ?e = "entries t ! i"
  have e: "tagged ?e" "single ?e" using rt so by (simp_all add: runtime_table_def list_all_length)
  then obtain s where s: "longopts ?e = Some s" "s \<noteq> []" "CHR ''='' \<notin> set s" by (auto simp: tagged_def split: option.splits)
  have tg: "list_all (\<lambda>e. tagged e \<or> longopts e = None) (entries t)" "unshadowed (entries t)"
    using rt by (auto simp: runtime_table_def list_all_length)
  obtain p where p: "match_long s False (longoptions t) 0 None = Some (Some p)"
      "longoptions t ! p = \<lparr>opt_name = s, opt_has_arg = (if has_optvalue ?e then 2 else if has_value ?e then 1 else 0), opt_flag = True, opt_val = int i\<rparr>"
    using match_entry [OF so(1) e(1) s(1) tg(2,1)] by blast
  have w: "argv ! k = ''--'' @ s @ value_text v" using st(3) s(1) by (simp add: setting_word_def)
  have a: "opt_has_arg (longoptions t ! p) = 0 \<and> value_text v = [] \<and> value_arg v = None \<or>
      opt_has_arg (longoptions t ! p) = 1 \<and> value_text v = CHR ''='' # the (value_arg v) \<and> value_arg v = Some (the (value_arg v))"
    using e(2) so(3) by (cases v) (auto simp: single_def fits_def p(2) split: arg_values.splits)
  have "first_char (shortoptions t) = CHR '':''" by (simp add: shortoptions_def first_char_def letter_at_def)
  then show ?thesis using long_word [OF st(1,2) w s(2,3) p(1) _ _ a] p(2) by simp
qed

lemma settings_loop:
  assumes rt: "runtime_table u t" and ws: "list_all (is_nonoption (shortoptions t)) ws"
  shows "at_word argv k st \<Longrightarrow> k \<le> length argv \<Longrightarrow> drop k argv = map (setting_word t) ss @ ws \<Longrightarrow> settings_ok u t ss \<Longrightarrow>
    length (entries t1) = length (entries t) \<Longrightarrow> \<forall>i \<in> fst ` set ss. entries t1 ! i = entries t ! i \<Longrightarrow>
    \<exists>st'. getopt_loop posixly_correct parse_option (shortoptions t) (longoptions t) st (Inr t1) =
        Some (st', Inr (t1\<lparr>entries := assign_all ss (entries t1)\<rparr>)) \<and> nargv st' = argv \<and> optind st' = length argv - length ws"
proof (induction ss arbitrary: k st t1)
  case Nil
  have o: "first_char (shortoptions t) = CHR '':''" by (simp add: shortoptions_def first_char_def letter_at_def)
  obtain st' where "getopt_long posixly_correct (shortoptions t) (longoptions t) st = (- 1, st')" "nargv st' = argv" "optind st' = k"
    using plain_words [OF Nil(1) _ o] Nil(3) ws by auto
  then show ?case using Nil(2) arg_cong [OF Nil(3), of length] by (subst getopt_loop.simps) auto
next
  case (Cons iv ss)
  obtain i v where iv: "iv = (i, v)" by fastforce
  have so: "i < length (entries t)" "i \<noteq> u" "fits (entries t ! i) v" "v \<noteq> Text []" "settings_ok u t ss" "i \<notin> fst ` set ss"
    using Cons.prems(4) iv by (auto simp: settings_ok_def)
  have k1: "k < length argv" using Cons.prems(3) by (cases "k < length argv") simp_all
  then have k: "k < length argv" "argv ! k = setting_word t (i, v)" "drop (Suc k) argv = map (setting_word t) ss @ ws"
    using Cons.prems(3) iv Cons_nth_drop_Suc [OF k1] by simp_all
  obtain st' where g: "getopt_long posixly_correct (shortoptions t) (longoptions t) st = (0, st')" "at_word argv (Suc k) st'"
      "optarg st' = value_arg v" "flag_value st' = int i"
    using setting_call [OF rt so(1,2,3) Cons.prems(1) k(1,2)] by blast
  let ?t = "t1\<lparr>entries := (entries t1)[i := assign (entries t1 ! i) v]\<rparr>"
  have e: "entries t1 ! i = entries t ! i" using Cons.prems(6) iv by simp
  have "single (entries t1 ! i)" using rt so(1) e by (simp add: runtime_table_def list_all_length)
  then have "scan_entry t1 i (value_arg v) = Inr ?t" using scan_assign [of t1 i v] so(3) e by simp
  moreover have "value_arg v \<noteq> Some []" using so(4) by (cases v) auto
  ultimately have h: "parse_option 0 st' (Inr t1) = Inr ?t" using g so(1) Cons.prems(5) by (simp add: parse_option_def long_case_def Let_def)
  have "getopt_loop posixly_correct parse_option (shortoptions t) (longoptions t) st (Inr t1) =
      getopt_loop posixly_correct parse_option (shortoptions t) (longoptions t) st' (Inr ?t)"
    using g(1) h by (subst getopt_loop.simps) simp
  moreover have "\<forall>j \<in> fst ` set ss. entries ?t ! j = entries t ! j"
  proof
    fix j assume j: "j \<in> fst ` set ss"
    then have "j \<noteq> i" "j \<in> fst ` set (iv # ss)" using so(6) by auto
    then show "entries ?t ! j = entries t ! j" using bspec [OF Cons.prems(6), of j] by simp
  qed
  ultimately show ?case using Cons.IH [OF g(2) _ k(3) so(5), of ?t] k(1) Cons.prems(5) iv by simp
qed

lemma untagged_skip:
  "k < length argv \<Longrightarrow> u \<le> length (entries t) \<Longrightarrow> i \<le> u \<Longrightarrow> \<forall>j. i \<le> j \<and> j < u \<longrightarrow> longopts (entries t ! j) \<noteq> None \<Longrightarrow>
   untagged_loop argv i k t l = untagged_loop argv u k t l"
proof (induction "u - i" arbitrary: i)
  case (Suc n)
  then have "i < u" by simp
  then have "untagged_loop argv i k t l = untagged_loop argv (Suc i) k t l"
    using Suc.prems by (subst untagged_loop.simps) (simp add: Let_def)
  then show ?case using Suc.hyps(1) [of "Suc i"] Suc.hyps(2) Suc.prems \<open>i < u\<close> by auto
qed simp

lemma untagged_end: "length argv \<le> k \<Longrightarrow> untagged_loop argv i k t None = Inr (k, t, None)"
  by (subst untagged_loop.simps) simp

lemma longopts_assign [simp]: "longopts (assign e v) = longopts e" "shortopts (assign e v) = shortopts e" "maxcount (assign e v) = maxcount e"
  "mincount (assign e v) = mincount e" "count (assign e v) = 1"
  by (simp_all add: assign_def)

lemma assign_all_longopts: "i < length es \<Longrightarrow> longopts (assign_all ss es ! i) = longopts (es ! i)"
proof (induction ss arbitrary: es)
  case (Cons iv ss)
  then show ?case by (cases iv; cases "fst iv = i") auto
qed simp

text \<open>The table when all options are read, and what the other words do to it.\<close>

lemma untagged_first:
  assumes rt: "runtime_table u t" and t2: "length (entries t2) = length (entries t)" "entries t2 ! u = entries t ! u"
      "\<forall>i < length (entries t). longopts (entries t2 ! i) = longopts (entries t ! i)" and k: "k < length argv"
  shows "untagged_loop argv 0 k t2 None =
    untagged_loop argv u (Suc k) (t2\<lparr>entries := (entries t2)[u := assign (entries t ! u) (Text (argv ! k))]\<rparr>) None"
proof -
  have u: "u < length (entries t)" "longopts (entries t ! u) = None" "shortopts (entries t ! u) = None" "single (entries t ! u)" "fits (entries t ! u) (Text w)"
    and tg: "\<forall>j < length (entries t). j \<noteq> u \<longrightarrow> longopts (entries t ! j) \<noteq> None" for w
    using rt by (auto simp: runtime_table_def list_all_length fits_def tagged_def split: arg_values.splits option.splits)
  obtain f where f: "scanfn (entries t ! u) = Some f" "f (entries t ! u) (Some (argv ! k)) = Inr (0, assign (entries t ! u) (Text (argv ! k)))"
    using scanfn_assign [OF u(4) u(5) [of "argv ! k"]] by auto
  have "untagged_loop argv 0 k t2 None = untagged_loop argv u k t2 None"
    using u(1) tg t2 k by (intro untagged_skip) auto
  also have "\<dots> = untagged_loop argv u (Suc k) (t2\<lparr>entries := (entries t2)[u := assign (entries t ! u) (Text (argv ! k))]\<rparr>) None"
    using u(1,2,3) t2 k f by (subst untagged_loop.simps) (simp add: Let_def)
  finally show ?thesis .
qed

lemma untagged_excess:
  assumes rt: "runtime_table u t" and t2: "length (entries t2) = length (entries t)" "entries t2 ! u = assign (entries t ! u) (Text w)"
      "\<forall>i < length (entries t). longopts (entries t2 ! i) = longopts (entries t ! i)" and k: "k < length argv"
  shows "untagged_loop argv u k t2 None = Inr (k, t2, Some (ARG_ERR_MAXCOUNT, u, argv ! k))"
proof -
  let ?e = "entries t2 ! u"
  have u: "u < length (entries t)" "longopts (entries t ! u) = None" "shortopts (entries t ! u) = None" "maxcount (entries t ! u) = 1"
    "case vals (entries t ! u) of Strs _ \<Rightarrow> True | _ \<Rightarrow> False" and tg: "\<forall>j < length (entries t). j \<noteq> u \<longrightarrow> longopts (entries t ! j) \<noteq> None"
    using rt by (auto simp: runtime_table_def list_all_length single_def tagged_def split: option.splits)
  have same: "(entries t2)[u := assign (entries t ! u) (Text w)] = entries t2" using list_update_id [of "entries t2" u] t2(2) by simp
  have v: "vals ?e = Strs [w]" using u(5) t2(2) by (auto simp: assign_def split: arg_values.splits)
  have "arg_str_scanfn ?e [w] (Some (argv ! k)) = Inr (ARG_ERR_MAXCOUNT, ?e)" using u(4) t2(2) by (simp add: arg_str_scanfn_def)
  then have "untagged_loop argv u k t2 None = untagged_loop argv (Suc u) k t2 (Some (ARG_ERR_MAXCOUNT, u, argv ! k))"
    using u t2 k v same by (subst untagged_loop.simps) (simp add: Let_def scanfn_def ARG_ERR_MAXCOUNT_def)
  also have "\<dots> = untagged_loop argv (length (entries t)) k t2 (Some (ARG_ERR_MAXCOUNT, u, argv ! k))"
    using u(1) tg t2 k by (intro untagged_skip) auto
  also have "\<dots> = Inr (k, t2, Some (ARG_ERR_MAXCOUNT, u, argv ! k))" using t2(1) by (subst untagged_loop.simps) simp
  finally show ?thesis .
qed

lemma reset_single: "list_all single es \<Longrightarrow> reset_entries es = Inr es"
proof (induction es)
  case (Cons e es)
  have "(case resetfn e of None \<Rightarrow> Inr e | Some f \<Rightarrow> f e) = Inr e"
    using Cons.prems by (cases "vals e") (simp_all add: single_def resetfn_def resetfn_defs mem_write_def)
  then show ?case using Cons by simp
qed simp

lemma check_optional: "\<forall>e \<in> set es. mincount e = 0 \<Longrightarrow> check_entries i es t = Inr t"
  by (induction es arbitrary: i) (auto simp: checkfn_def checkfn_count_def)

lemma runtime_table_ok: "runtime_table u t \<Longrightarrow> table_ok t"
  by (auto simp: runtime_table_def table_ok_def single_def list_all_iff)

lemma arg_parse_tagged_settings:
  assumes rt: "runtime_table u t" and so: "settings_ok u t ss" and ws: "list_all (is_nonoption (shortoptions t)) ws"
    and argv: "argv = prog # map (setting_word t) ss @ ws"
  shows "\<exists>st'. arg_parse_tagged posixly_correct argv t st = Some (Inr (st', t\<lparr>entries := assign_all ss (entries t)\<rparr>)) \<and>
    nargv st' = argv \<and> optind st' = length argv - length ws"
proof -
  let ?st = "st\<lparr>nargv := argv, optind := 0\<rparr>"
  have n: "list_all names_ok (entries t)" using runtime_table_ok [OF rt] by (simp add: table_ok_def)
  have "at_word argv 1 (first_state ?st)" by (simp add: at_word_def first_state_def no_nonopts_def)
  then obtain st' where "getopt_loop posixly_correct parse_option (shortoptions t) (longoptions t) (first_state ?st) (Inr t) =
        Some (st', Inr (t\<lparr>entries := assign_all ss (entries t)\<rparr>))" "nargv st' = argv" "optind st' = length argv - length ws"
    using settings_loop [OF rt ws, of argv 1 "first_state ?st" ss t posixly_correct] so argv by auto
  then show ?thesis
    using getopt_loop_first [of ?st posixly_correct parse_option "shortoptions t" "longoptions t" "Inr t"]
    by (simp add: arg_parse_tagged_def alloc_longoptions_ok [OF n] alloc_shortoptions_ok)
qed

lemma assign_all_mincount: "\<forall>e \<in> set es. mincount e = 0 \<Longrightarrow> \<forall>e \<in> set (assign_all ss es). mincount e = 0"
proof (induction ss arbitrary: es)
  case (Cons iv ss)
  obtain i v where iv: "iv = (i, v)" by fastforce
  have "\<forall>e \<in> set (es[i := assign (es ! i) v]). mincount e = 0"
    using Cons.prems by (cases "i < length es") (auto simp: list_update_beyond dest!: subsetD [OF set_update_subset_insert])
  then show ?case using Cons.IH iv by simp
qed simp

lemma arg_parse_words:
  assumes rt: "runtime_table u t" and so: "settings_ok u t ss" and ws: "list_all (is_nonoption (shortoptions t)) ws"
    and argv: "argv = prog # map (setting_word t) ss @ ws"
  shows "if length ws \<le> 1
    then \<exists>st'. arg_parse posixly_correct argv t st =
        Some (Inr (0, \<lparr>entries = assign_all (ss @ map (\<lambda>w. (u, Text w)) ws) (entries t), endtable = arg_end_resetfn (endtable t)\<rparr>, st'))
    else \<exists>n t' st'. arg_parse posixly_correct argv t st = Some (Inr (n, t', st')) \<and> 0 < n"
proof -
  define t0 where "t0 = t\<lparr>endtable := arg_end_resetfn (endtable t)\<rparr>"
  have rt0: "runtime_table u t0" and so0: "settings_ok u t0 ss" and t0: "entries t0 = entries t" "shortoptions t0 = shortoptions t" "setting_word t0 = setting_word t"
    using rt so by (auto simp: t0_def runtime_table_def settings_ok_def end_ok_def arg_end_resetfn_def shortoptions_def setting_word_def fun_eq_iff)
  have reset: "arg_reset t = Inr t0" using rt reset_single [of "entries t"] by (simp add: runtime_table_def arg_reset_def t0_def)
  let ?t1 = "t0\<lparr>entries := assign_all ss (entries t)\<rparr>" and ?k = "length argv - length ws"
  obtain st' where tagged: "arg_parse_tagged posixly_correct argv t0 st = Some (Inr (st', ?t1))" "nargv st' = argv" "optind st' = ?k"
    using arg_parse_tagged_settings [OF rt0 so0, of ws argv prog posixly_correct st] ws argv t0 by auto
  have p: "arg_parse posixly_correct argv t st =
      Some (obind (arg_parse_untagged argv ?k ?t1) (\<lambda>t2. obind (if end_count (endtable t2) = 0 then arg_parse_check t2 else Inr t2) (\<lambda>t3.
        Inr (end_count (endtable t3), t3, st'))))"
    using reset tagged argv by (simp add: arg_parse_def)
  have ms: "\<forall>e \<in> set (entries t). mincount e = 0" and u: "u < length (entries t)" using rt by (auto simp: runtime_table_def list_all_iff single_def)
  have l: "\<forall>i < length (entries t). longopts (entries ?t1 ! i) = longopts (entries t0 ! i)" "entries ?t1 ! u = entries t0 ! u"
    using so t0(1) by (auto simp: assign_all_longopts settings_ok_def list_all_iff intro!: assign_all_other)
  have check: "arg_parse_check (t0\<lparr>entries := assign_all ss' (entries t)\<rparr>) = Inr (t0\<lparr>entries := assign_all ss' (entries t)\<rparr>)" for ss'
    using check_optional [OF assign_all_mincount [OF ms]] by (simp add: arg_parse_check_def)
  have c0: "end_count (endtable t0) = 0" by (simp add: t0_def arg_end_resetfn_def)
  consider (none) "ws = []" | (one) w where "ws = [w]" | (more) w w' ws' where "ws = w # w' # ws'" by (metis neq_Nil_conv)
  then show ?thesis
  proof cases
    case none
    then have "arg_parse_untagged argv ?k ?t1 = Inr ?t1" by (simp add: arg_parse_untagged_def untagged_end)
    then show ?thesis using none p check [of ss] c0 by (simp add: t0_def)
  next
    case one
    then have k: "?k < length argv" "argv ! ?k = w" "Suc ?k = length argv" using argv by (auto simp: nth_append)
    have "arg_parse_untagged argv ?k ?t1 = Inr (t0\<lparr>entries := assign_all (ss @ [(u, Text w)]) (entries t)\<rparr>)"
      using untagged_first [OF rt0 _ l(2) _ k(1)] l(1) t0(1) k untagged_end [of argv "length argv"]
      by (simp add: arg_parse_untagged_def assign_all_append l(2) [simplified])
    then show ?thesis using one p check [of "ss @ [(u, Text w)]"] c0 by (simp add: t0_def)
  next
    case more
    then have k: "?k < length argv" "Suc ?k < length argv" using argv by auto
    let ?t2 = "?t1\<lparr>entries := (entries ?t1)[u := assign (entries t0 ! u) (Text (argv ! ?k))]\<rparr>"
    have l2: "\<forall>i < length (entries t0). longopts (entries ?t2 ! i) = longopts (entries t0 ! i)" "entries ?t2 ! u = assign (entries t0 ! u) (Text (argv ! ?k))"
      using l u t0(1) by (auto simp: nth_list_update)
    have un: "untagged_loop argv 0 ?k ?t1 None = Inr (Suc ?k, ?t2, Some (ARG_ERR_MAXCOUNT, u, argv ! Suc ?k))"
      using untagged_first [OF rt0 _ l(2) _ k(1)] untagged_excess [OF rt0 _ l2(2) l2(1) k(2)] l(1) t0(1) by simp
    have ok2: "table_ok ?t2" using untagged_loop_ok [of ?t1 argv 0 ?k None] un
        arg_parse_tagged_ok [OF runtime_table_ok [OF rt0], of argv posixly_correct st] tagged(1) argv by auto
    obtain t3 where t3: "register ?t2 (Entry u) ARG_ERR_MAXCOUNT (Some (argv ! Suc ?k)) = Inr t3" "table_ok t3" using register_ok(1) [OF ok2] by (rule step_okE)
    have pos: "0 < end_count (endtable t3)" by (rule register_ok(3) [OF ok2 t3(1)])
    obtain t4 where t4: "unused_words (drop (Suc (Suc ?k)) argv) t3 = Inr t4" "follows t3 t4" using unused_words_ok [OF t3(2)] by (rule step_okE)
    have "arg_parse_untagged argv ?k ?t1 = Inr t4" using un t3(1) t4(1) by (simp add: arg_parse_untagged_def)
    moreover have "0 < end_count (endtable t4)" using pos t4(2) by (simp add: follows_def)
    ultimately show ?thesis using more p by simp
  qed
qed

end
