(* ===== verification/CommandParser.thy ===== *)
theory CommandParser
  imports ArgWords
begin

text \<open>
  The command line of the runtime (src/command_parser.cc, src/command_parser-inl.h, src/command_parser_group.cc and their
  headers): one parser per command line, and the group that answers for an option with the last parser it was given to.
  The macros \<open>CLI_LIT_ARGS\<close>, \<open>CLI_INT_ARGS\<close>, \<open>CLI_STRN_ARGS\<close>, \<open>CLI_FILEN_ARGS\<close> and \<open>CLI_IMPLIES\<close> come from a header the build
  generates; they are an argument. A pointer to an argument structure is the position of its variable. The path library and
  the current directory are an argument; printing is not modelled. \<open>junk\<close> is what fresh memory holds.
\<close>

record cli_options =
  lit_args :: "(string \<times> string \<times> string option \<times> string) list"
  int_args :: "(string \<times> string \<times> string \<times> string \<times> int) list"
  strn_args :: "(string \<times> string option \<times> string \<times> nat \<times> nat \<times> string \<times> string) list"
  filen_args :: "(string \<times> string option \<times> string \<times> nat \<times> nat \<times> string) list"
  implies :: "(string \<times> string) list"

definition cli_vars :: "cli_options \<Rightarrow> string list" where
  "cli_vars opts = map fst (lit_args opts) @ map fst (int_args opts) @ map fst (strn_args opts) @ map fst (filen_args opts)"

fun index_of :: "'a \<Rightarrow> 'a list \<Rightarrow> nat" where
  "index_of x [] = 0"
| "index_of x (y # ys) = (if x = y then 0 else Suc (index_of x ys))"

section \<open>The argument table\<close>

definition setup_lit :: "string \<times> string \<times> string option \<times> string \<Rightarrow> arg_entry outcome" where
  "setup_lit a = (case a of (var, long, short, desc) \<Rightarrow> Inr (arg_litn short (Some long) 0 1 (Some desc)))"

definition setup_int :: "(nat \<Rightarrow> int) \<Rightarrow> string \<times> string \<times> string \<times> string \<times> int \<Rightarrow> arg_entry outcome" where
  "setup_int junk a =
     (case a of (var, long, meta, desc, dflt) \<Rightarrow>
        let e = arg_intn junk None (Some long) (Some meta) 0 1 (Some desc)
        in case vals e of
             Ints ival \<Rightarrow> obind (mem_write ival 0 [dflt]) (\<lambda>ival. Inr (e\<lparr>vals := Ints ival\<rparr>))
           | _ \<Rightarrow> Inl Bad_cast)"

definition setup_str :: "string \<times> string option \<times> string \<times> nat \<times> nat \<times> string \<times> string \<Rightarrow> arg_entry outcome" where
  "setup_str a =
     (case a of (var, long, meta, mn, mx, desc, dflt) \<Rightarrow>
        let e = arg_strn None long (Some meta) mn mx (Some desc)
        in case vals e of
             Strs sval \<Rightarrow> obind (mem_write sval 0 [dflt]) (\<lambda>sval. Inr (e\<lparr>vals := Strs sval\<rparr>))
           | _ \<Rightarrow> Inl Bad_cast)"

definition setup_file :: "string \<times> string option \<times> string \<times> nat \<times> nat \<times> string \<Rightarrow> arg_entry outcome" where
  "setup_file a = (case a of (var, long, meta, mn, mx, desc) \<Rightarrow> Inr (arg_filen None long (Some meta) mn mx (Some desc)))"

fun setup_all :: "('a \<Rightarrow> arg_entry outcome) \<Rightarrow> 'a list \<Rightarrow> arg_entry list outcome" where
  "setup_all f [] = Inr []"
| "setup_all f (a # as) = obind (f a) (\<lambda>e. obind (setup_all f as) (\<lambda>es. Inr (e # es)))"

definition SetupParser :: "cli_options \<Rightarrow> (nat \<Rightarrow> int) \<Rightarrow> argtable outcome" where
  "SetupParser opts junk =
     obind (setup_all setup_lit (lit_args opts)) (\<lambda>lits.
     obind (setup_all (setup_int junk) (int_args opts)) (\<lambda>ints.
     obind (setup_all setup_str (strn_args opts)) (\<lambda>strs.
     obind (setup_all setup_file (filen_args opts)) (\<lambda>files.
     Inr \<lparr>entries = lits @ ints @ strs @ files, endtable = arg_end 20\<rparr>))))"

section \<open>One parser\<close>

text \<open>\<open>real_path\<close> holds the strings that belong to the file arguments.\<close>

record parser =
  parser_name :: string
  table :: argtable
  nerrors :: int
  exec_path :: string
  user_argv :: "string list"
  real_path :: "string \<Rightarrow> string"

definition entry_of :: "cli_options \<Rightarrow> parser \<Rightarrow> string \<Rightarrow> arg_entry" where
  "entry_of opts p var = entries (table p) ! index_of var (cli_vars opts)"

definition given :: "cli_options \<Rightarrow> string \<Rightarrow> parser \<Rightarrow> bool" where
  "given opts var p = (count (entry_of opts p var) \<noteq> 0)"

definition int_value :: "arg_entry \<Rightarrow> int outcome" where
  "int_value e = (case vals e of Ints ival \<Rightarrow> mem_read ival 0 | _ \<Rightarrow> Inl Bad_cast)"

definition str_value :: "arg_entry \<Rightarrow> string outcome" where
  "str_value e = (case vals e of Strs sval \<Rightarrow> mem_read sval 0 | _ \<Rightarrow> Inl Bad_cast)"

definition file_value :: "arg_entry \<Rightarrow> string outcome" where
  "file_value e = (case vals e of Files filename _ _ \<Rightarrow> mem_read filename 0 | _ \<Rightarrow> Inl Bad_cast)"

definition int_var :: "cli_options \<Rightarrow> string \<Rightarrow> parser \<Rightarrow> int outcome" where
  "int_var opts var p = int_value (entry_of opts p var)"

definition str_var :: "cli_options \<Rightarrow> string \<Rightarrow> parser \<Rightarrow> string outcome" where
  "str_var opts var p = str_value (entry_of opts p var)"

definition raw_file_var :: "cli_options \<Rightarrow> string \<Rightarrow> parser \<Rightarrow> string outcome" where
  "raw_file_var opts var p = file_value (entry_of opts p var)"

definition user_words :: "string list \<Rightarrow> string list" where
  "user_words argv = drop 1 (dropWhile (\<lambda>w. w \<noteq> [] \<and> hd w = CHR ''-'') (tl argv))"

definition Init :: "bool \<Rightarrow> string list \<Rightarrow> parser \<Rightarrow> getopt \<Rightarrow> (parser \<times> getopt) outcome option" where
  "Init posixly_correct argv p st =
     (if argv = [] then Some (Inr (p, st))
      else let p = p\<lparr>exec_path := hd argv, user_argv := user_words argv\<rparr>
           in case arg_parse posixly_correct argv (table p) st of
                None \<Rightarrow> None
              | Some r \<Rightarrow> Some (obind r (\<lambda>(n, t, st). Inr (p\<lparr>table := t, nerrors := int n\<rparr>, st))))"

definition CommandlineParser ::
  "cli_options \<Rightarrow> (nat \<Rightarrow> int) \<Rightarrow> bool \<Rightarrow> string \<Rightarrow> string list \<Rightarrow> getopt \<Rightarrow> (parser \<times> getopt) outcome option" where
  "CommandlineParser opts junk posixly_correct name argv st =
     (case SetupParser opts junk of
        Inl e \<Rightarrow> Some (Inl e)
      | Inr t \<Rightarrow>
          Init posixly_correct argv
            \<lparr>parser_name = name, table = t, nerrors = junk 0, exec_path = [], user_argv = [], real_path = (\<lambda>_. [])\<rparr> st)"

datatype evaluated = Exit int | Evaluated parser

fun real_paths :: "(string \<Rightarrow> string) \<Rightarrow> cli_options \<Rightarrow> string list \<Rightarrow> parser \<Rightarrow> parser outcome" where
  "real_paths absolute opts [] p = Inr p"
| "real_paths absolute opts (var # vs) p =
     obind (raw_file_var opts var p) (\<lambda>raw.
       real_paths absolute opts vs (if raw \<noteq> [] then p\<lparr>real_path := (real_path p)(var := absolute raw)\<rparr> else p))"

definition imply :: "cli_options \<Rightarrow> string \<times> string \<Rightarrow> parser \<Rightarrow> parser" where
  "imply opts cr p =
     (case cr of (cond, rise) \<Rightarrow>
        if given opts cond p
        then let i = index_of rise (cli_vars opts); t = table p
             in p\<lparr>table := t\<lparr>entries := (entries t)[i := (entries t ! i)\<lparr>count := 1\<rparr>]\<rparr>\<rparr>
        else p)"

definition Evaluate :: "(string \<Rightarrow> string) \<Rightarrow> cli_options \<Rightarrow> parser \<Rightarrow> evaluated outcome" where
  "Evaluate absolute opts p =
     (if nerrors p > 0 then Inr (Exit 4)
      else if given opts ''help'' p then Inr (Exit 0)
      else obind (str_var opts ''mode'' p) (\<lambda>mode.
        if mode \<noteq> ''normal'' \<and> given opts ''threaded_platform'' p then Inr (Exit 4)
        else if mode \<noteq> ''normal'' \<and> mode \<noteq> ''seed'' \<and> mode \<noteq> ''seed-userland'' then Inr (Exit 4)
        else obind (real_paths absolute opts (map fst (filen_args opts)) p) (\<lambda>p.
          let p = fold (imply opts) (implies opts) p
          in if given opts ''dump_arguments'' p then Inr (Exit 0) else Inr (Evaluated p))))"

section \<open>The group\<close>

type_synonym group = "parser list"

datatype push_mode = kFull | kIncremental

definition PushCommandlineParser ::
  "cli_options \<Rightarrow> (nat \<Rightarrow> int) \<Rightarrow> bool \<Rightarrow> string \<Rightarrow> string list \<Rightarrow> push_mode \<Rightarrow> group \<times> getopt \<Rightarrow> (group \<times> getopt) outcome option" where
  "PushCommandlineParser opts junk posixly_correct name argv mode gs =
     (case gs of (g, st) \<Rightarrow>
        let g = (if mode = kFull then [] else g)
        in case CommandlineParser opts junk posixly_correct name argv st of
             None \<Rightarrow> None
           | Some r \<Rightarrow> Some (obind r (\<lambda>(p, st). Inr (g @ [p], st))))"

definition CommandlineParserGroup ::
  "cli_options \<Rightarrow> (nat \<Rightarrow> int) \<Rightarrow> bool \<Rightarrow> string list \<Rightarrow> getopt \<Rightarrow> (group \<times> getopt) outcome option" where
  "CommandlineParserGroup opts junk posixly_correct argv st =
     PushCommandlineParser opts junk posixly_correct ''$default'' argv kFull ([], st)"

fun GetParser :: "string \<Rightarrow> group \<Rightarrow> nat option" where
  "GetParser name [] = None"
| "GetParser name (p # g) = (if parser_name p = name then Some 0 else map_option Suc (GetParser name g))"

definition GetParser_at :: "nat \<Rightarrow> group \<Rightarrow> nat option" where
  "GetParser_at idx g = (if idx < length g then Some idx else None)"

text \<open>The result is none when the process exits; the flag tells whether there was such a parser.\<close>

definition Evaluate_key :: "(string \<Rightarrow> string) \<Rightarrow> cli_options \<Rightarrow> nat option \<Rightarrow> group \<Rightarrow> (int + bool \<times> group) outcome" where
  "Evaluate_key absolute opts key g =
     (case key of
        None \<Rightarrow> Inr (Inr (False, g))
      | Some i \<Rightarrow>
          obind (Evaluate absolute opts (g ! i)) (\<lambda>r.
            case r of Exit c \<Rightarrow> Inr (Inl c) | Evaluated p \<Rightarrow> Inr (Inr (True, g[i := p]))))"

definition EvaluateLast :: "(string \<Rightarrow> string) \<Rightarrow> cli_options \<Rightarrow> group \<Rightarrow> (int + bool \<times> group) outcome" where
  "EvaluateLast absolute opts g = (if g = [] then Inr (Inr (False, g)) else Evaluate_key absolute opts (GetParser_at (length g - 1) g) g)"

definition TRAVERSE_RETURN :: "cli_options \<Rightarrow> string \<Rightarrow> (parser \<Rightarrow> 'a outcome) \<Rightarrow> (parser \<Rightarrow> 'a outcome) \<Rightarrow> group \<Rightarrow> 'a outcome" where
  "TRAVERSE_RETURN opts var found not_found g =
     obind (CHECK (0 < length g)) (\<lambda>_.
       case find (given opts var) (rev g) of Some p \<Rightarrow> found p | None \<Rightarrow> not_found (g ! 0))"

definition group_lit :: "cli_options \<Rightarrow> string \<Rightarrow> group \<Rightarrow> bool outcome" where
  "group_lit opts var g = TRAVERSE_RETURN opts var (\<lambda>_. Inr True) (\<lambda>_. Inr False) g"

definition group_int :: "cli_options \<Rightarrow> string \<Rightarrow> group \<Rightarrow> int outcome" where
  "group_int opts var g = TRAVERSE_RETURN opts var (int_var opts var) (int_var opts var) g"

definition group_str :: "cli_options \<Rightarrow> string \<Rightarrow> group \<Rightarrow> string outcome" where
  "group_str opts var g = TRAVERSE_RETURN opts var (str_var opts var) (str_var opts var) g"

definition group_raw_file :: "cli_options \<Rightarrow> string \<Rightarrow> group \<Rightarrow> string outcome" where
  "group_raw_file opts var g = TRAVERSE_RETURN opts var (raw_file_var opts var) (raw_file_var opts var) g"

definition group_file :: "cli_options \<Rightarrow> string \<Rightarrow> group \<Rightarrow> string outcome" where
  "group_file opts var g = TRAVERSE_RETURN opts var (\<lambda>p. Inr (real_path p var)) (\<lambda>p. Inr (real_path p var)) g"

definition mixin_has_agent :: "cli_options \<Rightarrow> group \<Rightarrow> bool outcome" where
  "mixin_has_agent opts g =
     obind (group_lit opts ''has_agent'' g) (\<lambda>b. if b then Inr True else group_lit opts ''ref_agent'' g)"

definition mixin_inspect :: "cli_options \<Rightarrow> group \<Rightarrow> bool outcome" where
  "mixin_inspect opts g =
     obind (group_lit opts ''inspect'' g) (\<lambda>b.
       if b then Inr True
       else obind (group_lit opts ''inspect_brk'' g) (\<lambda>b. if b then Inr True else group_lit opts ''inspect_brk_aworker'' g))"

section \<open>Command lines and their answers\<close>

text \<open>A command line: the options it gives, and the words that are not options.\<close>

type_synonym command = "string \<times> (nat \<times> setting_value) list \<times> string list"

definition command_words :: "argtable \<Rightarrow> command \<Rightarrow> string list" where
  "command_words t c = (case c of (prog, ss, ws) \<Rightarrow> prog # map (setting_word t) ss @ ws)"

definition command_settings :: "nat \<Rightarrow> command \<Rightarrow> (nat \<times> setting_value) list" where
  "command_settings u c = (case c of (prog, ss, ws) \<Rightarrow> ss @ map (\<lambda>w. (u, Text w)) ws)"

definition plain_word :: "string \<Rightarrow> bool" where
  "plain_word w = (w = [] \<or> hd w \<noteq> CHR ''-'')"

definition command_ok :: "nat \<Rightarrow> argtable \<Rightarrow> command \<Rightarrow> bool" where
  "command_ok u t c = (case c of (prog, ss, ws) \<Rightarrow> settings_ok u t ss \<and> list_all plain_word ws \<and> length ws \<le> 1)"

fun push_all :: "cli_options \<Rightarrow> (nat \<Rightarrow> int) \<Rightarrow> bool \<Rightarrow> argtable \<Rightarrow> command list \<Rightarrow> group \<times> getopt \<Rightarrow> (group \<times> getopt) outcome option" where
  "push_all opts junk posixly_correct t [] gs = Some (Inr gs)"
| "push_all opts junk posixly_correct t (c # cs) gs =
     (case PushCommandlineParser opts junk posixly_correct [] (command_words t c) kIncremental gs of
        Some (Inr gs) \<Rightarrow> push_all opts junk posixly_correct t cs gs
      | r \<Rightarrow> r)"

lemma plain_nonoption: "list_all plain_word ws \<Longrightarrow> list_all (is_nonoption options) ws"
  by (induction ws) (auto simp: plain_word_def is_nonoption_def split: list.split)

lemma CommandlineParser_settings:
  assumes t: "SetupParser opts junk = Inr t" "runtime_table u t" and c: "command_ok u t c"
  shows "\<exists>p st'. CommandlineParser opts junk posixly_correct name (command_words t c) st = Some (Inr (p, st')) \<and> nerrors p = 0 \<and>
    entries (table p) = assign_all (command_settings u c) (entries t)"
proof -
  obtain prog ss ws where c': "c = (prog, ss, ws)" by (cases c) auto
  have "settings_ok u t ss" "list_all (is_nonoption (shortoptions t)) ws" "length ws \<le> 1"
    using c c' plain_nonoption by (auto simp: command_ok_def)
  then obtain st' where "arg_parse posixly_correct (command_words t c) t st =
      Some (Inr (0, \<lparr>entries = assign_all (command_settings u c) (entries t), endtable = arg_end_resetfn (endtable t)\<rparr>, st'))"
    using arg_parse_words [OF t(2), of ss ws "command_words t c" prog posixly_correct st] c' by (auto simp: command_words_def command_settings_def)
  moreover have "command_words t c \<noteq> []" using c' by (simp add: command_words_def)
  ultimately show ?thesis using t(1) by (simp add: CommandlineParser_def Init_def)
qed

text \<open>Every parser of the group holds the options of its command line.\<close>

definition holds :: "nat \<Rightarrow> argtable \<Rightarrow> command list \<Rightarrow> group \<Rightarrow> bool" where
  "holds u t cs g = list_all2 (\<lambda>c p. entries (table p) = assign_all (command_settings u c) (entries t)) cs g"

lemma push_all_holds:
  assumes t: "SetupParser opts junk = Inr t" "runtime_table u t"
  shows "list_all (command_ok u t) cs \<Longrightarrow> holds u t cs0 g \<Longrightarrow>
    \<exists>g' st'. push_all opts junk posixly_correct t cs (g, st) = Some (Inr (g', st')) \<and> holds u t (cs0 @ cs) g'"
proof (induction cs arbitrary: cs0 g st)
  case (Cons c cs)
  have "command_ok u t c" using Cons.prems(1) by simp
  then obtain p st' where p: "CommandlineParser opts junk posixly_correct [] (command_words t c) st = Some (Inr (p, st'))"
      "entries (table p) = assign_all (command_settings u c) (entries t)"
    using CommandlineParser_settings [OF t] by blast
  have "holds u t (cs0 @ [c]) (g @ [p])" using Cons.prems(2) p(2) by (simp add: holds_def list_all2_appendI)
  then show ?case using Cons.IH [of "cs0 @ [c]" "g @ [p]" st'] Cons.prems(1) p(1) by (simp add: PushCommandlineParser_def)
qed simp

lemma command_settings_distinct: "command_ok u t c \<Longrightarrow> distinct (map fst (command_settings u c))"
  by (cases c; cases "snd (snd c)")
    (auto simp: command_ok_def command_settings_def settings_ok_def list_all_iff)

text \<open>The entry of an option in a parser, and whether it was given to it.\<close>

lemma entry_of_settings:
  assumes rt: "runtime_table u t" and c: "command_ok u t c" and p: "entries (table p) = assign_all (command_settings u c) (entries t)"
    and i: "index_of var (cli_vars opts) = i" "i < length (entries t)"
  shows "case map_of (command_settings u c) i of
      None \<Rightarrow> entry_of opts p var = entries t ! i \<and> \<not> given opts var p
    | Some v \<Rightarrow> entry_of opts p var = assign (entries t ! i) v \<and> given opts var p"
proof -
  have "count (entries t ! i) = 0" using rt i(2) by (simp add: runtime_table_def list_all_length single_def)
  then show ?thesis
    using assign_all_nth [OF command_settings_distinct [OF c] i(2)] p i(1) by (auto simp: entry_of_def given_def split: option.splits)
qed

text \<open>What the command lines give for an option: the last one that has it counts.\<close>

definition latest :: "nat \<Rightarrow> command list \<Rightarrow> nat \<Rightarrow> setting_value option" where
  "latest u cs i = map_of (concat (map (command_settings u) (rev cs))) i"

definition answer :: "nat \<Rightarrow> argtable \<Rightarrow> command list \<Rightarrow> nat \<Rightarrow> arg_entry" where
  "answer u t cs i = (case latest u cs i of None \<Rightarrow> entries t ! i | Some v \<Rightarrow> assign (entries t ! i) v)"

lemma find_given:
  assumes rt: "runtime_table u t" and i: "index_of var (cli_vars opts) = i" "i < length (entries t)"
  shows "list_all2 (\<lambda>c p. entries (table p) = assign_all (command_settings u c) (entries t)) cs g \<Longrightarrow> list_all (command_ok u t) cs \<Longrightarrow>
    (case map_of (concat (map (command_settings u) cs)) i of
       None \<Rightarrow> find (given opts var) g = None \<and> (\<forall>p \<in> set g. entry_of opts p var = entries t ! i)
     | Some v \<Rightarrow> \<exists>p. find (given opts var) g = Some p \<and> entry_of opts p var = assign (entries t ! i) v)"
proof (induction cs g rule: list_all2_induct)
  case (Cons c cs p g)
  have c: "command_ok u t c" "list_all (command_ok u t) cs" using Cons.prems by simp_all
  note e = entry_of_settings [OF rt c(1) Cons.hyps(1) i]
  show ?case
  proof (cases "map_of (command_settings u c) i")
    case None
    then show ?thesis using e Cons.IH [OF c(2)] by (auto simp: map_add_def split: option.splits)
  next
    case (Some v)
    then show ?thesis using e by (simp add: map_add_Some_iff)
  qed
qed simp

lemma traverse_latest:
  assumes rt: "runtime_table u t" and i: "index_of var (cli_vars opts) = i" "i < length (entries t)" and h: "holds u t cs g"
    and cs: "list_all (command_ok u t) cs" "cs \<noteq> []"
  shows "TRAVERSE_RETURN opts var (\<lambda>p. f (entry_of opts p var)) (\<lambda>p. f (entry_of opts p var)) g = f (answer u t cs i)"
    "group_lit opts var g = Inr (latest u cs i \<noteq> None)"
proof -
  have g: "g \<noteq> []" using h cs(2) by (auto simp: holds_def)
  then have "g ! 0 \<in> set (rev g)" by simp
  moreover have "list_all2 (\<lambda>c p. entries (table p) = assign_all (command_settings u c) (entries t)) (rev cs) (rev g)" using h by (simp add: holds_def)
  ultimately show "TRAVERSE_RETURN opts var (\<lambda>p. f (entry_of opts p var)) (\<lambda>p. f (entry_of opts p var)) g = f (answer u t cs i)"
    "group_lit opts var g = Inr (latest u cs i \<noteq> None)"
    using find_given [OF rt i, of "rev cs" "rev g"] cs(1) g
    by (auto simp: TRAVERSE_RETURN_def group_lit_def answer_def latest_def split: option.splits)
qed

end
