(* ===== verification/CommandLine.thy ===== *)
theory CommandLine
  imports CommandParser
begin

text \<open>
  The options of the runtime, that their table is one the parser theorems are about, and what the parsers and the group
  answer for the command lines of a user.
\<close>

section \<open>The options of the runtime\<close>

text \<open>The tables generated from src/command_parser-options.json.\<close>

definition aworker_options :: cli_options where
  "aworker_options =
     \<lparr>lit_args =
        [(''build_snapshot'', ''build-snapshot'', None, ''Build snapshot mode''),
         (''dump_arguments'', ''dump-arguments'', None, ''dump arguments for debugging''),
         (''experimental_async_context'', ''experimental-async-context'', None, ''enable async context api, deprecated''),
         (''experimental_curl_fetch'', ''experimental-curl-fetch'', None, ''enable fetch with libcurl (noop)''),
         (''enable_source_maps'', ''enable-source-maps'', None, ''enable source map v3 support for stack traces''),
         (''enable_trace_event'', ''enable-trace-event'', None, ''enable tracing dump''),
         (''eval'', ''eval'', Some ''e'', ''evaluate the script''),
         (''expose_internals'', ''expose-internals'', None, ''expose internal modules''),
         (''v8_options'', ''v8-options'', None, ''print v8 option usages''),
         (''help'', ''help'', Some ''h'', ''print usage''),
         (''has_agent'', ''has-agent'', Some ''a'', ''run aside an agent''),
         (''inspect'', ''inspect'', None, ''start inspector''),
         (''inspect_brk'', ''inspect-brk'', None, ''start inspector and pause on JavaScript entry''),
         (''inspect_brk_aworker'', ''inspect-brk-aworker'', None, ''start inspector and pause on aworker JavaScript entry''),
         (''module'', ''module'', None, ''parse the input script as ECMAScript Modules''),
         (''no_experimental_curl_fetch'', ''no-experimental-curl-fetch'', None, ''disable fetch with libcurl''),
         (''ref_agent'', ''ref-agent'', Some ''A'', ''run aside an ref-ed agent''),
         (''report'', ''report'', None, ''generate diagnostic reports on fatal errors''),
         (''report_on_signal'', ''report-on-signal'', None, ''generate diagnostic reports on signal SIGUSR2''),
         (''report_compact'', ''report-compact'', None, ''generate diagnostic reports in compact format''),
         (''threaded_platform'', ''threaded-platform'', None, ''enable experimental threaded platform''),
         (''version'', ''version'', Some ''v'', ''print version string''),
         (''cpu_prof'', ''cpu-prof'', None, ''start v8 cpu profiler'')],
      int_args =
        [(''max_macro_task_count_per_tick'', ''max-macro-task-count-per-tick'', ''<COUNT>'', ''set macro task count to be processed in each tick'', 2),
         (''long_task_threshold_ms'', ''long-task-threshold-ms'', ''<MILLISECONDS>'', ''print stacktrace if the task duration reached the threshold'', 0),
         (''loop_latency_limit_ms'', ''loop-latency-limit-ms'', ''<MILLISECONDS>'', ''abort the process if the event loop latency reached the limit'', 0),
         (''threaded_platform_pool_size'', ''threaded-platform-pool-size'', ''<COUNT>'', ''v8 platform thread pool size when --threaded-platform is enabled'', 4)],
      strn_args =
        [(''agent_cred'', Some ''agent-cred'', ''<CRED>'', 0, 1, ''the agent credential'', ''''),
         (''location'', Some ''location'', ''<HREF>'', 0, 1, (''value of '' @ [CHR 0x27] @ ''globalThis.location'' @ [CHR 0x27] @ '' used by some web APIs''), ''''),
         (''mode'', Some ''mode'', ''<RUN_MODE>'', 0, 1, ''the run mode (normal|seed), default: normal'', ''normal''),
         (''trace_event_categories'', Some ''trace-event-categories'', ''<categories>'', 0, 1, ''enables trace event output in the specified categories, implies --enable-trace-events'', ''''),
         (''report_filename'', Some ''report-filename'', ''<REPORT_FILE>'', 0, 1, (''filename of generating diagnostic report, also support '' @ [CHR 0x27] @ ''stdout'' @ [CHR 0x27] @ '' or '' @ [CHR 0x27] @ ''stderr'' @ [CHR 0x27]), ''''),
         (''script_filename'', None, ''<SCRIPT|FILENAME>'', 0, 1, ''script to be run'', '''')],
      filen_args =
        [(''agent_ipc_path'', Some ''agent-ipc'', ''<UNIX_SOCK>'', 0, 1, ''specify the path of IPC UNIX Domain Socket''),
         (''preload_script'', Some ''preload-script'', ''<FILENAME>'', 0, 1, ''pre-load a script file before the main file been evaluated''),
         (''report_directory'', Some ''report-directory'', ''<REPORT_DIR>'', 0, 1, ''directory of generating diagnostic reports''),
         (''snapshot_blob'', Some ''snapshot-blob'', ''<FILENAME>'', 0, 1, ''external startup snapshot blob''),
         (''trace_event_directory'', Some ''trace-event-directory'', ''<REPORT_DIR>'', 0, 1, ''directory of generating trace event logs''),
         (''same_origin_shared_data_dir'', Some ''same-origin-shared-data-dir'', ''<SAME_ORIG_DIR>'', 0, 1, ''directory of same origin shared data locates'')],
      implies = [(''trace_event_categories'', ''enable_trace_event'')]\<rparr>"

definition aworker_table :: "(nat \<Rightarrow> int) \<Rightarrow> argtable" where
  "aworker_table junk = projr (SetupParser aworker_options junk)"

lemmas setup_defs = SetupParser_def setup_lit_def setup_int_def setup_str_def setup_file_def arg_litn_def arg_intn_def arg_strn_def arg_filen_def arg_end_def

lemma aworker_setup: "SetupParser aworker_options junk = Inr (aworker_table junk)"
  by (simp add: aworker_table_def aworker_options_def setup_defs mem_write_def)

section \<open>The table of the runtime\<close>

lemma aworker_entries:
  "map longopts (entries (aworker_table junk)) =
     map (\<lambda>a. Some (fst (snd a))) (lit_args aworker_options) @ map (\<lambda>a. Some (fst (snd a))) (int_args aworker_options) @
     map (\<lambda>a. fst (snd a)) (strn_args aworker_options) @ map (\<lambda>a. fst (snd a)) (filen_args aworker_options)"
  by (simp add: aworker_table_def aworker_options_def setup_defs mem_write_def)

lemma aworker_single: "list_all single (entries (aworker_table junk))"
  by (simp add: aworker_table_def aworker_options_def setup_defs mem_write_def single_def entry_ok_def names_ok_def)

lemma unshadowed_names:
  "unshadowed es = sorted_wrt (\<lambda>a b. case (a, b) of (Some s, Some s') \<Rightarrow> take (length s') s \<noteq> s' | _ \<Rightarrow> True) (map longopts es)"
  by (simp add: unshadowed_def sorted_wrt_map)

lemma aworker_unshadowed: "unshadowed (entries (aworker_table junk))"
  unfolding unshadowed_names aworker_entries by (simp add: aworker_options_def)

lemma aworker_length: "length (entries (aworker_table junk)) = 39"
  using arg_cong [OF aworker_entries, of length junk] by (simp add: aworker_options_def)

lemma longopts_nth: "i < length es \<Longrightarrow> longopts (es ! i) = map longopts es ! i"
  by simp

lemma aworker_script:
  "entries (aworker_table junk) ! 32 =
     \<lparr>has_value = True, has_optvalue = False, shortopts = None, longopts = None, datatype_text = Some ''<SCRIPT|FILENAME>'', glossary = Some ''script to be run'',
      mincount = 0, maxcount = 1, count = 0, vals = Strs ['''']\<rparr>"
  by (simp add: aworker_table_def aworker_options_def setup_defs mem_write_def)

lemma aworker_tagged: "i < 39 \<Longrightarrow> i \<noteq> 32 \<Longrightarrow> tagged (entries (aworker_table junk) ! i)"
proof -
  assume i: "i < 39" "i \<noteq> 32"
  let ?good = "\<lambda>lo. case lo of None \<Rightarrow> False | Some s \<Rightarrow> s \<noteq> [] \<and> CHR '','' \<notin> set s \<and> CHR ''='' \<notin> set s"
  let ?names = "map longopts (entries (aworker_table junk))"
  have "list_all ?good (take 32 ?names)" "list_all ?good (drop 33 ?names)" unfolding aworker_entries by (simp_all add: aworker_options_def)
  then have "?good (?names ! i)"
  proof (cases "i < 32")
    case False
    then obtain n where n: "i = 33 + n" "n < 6" using i by (intro that [of "i - 33"]) simp_all
    have "?good (drop 33 ?names ! n)" using \<open>list_all ?good (drop 33 ?names)\<close> n(2) aworker_length [of junk] by (simp add: list_all_length)
    then show ?thesis using n aworker_length [of junk] by simp
  qed (use aworker_length [of junk] in \<open>simp add: list_all_length\<close>)
  then show ?thesis using i aworker_length [of junk] by (simp add: tagged_def)
qed

lemma aworker_runtime: "runtime_table 32 (aworker_table junk)"
proof -
  have "end_ok (endtable (aworker_table junk))" by (simp add: aworker_table_def aworker_options_def setup_defs mem_write_def end_ok_def)
  then show ?thesis
    using aworker_single aworker_unshadowed aworker_length aworker_script aworker_tagged
    by (simp add: runtime_table_def list_all_iff)
qed

lemma user_words_settings:
  assumes "list_all plain_word ws"
  shows "user_words (prog # map (setting_word t) ss @ ws) = tl ws"
proof -
  have "dropWhile (\<lambda>w. w \<noteq> [] \<and> hd w = CHR ''-'') (map (setting_word t) ss @ ws) = ws"
    using assms by (induction ss) (cases ws; auto simp: plain_word_def setting_word_def split: prod.split)+
  then show ?thesis by (simp add: user_words_def drop_Suc)
qed



lemma aworker_kinds:
  "vals (entries (aworker_table junk) ! 23) = Ints [2]" "vals (entries (aworker_table junk) ! 28) = Strs ['''']"
  "vals (entries (aworker_table junk) ! 29) = Strs [''normal'']" "vals (entries (aworker_table junk) ! 17) = Lit"
  by (simp_all add: aworker_table_def aworker_options_def setup_defs mem_write_def)



end
