(* ===== verification/Platform.thy ===== *)
theory Platform
  imports Prelude "HOL-Library.Multiset"
begin

text \<open>
  The foreground task runner of src/aworker_platform.cc. A task of V8 is a value; what it does when it runs is the argument
  \<open>behave\<close>: time passes and tasks are posted. The priority queue is the list of its elements; which of the elements with the earliest
  deadline is on top is the choice of the standard library and the argument \<open>pick\<close>. The timer and the async handle of libuv
  are the time they are armed for and whether a call is pending. Time is the clock of \<open>uv_hrtime\<close> in milliseconds, deadlines have 64 bits.
  The lists of posted tasks and of tasks that ran are only there for the theorems.
\<close>

record 'a delayed_task =
  task :: 'a
  deadline :: u64

record 'a runner =
  tasks :: "'a list"
  delayed_tasks :: "'a delayed_task list"
  async_sent :: bool
  timer :: "(nat \<times> u64) option"
  clock :: nat
  posted :: "'a list"
  posted_delayed :: "'a delayed_task list"
  ran :: "'a list"
  ran_delayed :: "('a delayed_task \<times> nat) list"

datatype 'a act = Advance nat | Post 'a | Post_delayed 'a int

definition PostTask :: "'a \<Rightarrow> 'a runner \<Rightarrow> 'a runner" where
  "PostTask t r = r\<lparr>tasks := tasks r @ [t], async_sent := True, posted := posted r @ [t]\<rparr>"

text \<open>\<open>delay\<close> is the rounded number of milliseconds.\<close>

definition PostDelayedTask :: "'a \<Rightarrow> int \<Rightarrow> 'a runner \<Rightarrow> 'a runner" where
  "PostDelayedTask t delay r =
     (let d = \<lparr>task = t, deadline = of_nat (clock r) + of_int delay\<rparr>
      in r\<lparr>delayed_tasks := delayed_tasks r @ [d], async_sent := True, posted_delayed := posted_delayed r @ [d]\<rparr>)"

definition PostNonNestableTask :: "'a \<Rightarrow> 'a runner \<Rightarrow> 'a runner" where
  "PostNonNestableTask t r = PostTask t r"

definition PostNonNestableDelayedTask :: "'a \<Rightarrow> int \<Rightarrow> 'a runner \<Rightarrow> 'a runner" where
  "PostNonNestableDelayedTask t delay r = PostDelayedTask t delay r"

datatype thread_mode = kSingleThread | kMultiThread

text \<open>A task for a worker thread: with a single thread it goes to the foreground runner; none means that it is handed to the worker threads of V8.\<close>

definition CallOnWorkerThread :: "thread_mode \<Rightarrow> 'a \<Rightarrow> 'a runner \<Rightarrow> 'a runner option" where
  "CallOnWorkerThread mode t r = (if mode = kSingleThread then Some (PostNonNestableTask t r) else None)"

definition CallDelayedOnWorkerThread :: "thread_mode \<Rightarrow> 'a \<Rightarrow> int \<Rightarrow> 'a runner \<Rightarrow> 'a runner option" where
  "CallDelayedOnWorkerThread mode t delay r = (if mode = kSingleThread then Some (PostNonNestableDelayedTask t delay r) else None)"

fun do_act :: "'a act \<Rightarrow> 'a runner \<Rightarrow> 'a runner" where
  "do_act (Advance n) r = r\<lparr>clock := clock r + n\<rparr>"
| "do_act (Post t) r = PostTask t r"
| "do_act (Post_delayed t delay) r = PostDelayedTask t delay r"

section \<open>Running tasks\<close>

definition run_task :: "('a \<Rightarrow> 'a act list) \<Rightarrow> 'a \<Rightarrow> 'a runner \<Rightarrow> 'a runner" where
  "run_task behave t r = fold do_act (behave t) r"

fun run_tasks :: "('a \<Rightarrow> 'a act list) \<Rightarrow> 'a list \<Rightarrow> 'a runner \<Rightarrow> 'a runner" where
  "run_tasks behave [] r = r"
| "run_tasks behave (t # ts) r = run_tasks behave ts (run_task behave t (r\<lparr>ran := ran r @ [t]\<rparr>))"

fun run_delayed :: "('a \<Rightarrow> 'a act list) \<Rightarrow> 'a delayed_task list \<Rightarrow> 'a runner \<Rightarrow> 'a runner" where
  "run_delayed behave [] r = r"
| "run_delayed behave (d # ds) r = run_delayed behave ds (run_task behave (task d) (r\<lparr>ran_delayed := ran_delayed r @ [(d, clock r)]\<rparr>))"

text \<open>The loop that takes the tasks from the queue whose deadline is met.\<close>

function take_due :: "('a delayed_task list \<Rightarrow> nat) \<Rightarrow> u64 \<Rightarrow> 'a delayed_task list \<Rightarrow> 'a delayed_task list \<times> 'a delayed_task list" where
  "take_due pick now q =
     (if q = [] \<or> length q \<le> pick q \<or> deadline (q ! pick q) > now then ([], q)
      else case take_due pick now (take (pick q) q @ drop (Suc (pick q)) q) of (due, rest) \<Rightarrow> (q ! pick q # due, rest))"
  by pat_completeness auto

termination take_due
  by (relation "measure (\<lambda>(pick, now, q). length q)") auto

declare take_due.simps [simp del]

definition DrainTasks :: "('a delayed_task list \<Rightarrow> nat) \<Rightarrow> ('a \<Rightarrow> 'a act list) \<Rightarrow> 'a runner \<Rightarrow> 'a runner" where
  "DrainTasks pick behave r =
     (case take_due pick (of_nat (clock r)) (delayed_tasks r) of
        (due, rest) \<Rightarrow> run_delayed behave due (run_tasks behave (tasks r) (r\<lparr>tasks := [], delayed_tasks := rest\<rparr>)))"

definition RunTasks :: "('a delayed_task list \<Rightarrow> nat) \<Rightarrow> ('a \<Rightarrow> 'a act list) \<Rightarrow> 'a runner \<Rightarrow> 'a runner" where
  "RunTasks pick behave r =
     (let r = DrainTasks pick behave r;
          now = (of_nat (clock r) :: u64);
          next_timeout = (if delayed_tasks r \<noteq> [] then max (deadline (delayed_tasks r ! pick (delayed_tasks r)) - now) 1 else 0)
      in if next_timeout = 0 then r\<lparr>timer := None\<rparr> else r\<lparr>timer := Some (clock r, next_timeout)\<rparr>)"

definition TimerProcessor :: "('a delayed_task list \<Rightarrow> nat) \<Rightarrow> ('a \<Rightarrow> 'a act list) \<Rightarrow> 'a runner \<Rightarrow> 'a runner" where
  "TimerProcessor pick behave r = RunTasks pick behave r"

definition ImmediateProcessor :: "('a delayed_task list \<Rightarrow> nat) \<Rightarrow> ('a \<Rightarrow> 'a act list) \<Rightarrow> 'a runner \<Rightarrow> 'a runner" where
  "ImmediateProcessor pick behave r = RunTasks pick behave r"

definition New :: "nat \<Rightarrow> 'a runner" where
  "New now =
     \<lparr>tasks = [], delayed_tasks = [], async_sent = False, timer = None, clock = now, posted = [], posted_delayed = [], ran = [], ran_delayed = []\<rparr>"

text \<open>
  The runner in its loop: any thread may post and time passes, a call of \<open>uv_async_send\<close> has its call back, the timer fires when its
  time has come, and the owner may drain the tasks.
\<close>

inductive runner_step :: "('a delayed_task list \<Rightarrow> nat) \<Rightarrow> ('a \<Rightarrow> 'a act list) \<Rightarrow> 'a runner \<Rightarrow> 'a runner \<Rightarrow> bool" for pick behave where
  outside: "runner_step pick behave r (do_act a r)"
| async: "async_sent r \<Longrightarrow> runner_step pick behave r (ImmediateProcessor pick behave (r\<lparr>async_sent := False\<rparr>))"
| timer: "timer r = Some (start, timeout) \<Longrightarrow> start + unat timeout \<le> clock r \<Longrightarrow>
    runner_step pick behave r (TimerProcessor pick behave (r\<lparr>timer := None\<rparr>))"
| drain: "runner_step pick behave r (DrainTasks pick behave r)"

section \<open>Every task runs once\<close>

text \<open>The state while the tasks \<open>ts\<close> and \<open>ds\<close> are taken out but have not run yet.\<close>

definition owed :: "'a list \<Rightarrow> 'a delayed_task list \<Rightarrow> 'a runner \<Rightarrow> bool" where
  "owed ts ds r =
     (posted r = ran r @ ts @ tasks r \<and>
      mset (posted_delayed r) = mset (map fst (ran_delayed r)) + mset ds + mset (delayed_tasks r) \<and>
      (\<forall>(d, c) \<in> set (ran_delayed r). unat (deadline d) \<le> c) \<and>
      (tasks r \<noteq> [] \<longrightarrow> async_sent r))"

definition woken :: "'a runner \<Rightarrow> bool" where
  "woken r = (delayed_tasks r \<noteq> [] \<longrightarrow> async_sent r \<or> timer r \<noteq> None)"

lemmas act_defs = PostTask_def PostDelayedTask_def Let_def

lemma acts_keep:
  "owed ts ds r \<Longrightarrow> owed ts ds (fold do_act as r)" "woken r \<Longrightarrow> woken (fold do_act as r)" "clock r \<le> clock (fold do_act as r)"
proof -
  have o: "owed ts ds (do_act a r)" if "owed ts ds r" for a r
    using that by (cases a) (auto simp: owed_def act_defs)
  have w: "woken (do_act a r)" if "woken r" for a and r :: "'a runner"
    using that by (cases a) (auto simp: woken_def act_defs)
  have c: "clock r \<le> clock (do_act a r)" for a and r :: "'a runner" by (cases a) (simp_all add: act_defs)
  show "owed ts ds r \<Longrightarrow> owed ts ds (fold do_act as r)" by (induction as arbitrary: r) (simp_all add: o)
  show "woken r \<Longrightarrow> woken (fold do_act as r)" by (induction as arbitrary: r) (simp_all add: w)
  show "clock r \<le> clock (fold do_act as r)" by (induction as arbitrary: r) (auto intro: order_trans [OF c])
qed

lemma run_tasks_keep:
  "owed ts ds r \<Longrightarrow> owed [] ds (run_tasks behave ts r)" "woken r \<Longrightarrow> woken (run_tasks behave ts r)" "clock r \<le> clock (run_tasks behave ts r)"
proof -
  show "owed ts ds r \<Longrightarrow> owed [] ds (run_tasks behave ts r)"
  proof (induction ts arbitrary: r)
    case (Cons t ts)
    then have "owed ts ds (r\<lparr>ran := ran r @ [t]\<rparr>)" by (simp add: owed_def)
    from Cons.IH [OF acts_keep(1) [OF this]] show ?case by (simp add: run_task_def)
  qed simp
  show "woken r \<Longrightarrow> woken (run_tasks behave ts r)"
  proof (induction ts arbitrary: r)
    case (Cons t ts)
    then have "woken (r\<lparr>ran := ran r @ [t]\<rparr>)" by (simp add: woken_def)
    from Cons.IH [OF acts_keep(2) [OF this]] show ?case by (simp add: run_task_def)
  qed simp
  show "clock r \<le> clock (run_tasks behave ts r)"
  proof (induction ts arbitrary: r)
    case (Cons t ts)
    have "clock r \<le> clock (run_task behave t (r\<lparr>ran := ran r @ [t]\<rparr>))"
      using acts_keep(3) [of "r\<lparr>ran := ran r @ [t]\<rparr>"] by (simp add: run_task_def)
    then show ?case using Cons.IH order_trans by fastforce
  qed simp
qed

lemma run_delayed_keep:
  "owed ts ds r \<Longrightarrow> \<forall>d \<in> set ds. unat (deadline d) \<le> clock r \<Longrightarrow> owed ts [] (run_delayed behave ds r)" "woken r \<Longrightarrow> woken (run_delayed behave ds r)"
proof -
  show "owed ts ds r \<Longrightarrow> \<forall>d \<in> set ds. unat (deadline d) \<le> clock r \<Longrightarrow> owed ts [] (run_delayed behave ds r)"
  proof (induction ds arbitrary: r)
    case (Cons d ds)
    let ?r = "r\<lparr>ran_delayed := ran_delayed r @ [(d, clock r)]\<rparr>"
    have "owed ts ds ?r" using Cons.prems by (auto simp: owed_def)
    from acts_keep(1) [OF this] have "owed ts ds (run_task behave (task d) ?r)" by (simp add: run_task_def)
    moreover have "clock r \<le> clock (run_task behave (task d) ?r)" using acts_keep(3) [of ?r] by (simp add: run_task_def)
    then have "\<forall>d' \<in> set ds. unat (deadline d') \<le> clock (run_task behave (task d) ?r)" using Cons.prems(2) by fastforce
    ultimately show ?case using Cons.IH by simp
  qed simp
  show "woken r \<Longrightarrow> woken (run_delayed behave ds r)"
  proof (induction ds arbitrary: r)
    case (Cons d ds)
    then have "woken (r\<lparr>ran_delayed := ran_delayed r @ [(d, clock r)]\<rparr>)" by (simp add: woken_def)
    from Cons.IH [OF acts_keep(2) [OF this]] show ?case by (simp add: run_task_def)
  qed simp
qed

lemma take_due_parts:
  "take_due pick now q = (due, rest) \<Longrightarrow> mset q = mset due + mset rest \<and> (\<forall>d \<in> set due. deadline d \<le> now)"
proof (induction pick now q arbitrary: due rest rule: take_due.induct)
  case (1 pick now q)
  show ?case
  proof (cases "q = [] \<or> length q \<le> pick q \<or> deadline (q ! pick q) > now")
    case True
    then show ?thesis using 1(2) by (subst (asm) take_due.simps) auto
  next
    case False
    then obtain due' where d: "take_due pick now (take (pick q) q @ drop (Suc (pick q)) q) = (due', rest)" "due = q ! pick q # due'"
      using 1(2) by (subst (asm) take_due.simps) (auto split: prod.splits)
    have "mset q = add_mset (q ! pick q) (mset (take (pick q) q @ drop (Suc (pick q)) q))"
      using False arg_cong [OF id_take_nth_drop [of "pick q" q], of mset] by simp
    then show ?thesis using 1(1) [OF False d(1)] d(2) False by auto
  qed
qed

lemma unat_of_nat_le: "unat (of_nat n :: u64) \<le> n"
  by (simp add: unsigned_of_nat take_bit_nat_less_eq_self)

lemma DrainTasks_keep:
  assumes o: "posted r = ran r @ tasks r" "mset (posted_delayed r) = mset (map fst (ran_delayed r)) + mset (delayed_tasks r)"
    "\<forall>(d, c) \<in> set (ran_delayed r). unat (deadline d) \<le> c"
  shows "owed [] [] (DrainTasks pick behave r)" "woken r \<Longrightarrow> woken (DrainTasks pick behave r)"
proof -
  obtain due rest where t: "take_due pick (of_nat (clock r)) (delayed_tasks r) = (due, rest)" by fastforce
  note p = take_due_parts [OF t]
  let ?r = "r\<lparr>tasks := [], delayed_tasks := rest\<rparr>"
  let ?s = "run_tasks behave (tasks r) ?r"
  have "owed (tasks r) due ?r" using o p by (simp add: owed_def)
  from run_tasks_keep(1) [OF this] have s: "owed [] due ?s" .
  have "unat (deadline d) \<le> clock ?s" if "d \<in> set due" for d
  proof -
    have "unat (deadline d) \<le> unat (of_nat (clock r) :: u64)" using p that by (simp add: word_le_nat_alt)
    also have "\<dots> \<le> clock ?r" by (simp add: unat_of_nat_le)
    also have "\<dots> \<le> clock ?s" by (rule run_tasks_keep(3))
    finally show ?thesis .
  qed
  then show "owed [] [] (DrainTasks pick behave r)" using run_delayed_keep(1) [OF s] by (simp add: DrainTasks_def t)
  assume "woken r"
  moreover have "rest = [] \<or> delayed_tasks r \<noteq> []" using p by auto
  ultimately have "woken ?r" by (auto simp: woken_def)
  from run_delayed_keep(2) [OF run_tasks_keep(2) [OF this]] show "woken (DrainTasks pick behave r)" by (simp add: DrainTasks_def t)
qed

lemma RunTasks_keep:
  assumes o: "posted r = ran r @ tasks r" "mset (posted_delayed r) = mset (map fst (ran_delayed r)) + mset (delayed_tasks r)"
    "\<forall>(d, c) \<in> set (ran_delayed r). unat (deadline d) \<le> c"
  shows "owed [] [] (RunTasks pick behave r) \<and> woken (RunTasks pick behave r)"
  using DrainTasks_keep(1) [OF o, of pick behave] by (auto simp: RunTasks_def Let_def owed_def woken_def max_def)

definition runner_ok :: "'a runner \<Rightarrow> bool" where
  "runner_ok r = (owed [] [] r \<and> woken r)"

lemma runner_step_ok: "runner_ok r \<Longrightarrow> runner_step pick behave r r' \<Longrightarrow> runner_ok r'"
proof (erule runner_step.cases)
  fix a s assume "runner_ok r" "r = s" "r' = do_act a s"
  then show "runner_ok r'" using acts_keep(1) [of "[]" "[]" s "[a]"] acts_keep(2) [of s "[a]"] by (simp add: runner_ok_def)
next
  fix s assume "runner_ok r" "r = s" "r' = ImmediateProcessor pick behave (s\<lparr>async_sent := False\<rparr>)"
  then show "runner_ok r'" using RunTasks_keep [of "s\<lparr>async_sent := False\<rparr>" pick behave] by (simp add: runner_ok_def owed_def ImmediateProcessor_def)
next
  fix s assume "runner_ok r" "r = s" "r' = TimerProcessor pick behave (s\<lparr>timer := None\<rparr>)"
  then show "runner_ok r'" using RunTasks_keep [of "s\<lparr>timer := None\<rparr>" pick behave] by (simp add: runner_ok_def owed_def TimerProcessor_def)
next
  fix s assume "runner_ok r" "r = s" "r' = DrainTasks pick behave s"
  then show "runner_ok r'" using DrainTasks_keep [of s pick behave] by (simp add: runner_ok_def owed_def)
qed

lemma New_ok: "runner_ok (New now)"
  by (simp add: runner_ok_def owed_def woken_def New_def)

interpretation runner: invariant_system "\<lambda>r. \<exists>now. r = New now" "runner_step pick behave" runner_ok for pick and behave :: "'a \<Rightarrow> 'a act list"
  by unfold_locales (auto intro: New_ok runner_step_ok)

text \<open>C12: However posts, passing time, wake-ups and timers follow each other, the tasks posted without delay are those that ran, in
  the order of posting, followed by those that wait; every delayed task either ran once, not before its deadline, or waits; and nothing that waits is
  left without a call to come: a waiting task has a wake-up on its way, a waiting delayed task a wake-up or an armed timer.\<close>

theorem runner_tasks:
  assumes "(runner_step pick behave)\<^sup>*\<^sup>* (New now) r"
  shows "posted r = ran r @ tasks r \<and> mset (posted_delayed r) = mset (map fst (ran_delayed r)) + mset (delayed_tasks r) \<and>
    (\<forall>(d, c) \<in> set (ran_delayed r). unat (deadline d) \<le> c) \<and> (tasks r \<noteq> [] \<longrightarrow> async_sent r) \<and>
    (delayed_tasks r \<noteq> [] \<longrightarrow> async_sent r \<or> timer r \<noteq> None)"
  using runner.inv_reachable [OF _ assms] by (auto simp: runner_ok_def owed_def woken_def)

section \<open>The timer\<close>

definition earliest :: "('a delayed_task list \<Rightarrow> nat) \<Rightarrow> bool" where
  "earliest pick = (\<forall>q. q \<noteq> [] \<longrightarrow> pick q < length q \<and> (\<forall>d \<in> set q. deadline (q ! pick q) \<le> deadline d))"

lemma max_one: "x \<noteq> 0 \<Longrightarrow> max x 1 = (x :: u64)"
proof -
  assume "x \<noteq> 0"
  then have "0 < unat x" using unat_eq_zero [of x] by auto
  then have "1 \<le> x" by (simp add: word_le_nat_alt)
  then show ?thesis by (rule max_absorb1)
qed

lemma timeout_word:
  assumes "n < 2 ^ 64" "d < 2 ^ 64"
  shows "max (of_nat d - of_nat n) 1 = (if n < d then of_nat (d - n) else if n = d then 1 else of_nat (2 ^ 64 - (n - d)) :: u64)"
proof -
  have nz: "(of_nat k :: u64) \<noteq> 0" if "0 < k" "k < 2 ^ 64" for k
  proof -
    have "unat (of_nat k :: u64) = k" using that(2) by (simp add: unsigned_of_nat take_bit_nat_eq_self)
    then show ?thesis using that(1) by auto
  qed
  consider "n < d" | "n = d" | "d < n" by linarith
  then show ?thesis
  proof cases
    case 1
    then have "(of_nat d - of_nat n :: u64) = of_nat (d - n)" by (simp add: of_nat_diff)
    then show ?thesis using 1 nz [of "d - n"] assms max_one by simp
  next
    case 2
    then show ?thesis by simp
  next
    case 3
    have "(of_nat (2 ^ 64) :: u64) = 0" by simp
    then have "(of_nat (2 ^ 64 - (n - d)) :: u64) = of_nat d - of_nat n" using 3 assms by (simp add: of_nat_diff del: of_nat_power of_nat_numeral)
    then show ?thesis using 3 nz [of "2 ^ 64 - (n - d)"] assms max_one [of "of_nat d - of_nat n"] by simp
  qed
qed

text \<open>C23: After a round the timer is armed for the earliest deadline that is left, at least one millisecond ahead, and stopped when
  no delayed task is left. If that deadline passed while the tasks of the round ran, the subtraction wraps around: the timer is armed for about 2 ^ 64
  milliseconds, and the overdue task waits until some other event wakes the runner.\<close>

theorem runner_timeout:
  assumes pick: "earliest pick" and r'_def: "r' = DrainTasks pick behave r" and c: "clock r' < 2 ^ 64"
  shows "timer (RunTasks pick behave r) =
    (if delayed_tasks r' = [] then None
     else let d = Min ((\<lambda>t. unat (deadline t)) ` set (delayed_tasks r'))
          in Some (clock r', if clock r' < d then of_nat (d - clock r') else if clock r' = d then 1 else of_nat (2 ^ 64 - (clock r' - d))))"
proof (cases "delayed_tasks r' = []")
  case True
  then show ?thesis by (simp add: RunTasks_def Let_def flip: r'_def)
next
  case False
  let ?q = "delayed_tasks r'" and ?n = "clock r'"
  define t where "t = ?q ! pick ?q"
  define d where "d = unat (deadline t)"
  have t: "t \<in> set ?q" "\<forall>x \<in> set ?q. deadline t \<le> deadline x" using pick False by (auto simp: earliest_def t_def)
  have m: "Min ((\<lambda>t. unat (deadline t)) ` set ?q) = d"
    by (rule Min_eqI) (use t in \<open>auto simp: d_def word_le_nat_alt\<close>)
  have d: "d < 2 ^ 64" "deadline t = of_nat d" using unsigned_less [of "deadline t"] by (simp_all add: d_def)
  define nt where "nt = max (deadline t - of_nat ?n) (1 :: u64)"
  have "1 \<le> nt" unfolding nt_def by (rule max.cobounded2)
  then have "nt \<noteq> 0" by auto
  then have "timer (RunTasks pick behave r) = Some (?n, nt)" using False by (simp add: RunTasks_def Let_def nt_def t_def flip: r'_def)
  moreover have "nt = (if ?n < d then of_nat (d - ?n) else if ?n = d then 1 else of_nat (2 ^ 64 - (?n - d)))"
    unfolding nt_def d(2) by (rule timeout_word [OF c d(1)])
  ultimately show ?thesis using False m by (simp only: Let_def if_False)
qed

text \<open>A choice of the earliest deadline: the first one.\<close>

fun first_earliest :: "'a delayed_task list \<Rightarrow> nat" where
  "first_earliest [] = 0"
| "first_earliest (d # q) = (if q = [] \<or> deadline d \<le> deadline (q ! first_earliest q) then 0 else Suc (first_earliest q))"

lemma earliest_first: "earliest first_earliest"
proof -
  have "q \<noteq> [] \<Longrightarrow> first_earliest q < length q \<and> (\<forall>d \<in> set q. deadline (q ! first_earliest q) \<le> deadline d)" for q :: "'a delayed_task list"
  proof (induction q)
    case (Cons d q)
    then show ?case by (cases "q = []") (auto intro: order_trans)
  qed simp
  then show ?thesis by (simp add: earliest_def)
qed

text \<open>Task 1 takes five milliseconds and posts task 2 with a delay of three milliseconds at its start; task 3 only takes five milliseconds.\<close>

definition slow :: "nat \<Rightarrow> nat act list" where
  "slow t = (if t = 1 then [Post_delayed 2 3, Advance 5] else if t = 3 then [Advance 5] else [])"

theorem runner_tasks_witness:
  "posted (ImmediateProcessor first_earliest slow ((PostTask 1 (New 10))\<lparr>async_sent := False\<rparr>)) = [1] \<and>
   (let r = ImmediateProcessor first_earliest slow ((PostTask 1 (New 10))\<lparr>async_sent := False\<rparr>)
    in ran r @ tasks r = [1] \<and> mset (map fst (ran_delayed r)) + mset (delayed_tasks r) = mset (posted_delayed r))"
proof -
  let ?p = "PostTask 1 (New 10)"
  have "runner_step first_earliest slow (New 10) (do_act (Post 1) (New 10))" by (rule runner_step.outside)
  moreover have "runner_step first_earliest slow ?p (ImmediateProcessor first_earliest slow (?p\<lparr>async_sent := False\<rparr>))"
    by (rule runner_step.async) (simp add: PostTask_def)
  ultimately have "(runner_step first_earliest slow)\<^sup>*\<^sup>* (New 10) (ImmediateProcessor first_earliest slow (?p\<lparr>async_sent := False\<rparr>))"
    by (simp add: converse_rtranclp_into_rtranclp)
  note t = runner_tasks [OF this]
  have "posted (ImmediateProcessor first_earliest slow (?p\<lparr>async_sent := False\<rparr>)) = [1]"
    by (simp add: ImmediateProcessor_def RunTasks_def DrainTasks_def take_due.simps PostTask_def PostDelayedTask_def New_def run_task_def slow_def Let_def)
  then show ?thesis using t by (simp add: Let_def)
qed

text \<open>Task 2 is due at 13; task 3 runs from 10 to 15. The timer is armed for 2 ^ 64 - 2 milliseconds and no wake-up is on its way.\<close>

theorem runner_timeout_witness:
  "timer (RunTasks first_earliest slow ((PostTask 3 (PostDelayedTask 2 3 (New 10)))\<lparr>async_sent := False\<rparr>)) = Some (15, of_nat (2 ^ 64 - 2)) \<and>
   \<not> async_sent (RunTasks first_earliest slow ((PostTask 3 (PostDelayedTask 2 3 (New 10)))\<lparr>async_sent := False\<rparr>)) \<and>
   earliest (first_earliest :: nat delayed_task list \<Rightarrow> nat)"
proof -
  have r: "DrainTasks first_earliest slow ((PostTask 3 (PostDelayedTask 2 3 (New 10)))\<lparr>async_sent := False\<rparr>) =
      \<lparr>tasks = [], delayed_tasks = [\<lparr>task = 2, deadline = 13\<rparr>], async_sent = False, timer = None, clock = 15, posted = [3],
       posted_delayed = [\<lparr>task = 2, deadline = 13\<rparr>], ran = [3], ran_delayed = []\<rparr>"
    by (simp add: DrainTasks_def take_due.simps PostTask_def PostDelayedTask_def New_def run_task_def slow_def Let_def)
  then have "\<not> async_sent (RunTasks first_earliest slow ((PostTask 3 (PostDelayedTask 2 3 (New 10)))\<lparr>async_sent := False\<rparr>))"
    by (simp add: RunTasks_def Let_def)
  then show ?thesis using runner_timeout [OF earliest_first r [symmetric]] earliest_first by simp
qed

end
