(* ===== verification/Spec2Isabelle.thy ===== *)
theory Spec2Isabelle
  imports Url DataChannel AlarmTimer ZlibWorld Bytes Profile ReportDocument ArgCmd CommandLine Platform
begin

text \<open>
  Verification of aworker, the JavaScript runtime of the Noslate project. This library models the parts of the runtime that
  are written in C and C++ under src/ and deps/ and that decide something themselves; V8, libuv, zlib, protobuf and the
  operating system are arguments of the definitions, and what the code relies on is a hypothesis of the theorems.

  \<^bold>\<open>The program and its theories.\<close>

  \<^item> Vocabulary. \<^bold>\<open>Prelude\<close>: an operation that may take the process down has an outcome (a failed CHECK, a null pointer,
    an access outside a buffer, a bad cast, or a value); memory buffers are lists with checked reads and writes; the locale of
    invariants of transition systems. \<^bold>\<open>CText\<close>: C strings and decimal numbers. \<^bold>\<open>OrderedMap\<close>: \<open>std::map\<close>, with the locale the
    delegate uses it by. \<^bold>\<open>JsValue\<close>: the JavaScript values that cross the bindings.

  \<^item> URLs. \<^bold>\<open>UriEncode\<close> is src/url/uri_encode.cc with its tables, \<^bold>\<open>Url\<close> is \<open>UrlSearchParams\<close> of src/url/url.cc: the parser with
    its pointers and counters, \<open>Append\<close> and \<open>ToString\<close>.

  \<^item> Communication with the agent, bottom up. \<^bold>\<open>ResizableBuffer\<close> is src/utils/resizable_buffer.h. \<^bold>\<open>IpcMessage\<close> has the message
    kinds and the frame header of src/ipc and src/proto; serialisation is the codec argument (locale protobuf_codec).
    \<^bold>\<open>EventLoop\<close> is src/ipc/uv_loop.cc over the documented states of libuv handles. \<^bold>\<open>IpcSocket\<close> is the decoder and the socket
    holder of src/ipc/ipc_socket.cc: bytes arrive in any cut and leave as messages. \<^bold>\<open>IpcDelegate\<close> is src/ipc/ipc_delegate_impl.cc
    and ipc_service.cc: pending closures, timeouts, request numbers. \<^bold>\<open>DataChannel\<close> is src/agent_channel/noslated_data_channel.cc:
    the calls JavaScript makes, the handlers of the agent's requests, and the reference count that keeps the loop alive.

  \<^item> Timers and tasks. \<^bold>\<open>AlarmTimer\<close> is src/alarm_timer.cc, the set of timers behind one interval timer and its signal handler.
    \<^bold>\<open>Platform\<close> is the foreground task runner of src/aworker_platform.cc. \<^bold>\<open>MacroTaskQueue\<close> is src/macro_task_queue.cc, with the locale macro_task for what a task promises.

  \<^item> Compression. \<^bold>\<open>Zlib\<close> has the tasks (src/zlib/zlib_task.cc, zip_task.cc, unzip_task.cc) and the wrapper
    (zlib_wrapper.cc), \<^bold>\<open>ZlibStream\<close> the streams (zip.cc, unzip.cc), \<^bold>\<open>ZlibWorld\<close> the interleavings of pushes, ticks of the task
    queue and the end of a stream.

  \<^item> Bytes and texts. \<^bold>\<open>Base64\<close> is deps/modp_b64 with its literal tables, \<^bold>\<open>Bytes\<close> the binding src/binding/internal/aworker_bytes.cc.
    \<^bold>\<open>Json\<close> is the grammar of JSON with a reader, \<^bold>\<open>JsonBuilder\<close> the abstract builder of documents; \<^bold>\<open>TracedValue\<close>
    (src/tracing/traced_value.cc) and \<^bold>\<open>JsonWriter\<close> (src/json_utils.cc and .h) refine it, \<^bold>\<open>JsonCalls\<close> has sequences of calls.
    \<^bold>\<open>Profile\<close> is the file of src/aworker_profiler.cc; \<^bold>\<open>Report\<close> and \<^bold>\<open>ReportDocument\<close> are src/diag_report.cc and diag_report_utils.cc.

  \<^item> The command line. \<^bold>\<open>Permute\<close>, \<^bold>\<open>Getopt\<close> and \<^bold>\<open>GetoptProofs\<close> are the getopt_long that deps/argtable/argtable3.c embeds,
    \<^bold>\<open>ArgTypes\<close> the argument structures, \<^bold>\<open>ArgParse\<close> the function \<open>arg_parse\<close>, \<^bold>\<open>ArgWords\<close> what it makes of the words of a user;
    \<^bold>\<open>CommandParser\<close> is src/command_parser.cc and src/command_parser_group.cc, \<^bold>\<open>CommandLine\<close> the options of the runtime.
    \<^bold>\<open>Hashtable\<close> and \<^bold>\<open>ArgCmd\<close> are the chained hash table and the command registry of argtable3.

  \<^bold>\<open>How state and operations correspond.\<close> A C++ object is a record with its members, a method is a function from the record
  to an outcome with the record changed, with the branches of the code in their order; early returns and CHECKs are branches. A call back
  that runs later is a value in the record, and what runs it is a step of an inductive relation (sockets, delegates, channels,
  compression) or an explicit sequence of operations. Machine integers keep their width where the code depends on it
  (lengths of the bindings, base64, request numbers, the hash table, timers); other counters are natural numbers. A loop that
  need not end is a \<open>partial_function\<close>, so that not returning is the value none; the theorems then state when a value is
  returned (\<open>hex_encode\<close> returns exactly up to its 32-bit bound, the loop over getopt always returns). The reader of \<^bold>\<open>Json\<close>
  has fuel; the length of the text is enough, and the theorems use it at that fuel.

  \<^bold>\<open>What the theorems show.\<close>

  \<^item> URLs: the parser computes the split of the query at the separators, parameters survive printing and parsing, percent
    coding stays inside its buffer and is inverted by decoding.
  \<^item> Sockets and delegates: messages are delivered completely and in order for every cut of the byte stream, nothing the peer
    sends aborts the socket, every request is answered exactly once (response, timeout or close) and by its own response,
    numbers of live requests differ. The channel's reference count is the number of calls that keep it; its use after
    the agent disconnects, and a response of the wrong type, break it.
  \<^item> Timers: due timers fire once per signal and the interval timer is armed for the first one left, except for distances below
    its resolution. The task runner loses and repeats no task, keeps their order, runs none early and has a wake-up or an armed timer
    for each that waits; a deadline that passes during a round wraps the timer around. Compression: every push is called back exactly once and in order, the output does not depend on how the input
    is cut; the failing paths that abort the process or report a false error are stated as they are.
  \<^item> Encoders: base64 is the one of RFC 4648 in both directions, atob inverts btoa, strings become scalar values; the 32-bit
    range arithmetic of the bindings is stated with the exact range in which it is right.
  \<^item> Documents: both JSON writers refine the abstract builder, so what they write is valid JSON with the given content under the
    stated conditions; the profile and the diagnostic report are such documents.
  \<^item> Command line: getopt's loop ends and separates options from words, \<open>arg_parse\<close> is memory safe and returns on every
    command line, the group of parsers answers with the last command line that gives an option, and words behind the script are
    refused. The hash table is well formed after every call, frees every block once, and the registry is a finite map.

  \<^bold>\<open>Not modelled.\<close> The set-up of isolates, contexts, modules, snapshots and wrapper objects (src/immortal.cc, src/contextify, src/module_wrap.cc,
  src/snapshot, src/base_object.h) consists of calls of V8 whose effects are inside V8. The inspector, the watchdogs and the trace agent
  hand messages between threads with primitives of the operating system and objects of V8. The bindings for curl, crypto, i18n,
  files, processes and signals pass one call each on to a library. The socket transport of src/ipc/ipc_socket_uv.cc and the
  diagnostic channel are the arguments of the socket theory. Of argtable3, the date, double and regular expression arguments are not used by
  the runtime, and texts for help and errors are only printed. Registration of bindings with V8, logging, and the JavaScript
  half of the runtime under lib/ are left out.
\<close>

end
